(* ===== verification/Prelude.thy ===== *)
theory Prelude
  imports Main "HOL-Library.Word" "HOL-Library.Monad_Syntax"
begin

text \<open>
  Shared base of the development: the C integer types of \<^verbatim>\<open>types.h\<close> as words, the collections of
  simplification rules the component theories feed, and the generic facts on words, lists and
  step functions that their proofs rest on.
\<close>

unbundle bit_operations_syntax

subsection \<open>C integer types\<close>

text \<open>\<^verbatim>\<open>uint8_t\<close>, \<^verbatim>\<open>uint16_t\<close> and \<^verbatim>\<open>uint32_t\<close>; a signed C value is read with \<^const>\<open>sint\<close>.\<close>

type_synonym u8 = "8 word"
type_synonym u16 = "16 word"
type_synonym u32 = "32 word"

text \<open>Rules that rewrite memory operations, console operations and kernel state accesses.\<close>

named_theorems mem_simps
named_theorems console_simps
named_theorems kernel_simps

definition bytes_of :: "string \<Rightarrow> u8 list" where
  "bytes_of s = map of_char s"

lemma bytes_of_simps [simp]:
  "bytes_of [] = []"
  "bytes_of (c # cs) = of_char c # bytes_of cs"
  by (simp_all add: bytes_of_def)

lemma length_bytes_of [simp]: "length (bytes_of s) = length s"
  by (simp add: bytes_of_def)

subsection \<open>Words and natural numbers\<close>

lemma unat_of_nat_u32 [simp]: "n < 2 ^ 32 \<Longrightarrow> unat (of_nat n :: u32) = n"
  by (simp add: unat_of_nat)

lemma of_nat_u32_inj:
  "i < 2 ^ 32 \<Longrightarrow> j < 2 ^ 32 \<Longrightarrow> (of_nat i :: u32) = of_nat j \<longleftrightarrow> i = j"
  by (metis unat_of_nat_u32)

lemma unat_u32_bound [simp]: "unat (x :: u32) < 4294967296"
  using unsigned_less [of x] by simp

lemma unat_u32_le [simp]: "unat (x :: u32) \<le> 4294967296"
  by (rule less_imp_le [OF unat_u32_bound])

lemma unat_u8_bound [simp]: "unat (x :: u8) < 256"
  using unsigned_less [of x] by simp

lemma u32_exhaust_nat:
  obtains n where "n < 2 ^ 32" and "(x :: u32) = of_nat n"
proof
  show "unat x < 2 ^ 32" using unsigned_less [of x] by simp
  show "x = of_nat (unat x)" by simp
qed

lemma unat_ucast_u8_u32 [simp]: "unat (ucast (x :: u8) :: u32) = unat x"
proof -
  have "unat x < 2 ^ 32" by (rule less_trans [OF unat_u8_bound]) simp
  then show ?thesis by (simp add: unsigned_ucast_eq take_bit_nat_eq_self)
qed

subsection \<open>Step functions and their runs\<close>

text \<open>
  A deterministic machine is a step function; a run is its iteration over a list of events.
  The locale states the contract of an invariant once; components interpret it on their own
  step function and get the invariant of every run from it.
\<close>

fun run :: "('s \<Rightarrow> 'e \<Rightarrow> 's) \<Rightarrow> 's \<Rightarrow> 'e list \<Rightarrow> 's" where
  "run step s [] = s"
| "run step s (e # es) = run step (step s e) es"

lemma run_append: "run step s (es @ fs) = run step (run step s es) fs"
  by (induction es arbitrary: s) simp_all

locale stepper =
  fixes step :: "'s \<Rightarrow> 'e \<Rightarrow> 's"
    and inv :: "'s \<Rightarrow> bool"
  assumes inv_step: "inv s \<Longrightarrow> inv (step s e)"
begin

lemma inv_run: "inv s \<Longrightarrow> inv (run step s es)"
  by (induction es arbitrary: s) (simp_all add: inv_step)

lemma inv_prefix: "inv s \<Longrightarrow> inv (run step s (take n es))"
  by (rule inv_run)

end

text \<open>
  A simulation adds an abstraction and a specification of the step: the run of the concrete machine
  is then the run of the specification.
\<close>

locale simulation = stepper step inv
  for step :: "'s \<Rightarrow> 'e \<Rightarrow> 's" and inv :: "'s \<Rightarrow> bool" +
  fixes abs :: "'s \<Rightarrow> 'a"
    and spec :: "'a \<Rightarrow> 'e \<Rightarrow> 'a"
  assumes abs_step: "inv s \<Longrightarrow> abs (step s e) = spec (abs s) e"
begin

lemma abs_run: "inv s \<Longrightarrow> abs (run step s es) = run spec (abs s) es"
  by (induction es arbitrary: s) (simp_all add: inv_step abs_step)

end

subsection \<open>Sequential readers\<close>

text \<open>
  An object that is read one item at a time, as a client of \<^verbatim>\<open>read\<close> sees it: each call delivers the next
  item, or reports the end. The client's loop collects the items up to the end.
\<close>

fun drain :: "('s \<Rightarrow> ('a option \<times> 's) option) \<Rightarrow> nat \<Rightarrow> 's \<Rightarrow> ('a list \<times> 's) option" where
  "drain next_item 0 s = None"
| "drain next_item (Suc n) s = do {
     (r, s) \<leftarrow> next_item s;
     case r of None \<Rightarrow> Some ([], s)
     | Some x \<Rightarrow> do {
         (xs, s) \<leftarrow> drain next_item n s;
         Some (x # xs, s)
       }
   }"

locale cursor =
  fixes inv :: "'s \<Rightarrow> bool"
    and items :: "'s \<Rightarrow> 'a list"
    and next_item :: "'s \<Rightarrow> ('a option \<times> 's) option"
  assumes next_end: "inv s \<Longrightarrow> items s = [] \<Longrightarrow> \<exists>s'. next_item s = Some (None, s')"
    and next_some: "inv s \<Longrightarrow> items s = x # xs \<Longrightarrow> \<exists>s'. next_item s = Some (Some x, s') \<and> inv s' \<and> items s' = xs"
begin

lemma drain_items: "inv s \<Longrightarrow> length (items s) < n \<Longrightarrow> \<exists>s'. drain next_item n s = Some (items s, s')"
proof (induction n arbitrary: s)
  case (Suc n)
  show ?case
  proof (cases "items s")
    case Nil
    then show ?thesis using next_end [OF Suc.prems(1)] by auto
  next
    case (Cons x xs)
    from next_some [OF Suc.prems(1) this] obtain s' where
      s': "next_item s = Some (Some x, s')" "inv s'" "items s' = xs" by blast
    then show ?thesis using Suc.IH [of s'] Suc.prems(2) Cons by auto
  qed
qed simp

end

subsection \<open>Slot allocation\<close>

text \<open>
  A table of \<open>cap\<close> slots in which the lowest free one is taken: the contract of the process table. A client
  that keeps the number of slots in use below a limit gets indices below that limit.
\<close>

locale slots =
  fixes used :: "'s \<Rightarrow> nat set"
    and take_slot :: "'s \<Rightarrow> nat \<times> 's"
    and release :: "nat \<Rightarrow> 's \<Rightarrow> 's"
    and cap :: nat
  assumes used_cap: "used s \<subseteq> {..<cap}"
    and take_free: "used s \<noteq> {..<cap} \<Longrightarrow> fst (take_slot s) \<notin> used s"
    and take_least: "used s \<noteq> {..<cap} \<Longrightarrow> j < fst (take_slot s) \<Longrightarrow> j \<in> used s"
    and take_used: "used s \<noteq> {..<cap} \<Longrightarrow> used (snd (take_slot s)) = insert (fst (take_slot s)) (used s)"
    and release_used: "used (release k s) = used s - {k}"
begin

lemma finite_used: "finite (used s)"
  using used_cap by (rule finite_subset) simp

lemma not_full: "card (used s) < cap \<Longrightarrow> used s \<noteq> {..<cap}"
proof
  assume "card (used s) < cap" and "used s = {..<cap}"
  then have "card {..<cap} < cap" by (simp only:)
  then show False by simp
qed

lemma take_bound: "card (used s) < cap \<Longrightarrow> fst (take_slot s) \<le> card (used s)"
proof -
  assume "card (used s) < cap"
  then have "{..<fst (take_slot s)} \<subseteq> used s" using take_least [OF not_full] by blast
  from card_mono [OF finite_used this] show ?thesis by simp
qed

lemma take_card: "card (used s) < cap \<Longrightarrow> card (used (snd (take_slot s))) = Suc (card (used s))"
  by (subst take_used [OF not_full]) (simp_all add: card_insert_disjoint [OF finite_used take_free [OF not_full]])

lemma take_release: "card (used s) < cap \<Longrightarrow> used (release (fst (take_slot s)) (snd (take_slot s))) = used s"
  using take_used [OF not_full] take_free [OF not_full] by (simp add: release_used)

lemma release_card: "k \<in> used s \<Longrightarrow> card (used (release k s)) = card (used s) - 1"
  by (simp add: release_used)

end

end
