(* ===== verification/Clib.thy ===== *)
theory Clib
  imports Prelude
begin

text \<open>
  Memory and the memory and string routines of \<^verbatim>\<open>student-distrib/lib.c\<close>.

  A pointer is an object and an offset in it. \<open>Phys\<close> is the flat physical memory (video memory,
  page directory and page tables, the file system image, the pages of user programs), with the
  physical address as the offset; the arrays inside the kernel's own structures and the local
  arrays of a function are objects of their own, so that no two of them overlap. An object's first
  byte is taken to be 4-aligned; the theorems on the routines that test the alignment show that
  their results do not depend on it.

  Each routine is translated loop by loop and shown to be one write of a list of bytes,
  \<open>write_list\<close>. A routine that scans for a terminator that may be missing returns an option, with
  None when the loop does not end.
\<close>

subsection \<open>Objects, pointers and memory\<close>

datatype block =
    Phys
  | KeyBuf int
  | HistBuf int u32
  | PcbArg u32
  | PcbCmd u32
  | Local nat

type_synonym ptr = "block \<times> u32"
type_synonym memory = "ptr \<Rightarrow> u8"

text \<open>A pointer that is only read through during a call is the function that reads it.\<close>

type_synonym reader = "nat \<Rightarrow> u8"

definition padd :: "ptr \<Rightarrow> u32 \<Rightarrow> ptr" where
  "padd p i = (fst p, snd p + i)"

definition rdr :: "memory \<Rightarrow> ptr \<Rightarrow> reader" where
  "rdr m p i = m (padd p (of_nat i))"

definition lit :: "string \<Rightarrow> reader" where
  "lit s i = (if i < length s then of_char (s ! i) else 0)"

definition ld32 :: "memory \<Rightarrow> ptr \<Rightarrow> u32" where
  "ld32 m p = ucast (m p) OR push_bit 8 (ucast (m (padd p 1)))
     OR push_bit 16 (ucast (m (padd p 2))) OR push_bit 24 (ucast (m (padd p 3)))"

definition st32 :: "memory \<Rightarrow> ptr \<Rightarrow> u32 \<Rightarrow> memory" where
  "st32 m p v = m(p := ucast v, padd p 1 := ucast (drop_bit 8 v),
     padd p 2 := ucast (drop_bit 16 v), padd p 3 := ucast (drop_bit 24 v))"

definition st16 :: "memory \<Rightarrow> ptr \<Rightarrow> u16 \<Rightarrow> memory" where
  "st16 m p v = m(p := ucast v, padd p 1 := ucast (drop_bit 8 v))"

subsection \<open>Reading and writing lists of bytes\<close>

fun write_list :: "memory \<Rightarrow> ptr \<Rightarrow> u8 list \<Rightarrow> memory" where
  "write_list m p [] = m"
| "write_list m p (x # xs) = write_list (m(p := x)) (padd p 1) xs"

definition read_list :: "memory \<Rightarrow> ptr \<Rightarrow> nat \<Rightarrow> u8 list" where
  "read_list m p n = map (rdr m p) [0..<n]"

definition in_range :: "ptr \<Rightarrow> nat \<Rightarrow> ptr \<Rightarrow> bool" where
  "in_range p n q \<longleftrightarrow> fst q = fst p \<and> unat (snd q - snd p) < n"

text \<open>The bytes of a NUL-terminated string, without the terminator.\<close>

definition cstr :: "reader \<Rightarrow> u8 list \<Rightarrow> bool" where
  "cstr r bs \<longleftrightarrow> (\<forall>i < length bs. r i = bs ! i) \<and> 0 \<notin> set bs \<and> r (length bs) = 0"

subsection \<open>memset, memset_word, memset_dword\<close>

fun memset_bottom :: "memory \<Rightarrow> ptr \<Rightarrow> u8 \<Rightarrow> nat \<Rightarrow> memory" where
  "memset_bottom m edi al 0 = m"
| "memset_bottom m edi al (Suc edx) = memset_bottom (m(edi := al)) (padd edi 1) al edx"

fun rep_stosl :: "memory \<Rightarrow> ptr \<Rightarrow> u32 \<Rightarrow> nat \<Rightarrow> memory \<times> ptr" where
  "rep_stosl m edi eax 0 = (m, edi)"
| "rep_stosl m edi eax (Suc ecx) = rep_stosl (st32 m edi eax) (padd edi 4) eax ecx"

fun rep_stosw :: "memory \<Rightarrow> ptr \<Rightarrow> u16 \<Rightarrow> nat \<Rightarrow> memory \<times> ptr" where
  "rep_stosw m edi ax 0 = (m, edi)"
| "rep_stosw m edi ax (Suc ecx) = rep_stosw (st16 m edi ax) (padd edi 2) ax ecx"

fun memset_top :: "memory \<Rightarrow> ptr \<Rightarrow> u32 \<Rightarrow> nat \<Rightarrow> memory" where
  "memset_top m edi eax 0 = m"
| "memset_top m edi eax (Suc k) =
     (if snd edi AND 3 = 0
      then let ecx = Suc k; (m', edi') = rep_stosl m edi eax (ecx div 4)
           in memset_bottom m' edi' (ucast eax) (ecx mod 4)
      else memset_top (m(edi := ucast eax)) (padd edi 1) eax k)"

definition memset :: "memory \<Rightarrow> ptr \<Rightarrow> u32 \<Rightarrow> u32 \<Rightarrow> memory" where
  "memset m s c n =
     (let c = c AND 0xFF
      in memset_top m s (push_bit 24 c OR push_bit 16 c OR push_bit 8 c OR c) (unat n))"

definition memset_word :: "memory \<Rightarrow> ptr \<Rightarrow> u32 \<Rightarrow> u32 \<Rightarrow> memory" where
  "memset_word m s c n = fst (rep_stosw m s (ucast c) (unat n))"

definition memset_dword :: "memory \<Rightarrow> ptr \<Rightarrow> u32 \<Rightarrow> u32 \<Rightarrow> memory" where
  "memset_dword m s c n = fst (rep_stosl m s c (unat n))"

subsection \<open>memcpy, memmove\<close>

fun rep_movsl :: "memory \<Rightarrow> ptr \<Rightarrow> ptr \<Rightarrow> nat \<Rightarrow> memory \<times> ptr \<times> ptr" where
  "rep_movsl m edi esi 0 = (m, edi, esi)"
| "rep_movsl m edi esi (Suc ecx) = rep_movsl (st32 m edi (ld32 m esi)) (padd edi 4) (padd esi 4) ecx"

fun memcpy_bottom :: "memory \<Rightarrow> ptr \<Rightarrow> ptr \<Rightarrow> nat \<Rightarrow> memory" where
  "memcpy_bottom m edi esi 0 = m"
| "memcpy_bottom m edi esi (Suc edx) = memcpy_bottom (m(edi := m esi)) (padd edi 1) (padd esi 1) edx"

fun memcpy_top :: "memory \<Rightarrow> ptr \<Rightarrow> ptr \<Rightarrow> nat \<Rightarrow> memory" where
  "memcpy_top m edi esi 0 = m"
| "memcpy_top m edi esi (Suc k) =
     (if snd edi AND 3 = 0
      then let ecx = Suc k; (m', edi', esi') = rep_movsl m edi esi (ecx div 4)
           in memcpy_bottom m' edi' esi' (ecx mod 4)
      else memcpy_top (m(edi := m esi)) (padd edi 1) (padd esi 1) k)"

definition memcpy :: "memory \<Rightarrow> ptr \<Rightarrow> ptr \<Rightarrow> u32 \<Rightarrow> memory" where
  "memcpy m dest src n = memcpy_top m dest src (unat n)"

fun rep_movsb :: "bool \<Rightarrow> memory \<Rightarrow> ptr \<Rightarrow> ptr \<Rightarrow> nat \<Rightarrow> memory" where
  "rep_movsb df m edi esi 0 = m"
| "rep_movsb df m edi esi (Suc ecx) =
     (let d = (if df then -1 else 1) in rep_movsb df (m(edi := m esi)) (padd edi d) (padd esi d) ecx)"

text \<open>The result pairs the memory with the direction flag the routine leaves behind.\<close>

definition memmove :: "memory \<Rightarrow> ptr \<Rightarrow> ptr \<Rightarrow> u32 \<Rightarrow> memory \<times> bool" where
  "memmove m dest src n =
     (if snd dest \<le> snd src then (rep_movsb False m dest src (unat n), False)
      else (rep_movsb True m (padd dest (n - 1)) (padd src (n - 1)) (unat n), True))"

subsection \<open>String routines\<close>

partial_function (option) strlen_from :: "reader \<Rightarrow> nat \<Rightarrow> nat option" where
  "strlen_from s len = (if s len \<noteq> 0 then strlen_from s (Suc len) else Some len)"

definition strlen :: "reader \<Rightarrow> nat option" where
  "strlen s = strlen_from s 0"

function strrev_loop :: "memory \<Rightarrow> ptr \<Rightarrow> int \<Rightarrow> int \<Rightarrow> memory" where
  "strrev_loop m s beg fin =
     (if beg < fin
      then let tmp = m (padd s (of_int fin));
               m1 = m(padd s (of_int fin) := m (padd s (of_int beg)));
               m2 = m1(padd s (of_int beg) := tmp)
           in strrev_loop m2 s (beg + 1) (fin - 1)
      else m)"
  by pat_completeness auto
termination
  by (relation "measure (\<lambda>(m, s, beg, fin). nat (fin - beg))") auto

definition strrev :: "memory \<Rightarrow> ptr \<Rightarrow> memory option" where
  "strrev m s = do {
     len \<leftarrow> strlen (rdr m s);
     Some (strrev_loop m s 0 (sint (of_nat len - 1 :: u32)))
   }"

definition lookup_digits :: string where
  "lookup_digits = ''0123456789ABCDEFGHIJKLMNOPQRSTUVWXYZ''"

text \<open>
  The digit loop of \<^verbatim>\<open>itoa\<close>: a zero radix faults, a radix of one never ends, and a radix above 36
  reads past the table of digits; none of these returns.
\<close>

partial_function (option) itoa_loop :: "memory \<Rightarrow> ptr \<Rightarrow> nat \<Rightarrow> nat \<Rightarrow> (memory \<times> ptr) option" where
  "itoa_loop m newbuf newval radix =
     (if newval > 0
      then if radix = 0 \<or> newval mod radix \<ge> 36 then None
           else itoa_loop (m(newbuf := of_char (lookup_digits ! (newval mod radix))))
                  (padd newbuf 1) (newval div radix) radix
      else Some (m, newbuf))"

definition itoa :: "memory \<Rightarrow> u32 \<Rightarrow> ptr \<Rightarrow> u32 \<Rightarrow> memory option" where
  "itoa m value buf radix =
     (if value = 0 then Some (m(buf := of_char CHR ''0'', padd buf 1 := 0))
      else do {
        (m1, newbuf) \<leftarrow> itoa_loop m buf (unat value) (unat radix);
        strrev (m1(newbuf := 0)) buf
      })"

fun strncmp_from :: "reader \<Rightarrow> reader \<Rightarrow> nat \<Rightarrow> nat \<Rightarrow> int" where
  "strncmp_from s1 s2 i 0 = 0"
| "strncmp_from s1 s2 i (Suc k) =
     (if s1 i \<noteq> s2 i \<or> s1 i = 0 then sint (s1 i) - sint (s2 i)
      else strncmp_from s1 s2 (Suc i) k)"

definition strncmp :: "reader \<Rightarrow> reader \<Rightarrow> u32 \<Rightarrow> int" where
  "strncmp s1 s2 n = strncmp_from s1 s2 0 (unat n)"

partial_function (option) strcpy_from :: "memory \<Rightarrow> ptr \<Rightarrow> ptr \<Rightarrow> memory option" where
  "strcpy_from m dest src =
     (if m src \<noteq> 0 then strcpy_from (m(dest := m src)) (padd dest 1) (padd src 1)
      else Some (m(dest := 0)))"

definition strcpy :: "memory \<Rightarrow> ptr \<Rightarrow> ptr \<Rightarrow> memory option" where
  "strcpy m dest src = strcpy_from m dest src"

function strncpy_copy :: "memory \<Rightarrow> ptr \<Rightarrow> ptr \<Rightarrow> nat \<Rightarrow> nat \<Rightarrow> memory \<times> nat" where
  "strncpy_copy m dest src i n =
     (if m (padd src (of_nat i)) \<noteq> 0 \<and> i < n
      then strncpy_copy (m(padd dest (of_nat i) := m (padd src (of_nat i)))) dest src (Suc i) n
      else (m, i))"
  by pat_completeness auto
termination
  by (relation "measure (\<lambda>(m, dest, src, i, n). n - i)") auto

function strncpy_pad :: "memory \<Rightarrow> ptr \<Rightarrow> nat \<Rightarrow> nat \<Rightarrow> memory" where
  "strncpy_pad m dest i n =
     (if i < n then strncpy_pad (m(padd dest (of_nat i) := 0)) dest (Suc i) n else m)"
  by pat_completeness auto
termination
  by (relation "measure (\<lambda>(m, dest, i, n). n - i)") auto

definition strncpy :: "memory \<Rightarrow> ptr \<Rightarrow> ptr \<Rightarrow> u32 \<Rightarrow> memory" where
  "strncpy m dest src n =
     (let (m1, i) = strncpy_copy m dest src 0 (unat n) in strncpy_pad m1 dest i (unat n))"

declare strrev_loop.simps [simp del] strncpy_copy.simps [simp del] strncpy_pad.simps [simp del]


subsection \<open>Pointers and lists of bytes: basic laws\<close>

lemma padd_simps [simp]:
  "fst (padd p i) = fst p"
  "snd (padd p i) = snd p + i"
  "padd p 0 = p"
  "padd (padd p i) j = padd p (i + j)"
  "padd (b, a) i = (b, a + i)"
  by (simp_all add: padd_def add.assoc)

lemma padd_inject [simp]:
  "padd p i = padd p j \<longleftrightarrow> i = j"
  "padd p i = p \<longleftrightarrow> i = 0"
  "p = padd p i \<longleftrightarrow> i = 0"
  by (auto simp: padd_def prod_eq_iff)

lemma rdr_0 [simp]: "rdr m p 0 = m p"
  by (simp add: rdr_def)

lemma rdr_Suc: "rdr m p (Suc i) = rdr m (padd p 1) i"
  by (simp add: rdr_def add.commute)

lemma length_read_list [simp]: "length (read_list m p n) = n"
  by (simp add: read_list_def)

lemma nth_read_list [simp]: "i < n \<Longrightarrow> read_list m p n ! i = m (padd p (of_nat i))"
  by (simp add: read_list_def rdr_def)

lemma read_list_0 [simp]: "read_list m p 0 = []"
  by (simp add: read_list_def)

lemma read_list_Suc [mem_simps]: "read_list m p (Suc n) = m p # read_list m (padd p 1) n"
  by (rule nth_equalityI) (auto simp: nth_Cons add.commute split: nat.split)

lemma read_list_add: "read_list m p (a + b) = read_list m p a @ read_list m (padd p (of_nat a)) b"
  by (rule nth_equalityI) (auto simp: nth_append)

lemma take_read_list: "take k (read_list m p n) = read_list m p (min k n)"
  by (rule nth_equalityI) auto

lemma write_list_append [mem_simps]:
  "write_list m p (xs @ ys) = write_list (write_list m p xs) (padd p (of_nat (length xs))) ys"
  by (induction xs arbitrary: m p) (auto simp: add.commute)

lemma unat_pred_offset:
  "(q :: u32) \<noteq> p \<Longrightarrow> unat (q - p) = Suc (unat (q - (p + 1)))"
proof -
  assume "q \<noteq> p"
  then have "q - p \<noteq> 0" by simp
  then have "unat (q - p - 1) = unat (q - p) - 1" by (rule unat_minus_one)
  moreover have "0 < unat (q - p)" using \<open>q - p \<noteq> 0\<close> by (simp add: unat_gt_0)
  ultimately show ?thesis by (simp add: diff_diff_eq)
qed

lemma write_list_apply:
  "length xs \<le> 2 ^ 32 \<Longrightarrow>
   write_list m p xs q = (if in_range p (length xs) q then xs ! unat (snd q - snd p) else m q)"
proof (induction xs arbitrary: m p)
  case Nil
  then show ?case by (simp add: in_range_def)
next
  case (Cons x xs)
  then have IH: "write_list (m(p := x)) (padd p 1) xs q =
      (if in_range (padd p 1) (length xs) q then xs ! unat (snd q - (snd p + 1)) else (m(p := x)) q)"
    by simp
  show ?case
  proof (cases "q = p")
    case True
    have "unat (- 1 :: u32) = 2 ^ 32 - 1" by (simp add: unsigned_minus_1_eq_mask mask_eq_exp_minus_1)
    with True Cons.prems show ?thesis using IH by (auto simp: in_range_def)
  next
    case False
    then show ?thesis
      using IH unat_pred_offset [of "snd q" "snd p"]
      by (auto simp: in_range_def prod_eq_iff)
  qed
qed

lemma write_list_other: "\<not> in_range p (length xs) q \<Longrightarrow> write_list m p xs q = m q"
proof (induction xs arbitrary: m p)
  case (Cons x xs)
  from Cons.prems have "q \<noteq> p" by (auto simp: in_range_def)
  with Cons.prems have "\<not> in_range (padd p 1) (length xs) q"
    using unat_pred_offset [of "snd q" "snd p"] by (auto simp: in_range_def prod_eq_iff)
  with Cons.IH \<open>q \<noteq> p\<close> show ?case by simp
qed simp

lemma write_list_changed: "write_list m p xs q \<noteq> m q \<Longrightarrow> in_range p (length xs) q"
  using write_list_other by blast

lemma write_list_other_block: "fst q \<noteq> fst p \<Longrightarrow> write_list m p xs q = m q"
  by (rule write_list_other) (simp add: in_range_def)

lemma in_range_padd [simp]:
  "i < 2 ^ 32 \<Longrightarrow> in_range p n (padd p (of_nat i)) \<longleftrightarrow> i < n"
  by (simp add: in_range_def)

lemma write_list_padd:
  assumes "length xs \<le> 2 ^ 32" and "i < length xs"
  shows "write_list m p xs (padd p (of_nat i)) = xs ! i"
  using assms by (simp add: write_list_apply in_range_def)

lemma read_list_write_list:
  assumes "length xs \<le> 2 ^ 32" and "n \<le> length xs"
  shows "read_list (write_list m p xs) p n = take n xs"
  using assms by (intro nth_equalityI) (simp_all add: write_list_padd)

text \<open>Two ranges of bytes with no byte in common.\<close>

definition separate :: "ptr \<Rightarrow> nat \<Rightarrow> ptr \<Rightarrow> nat \<Rightarrow> bool" where
  "separate p n q k \<longleftrightarrow> (\<forall>j < k. \<not> in_range p n (padd q (of_nat j)))"

lemma separate_blocks: "fst p \<noteq> fst q \<Longrightarrow> separate p n q k"
  by (simp add: separate_def in_range_def)

lemma read_list_write_list_separate [mem_simps]:
  "separate p (length xs) q k \<Longrightarrow> read_list (write_list m p xs) q k = read_list m q k"
  by (intro nth_equalityI) (simp_all add: separate_def write_list_other)

lemma read_list_cong:
  "(\<And>i. i < n \<Longrightarrow> m (padd p (of_nat i)) = m' (padd p (of_nat i))) \<Longrightarrow> read_list m p n = read_list m' p n"
  by (intro nth_equalityI) simp_all

text \<open>Separation of two ranges of the same object, by plain comparison of their bounds.\<close>

lemma separate_le:
  assumes "unat (snd p) + n \<le> unat (snd q) \<or> unat (snd q) + k \<le> unat (snd p)"
    and "unat (snd q) + k \<le> 2 ^ 32" and "unat (snd p) + n \<le> 2 ^ 32"
  shows "separate p n q k"
  unfolding separate_def
proof (intro allI impI notI)
  fix j assume j: "j < k" and r: "in_range p n (padd q (of_nat j))"
  have uq: "unat (snd q + of_nat j) = unat (snd q) + j"
    using assms(2) j by (simp add: unat_word_ariths)
  from r have "unat (snd q + of_nat j - snd p) < n" by (simp add: in_range_def)
  then show False
    using assms j uq by (auto simp: unat_sub_if' split: if_splits)
qed

subsection \<open>Bytes of a 32-bit value\<close>

lemma st32_write_list:
  "st32 m p v = write_list m p [ucast v, ucast (drop_bit 8 v), ucast (drop_bit 16 v), ucast (drop_bit 24 v)]"
  by (simp add: st32_def)

lemma st16_write_list: "st16 m p v = write_list m p [ucast v, ucast (drop_bit 8 v)]"
  by (simp add: st16_def)

definition bytes32 :: "u32 \<Rightarrow> u8 list" where
  "bytes32 v = [ucast v, ucast (drop_bit 8 v), ucast (drop_bit 16 v), ucast (drop_bit 24 v)]"

definition bytes16 :: "u16 \<Rightarrow> u8 list" where
  "bytes16 v = [ucast v, ucast (drop_bit 8 v)]"

lemma length_bytes [simp]: "length (bytes32 v) = 4" "length (bytes16 w) = 2"
  by (simp_all add: bytes32_def bytes16_def)

lemma st_bytes: "st32 m p v = write_list m p (bytes32 v)" "st16 m p w = write_list m p (bytes16 w)"
  by (simp_all add: st32_write_list st16_write_list bytes32_def bytes16_def)

lemma bytes32_ld32: "bytes32 (ld32 m p) = read_list m p 4"
proof -
  have "ucast (ld32 m p) = m p"
    by (rule bit_word_eqI) (auto simp: ld32_def bit_simps)
  moreover have "ucast (drop_bit 8 (ld32 m p)) = m (padd p 1)"
    by (rule bit_word_eqI) (auto simp: ld32_def bit_simps dest: bit_imp_le_length)
  moreover have "ucast (drop_bit 16 (ld32 m p)) = m (padd p 2)"
    by (rule bit_word_eqI) (auto simp: ld32_def bit_simps dest: bit_imp_le_length)
  moreover have "ucast (drop_bit 24 (ld32 m p)) = m (padd p 3)"
    by (rule bit_word_eqI) (auto simp: ld32_def bit_simps dest: bit_imp_le_length)
  ultimately show ?thesis
    by (simp add: bytes32_def mem_simps numeral_eq_Suc)
qed

lemma word_of_bytes32:
  "(ucast (ucast v :: u8) OR push_bit 8 (ucast (ucast (drop_bit 8 v) :: u8))
     OR push_bit 16 (ucast (ucast (drop_bit 16 v) :: u8))
     OR push_bit 24 (ucast (ucast (drop_bit 24 v) :: u8)) :: u32) = v"
proof (rule bit_word_eqI)
  fix n assume n: "n < LENGTH(32)"
  then consider "n < 8" | "8 \<le> n" "n < 16" | "16 \<le> n" "n < 24" | "24 \<le> n" "n < 32"
    by (auto simp: not_less) (metis not_less)
  then show "bit (ucast (ucast v :: u8) OR push_bit 8 (ucast (ucast (drop_bit 8 v) :: u8))
     OR push_bit 16 (ucast (ucast (drop_bit 16 v) :: u8))
     OR push_bit 24 (ucast (ucast (drop_bit 24 v) :: u8)) :: u32) n = bit v n"
    using n by cases (auto simp: bit_simps)
qed

lemma ld32_st32_same [simp]: "ld32 (st32 m p v) p = v"
  by (simp add: ld32_def st32_def word_of_bytes32)

lemma ld32_cong: "read_list m p 4 = read_list m' p' 4 \<Longrightarrow> ld32 m p = ld32 m' p'"
  by (simp add: ld32_def mem_simps numeral_eq_Suc)

lemma ld32_write_list_separate [mem_simps]:
  "separate p (length xs) q 4 \<Longrightarrow> ld32 (write_list m p xs) q = ld32 m q"
  by (rule ld32_cong) (rule read_list_write_list_separate)

subsection \<open>memset fills a range\<close>

lemma memset_bottom_eq: "memset_bottom m p al n = write_list m p (replicate n al)"
  by (induction n arbitrary: m p) simp_all

lemma rep_stosl_eq:
  "rep_stosl m p v n = (write_list m p (concat (replicate n (bytes32 v))), padd p (of_nat (4 * n)))"
  by (induction n arbitrary: m p) (simp_all add: st_bytes mem_simps)

lemma rep_stosw_eq:
  "rep_stosw m p v n = (write_list m p (concat (replicate n (bytes16 v))), padd p (of_nat (2 * n)))"
  by (induction n arbitrary: m p) (simp_all add: st_bytes mem_simps)

lemma concat_replicate_replicate: "concat (replicate n (replicate k x)) = replicate (n * k) x"
  by (induction n) (simp_all add: replicate_add)

lemma length_concat_replicate: "length (concat (replicate n xs)) = n * length xs"
  by (induction n) simp_all

lemma memset_top_eq:
  assumes "bytes32 eax = replicate 4 (ucast eax)"
  shows "memset_top m p eax n = write_list m p (replicate n (ucast eax))"
proof (induction n arbitrary: m p)
  case (Suc k)
  let ?e = "ucast eax :: u8"
  let ?q = "Suc k div 4" and ?r = "Suc k mod 4"
  have "replicate (Suc k) ?e = replicate (?q * 4) ?e @ replicate ?r ?e"
    by (metis replicate_add div_mult_mod_eq)
  then have aligned: "write_list m p (replicate (Suc k) ?e) =
      memset_bottom (write_list m p (replicate (?q * 4) ?e)) (padd p (of_nat (4 * ?q))) ?e ?r"
    by (simp only: write_list_append memset_bottom_eq length_replicate mult.commute)
  have stosl: "rep_stosl m p eax ?q = (write_list m p (replicate (?q * 4) ?e), padd p (of_nat (4 * ?q)))"
    by (simp only: rep_stosl_eq assms concat_replicate_replicate)
  show ?case
  proof (cases "snd p AND 3 = 0")
    case True
    then show ?thesis by (simp only: memset_top.simps aligned stosl Let_def prod.case simp_thms if_True)
  next
    case False
    then show ?thesis
      by (simp only: memset_top.simps Suc.IH if_False replicate_Suc write_list.simps)
  qed
qed simp

lemma memset_eq: "memset m s c n = write_list m s (replicate (unat n) (ucast c))"
proof -
  let ?c = "c AND 0xFF"
  let ?e = "push_bit 24 ?c OR push_bit 16 ?c OR push_bit 8 ?c OR ?c :: u32"
  have mask: "(0xFF :: u32) = mask 8" by (simp add: mask_eq_exp_minus_1)
  have e: "ucast ?e = (ucast c :: u8)"
    by (rule bit_word_eqI) (auto simp: mask bit_simps)
  have "bytes32 ?e = [ucast c, ucast c, ucast c, ucast c]"
    unfolding bytes32_def mask by (auto intro!: bit_word_eqI simp: bit_simps)
  then have "bytes32 ?e = replicate 4 (ucast ?e)"
    unfolding e by (simp add: numeral_eq_Suc)
  then have "memset_top m s ?e (unat n) = write_list m s (replicate (unat n) (ucast c))"
    by (simp only: memset_top_eq e)
  then show ?thesis
    by (simp only: memset_def Let_def)
qed

lemma memset_word_eq:
  "memset_word m s c n = write_list m s (concat (replicate (unat n) (bytes16 (ucast c))))"
  by (simp add: memset_word_def rep_stosw_eq)

lemma memset_dword_eq:
  "memset_dword m s c n = write_list m s (concat (replicate (unat n) (bytes32 c)))"
  by (simp add: memset_dword_def rep_stosl_eq)

subsection \<open>memcpy and memmove copy a range\<close>

text \<open>
  A forward copy is safe when the destination does not start inside the bytes that are still to be
  read: other objects, the same pointer, or a destination at least \<open>n\<close> bytes past the source
  (modulo the address space, which covers every destination below the source).
\<close>

definition fwd_ok :: "ptr \<Rightarrow> ptr \<Rightarrow> nat \<Rightarrow> bool" where
  "fwd_ok d s n \<longleftrightarrow> fst d \<noteq> fst s \<or> d = s \<or> n \<le> unat (snd d - snd s)"

lemma fwd_ok_padd: "fwd_ok d s n \<Longrightarrow> k \<le> n \<Longrightarrow> fwd_ok (padd d i) (padd s i) k"
  by (auto simp: fwd_ok_def padd_def)

lemma copy_split:
  assumes ok: "fwd_ok d s n" and k: "k \<le> n" and n: "n < 2 ^ 32"
  shows "read_list (write_list m d (read_list m s k)) (padd s (of_nat k)) (n - k)
    = read_list m (padd s (of_nat k)) (n - k)"
proof (rule read_list_write_list_separate)
  show "separate d (length (read_list m s k)) (padd s (of_nat k)) (n - k)"
    unfolding separate_def
  proof (intro allI impI notI)
    fix j assume j: "j < n - k"
      and r: "in_range d (length (read_list m s k)) (padd (padd s (of_nat k)) (of_nat j))"
    have blk: "fst d = fst s" and lt: "unat (snd s + of_nat (k + j) - snd d) < k"
      using r by (simp_all add: in_range_def add.assoc)
    have eq: "snd s + of_nat (k + j) - snd d = of_nat (k + j) - (snd d - snd s)" by simp
    have kj: "unat (of_nat (k + j) :: u32) = k + j"
      by (rule unat_of_nat_u32) (use j n in linarith)
    have "snd d = snd s \<or> n \<le> unat (snd d - snd s)"
      using ok blk by (auto simp: fwd_ok_def)
    then show False
    proof
      assume "snd d = snd s"
      with lt eq kj show False by simp
    next
      assume "n \<le> unat (snd d - snd s)"
      with lt kj j k show False unfolding eq
        using unat_u32_bound [of "snd d - snd s"] by (auto simp: unat_sub_if' simp del: of_nat_add split: if_splits)
    qed
  qed
qed

lemma copy_compose:
  fixes m :: memory
  assumes "fwd_ok d s n" and "k \<le> n" and "n < 2 ^ 32"
  defines "m' \<equiv> write_list m d (read_list m s k)"
  shows "write_list m' (padd d (of_nat k)) (read_list m' (padd s (of_nat k)) (n - k))
    = write_list m d (read_list m s n)"
proof -
  have "read_list m s n = read_list m s k @ read_list m (padd s (of_nat k)) (n - k)"
    using assms(2) by (metis read_list_add le_add_diff_inverse)
  then show ?thesis
    unfolding m'_def using copy_split [OF assms(1-3)] by (simp add: mem_simps)
qed

lemma copy_one:
  assumes "fwd_ok d s (Suc n)" and "Suc n < 2 ^ 32"
  shows "write_list (m(d := m s)) (padd d 1) (read_list (m(d := m s)) (padd s 1) n)
    = write_list m d (read_list m s (Suc n))"
proof -
  have "read_list m s (Suc 0) = [m s]" by (simp add: read_list_Suc)
  then show ?thesis using copy_compose [OF assms(1) _ assms(2), of "Suc 0" m] by simp
qed

lemma memcpy_bottom_eq:
  "fwd_ok d s n \<Longrightarrow> n < 2 ^ 32 \<Longrightarrow> memcpy_bottom m d s n = write_list m d (read_list m s n)"
proof (induction n arbitrary: m d s)
  case (Suc n)
  have "memcpy_bottom m d s (Suc n) =
      write_list (m(d := m s)) (padd d 1) (read_list (m(d := m s)) (padd s 1) n)"
    using Suc by (simp add: fwd_ok_padd)
  also have "\<dots> = write_list m d (read_list m s (Suc n))"
    using Suc.prems by (rule copy_one)
  finally show ?case .
qed simp

lemma rep_movsl_eq:
  "fwd_ok d s (4 * n) \<Longrightarrow> 4 * n < 2 ^ 32 \<Longrightarrow>
   rep_movsl m d s n = (write_list m d (read_list m s (4 * n)), padd d (of_nat (4 * n)), padd s (of_nat (4 * n)))"
proof (induction n arbitrary: m d s)
  case (Suc n)
  let ?m = "write_list m d (read_list m s 4)"
  have "fwd_ok (padd d 4) (padd s 4) (4 * n)"
    by (rule fwd_ok_padd [OF Suc.prems(1)]) simp
  then have "rep_movsl m d s (Suc n) = (write_list ?m (padd d 4) (read_list ?m (padd s 4) (4 * n)),
      padd d (4 + of_nat (4 * n)), padd s (4 + of_nat (4 * n)))"
    using Suc.prems(2) by (simp add: st_bytes bytes32_ld32 Suc.IH)
  moreover have "write_list ?m (padd d 4) (read_list ?m (padd s 4) (4 * n)) =
      write_list m d (read_list m s (4 * Suc n))"
    using copy_compose [OF Suc.prems(1), of 4 m] Suc.prems(2) by (simp only: of_nat_numeral) simp
  ultimately show ?case by simp
qed simp

lemma memcpy_top_eq:
  "fwd_ok d s n \<Longrightarrow> n < 2 ^ 32 \<Longrightarrow> memcpy_top m d s n = write_list m d (read_list m s n)"
proof (induction n arbitrary: m d s)
  case (Suc k)
  show ?case
  proof (cases "snd d AND 3 = 0")
    case True
    let ?q = "4 * (Suc k div 4)" and ?r = "Suc k mod 4"
    have q: "?q \<le> Suc k" "Suc k - ?q = ?r" by (simp_all add: minus_mult_div_eq_mod)
    have movsl: "rep_movsl m d s (Suc k div 4) =
        (write_list m d (read_list m s ?q), padd d (of_nat ?q), padd s (of_nat ?q))"
      by (rule rep_movsl_eq) (use Suc.prems q in \<open>auto simp: fwd_ok_def\<close>)
    have "fwd_ok (padd d (of_nat ?q)) (padd s (of_nat ?q)) ?r"
      by (rule fwd_ok_padd [OF Suc.prems(1)]) simp
    moreover have "?r < 2 ^ 32" by (rule less_trans [of _ 4]) simp_all
    ultimately have "memcpy_bottom (write_list m d (read_list m s ?q)) (padd d (of_nat ?q)) (padd s (of_nat ?q)) ?r =
        write_list m d (read_list m s (Suc k))"
      using copy_compose [OF Suc.prems(1) q(1) Suc.prems(2), of m] q(2)
      by (simp only: memcpy_bottom_eq)
    with True movsl show ?thesis
      by (simp only: memcpy_top.simps Let_def prod.case simp_thms if_True)
  next
    case False
    then have "memcpy_top m d s (Suc k) =
        write_list (m(d := m s)) (padd d 1) (read_list (m(d := m s)) (padd s 1) k)"
      using Suc.prems by (simp add: fwd_ok_padd Suc.IH fun_upd_def)
    also have "\<dots> = write_list m d (read_list m s (Suc k))"
      using Suc.prems by (rule copy_one)
    finally show ?thesis .
  qed
qed simp

lemma memcpy_eq:
  "fwd_ok dest src (unat n) \<Longrightarrow> memcpy m dest src n = write_list m dest (read_list m src (unat n))"
  by (simp add: memcpy_def memcpy_top_eq)

subsection \<open>Copies stay within the object of their destination\<close>

lemma st32_other_block: "fst q \<noteq> fst p \<Longrightarrow> st32 m p v q = m q"
  by (simp add: st_bytes write_list_other_block)

lemma memcpy_bottom_other: "fst q \<noteq> fst d \<Longrightarrow> memcpy_bottom m d s n q = m q"
  by (induction n arbitrary: m d s) auto

lemma rep_movsl_other:
  "fst q \<noteq> fst d \<Longrightarrow> rep_movsl m d s n = (m', d', s') \<Longrightarrow> m' q = m q \<and> fst d' = fst d"
proof (induction n arbitrary: m d s)
  case (Suc n)
  show ?case using Suc.IH [of "padd d 4"] Suc.prems st32_other_block [of q d] by auto
qed simp

lemma memcpy_top_other: "fst q \<noteq> fst d \<Longrightarrow> memcpy_top m d s n q = m q"
proof (induction n arbitrary: m d s)
  case (Suc n)
  obtain m' d' s' where r: "rep_movsl m d s (Suc n div 4) = (m', d', s')" by (metis prod_cases3)
  have "memcpy_bottom m' d' s' (Suc n mod 4) q = m q"
    using rep_movsl_other [OF Suc.prems r] Suc.prems by (simp add: memcpy_bottom_other)
  then show ?case using Suc.IH [of "padd d 1"] Suc.prems r by (auto simp: Let_def)
qed simp

lemma memcpy_other_block: "fst q \<noteq> fst d \<Longrightarrow> memcpy m d s n q = m q"
  by (simp add: memcpy_def memcpy_top_other)

subsection \<open>memmove\<close>

lemma write_list_upd_commute:
  "\<not> in_range p (length xs) q \<Longrightarrow> (write_list m p xs)(q := v) = write_list (m(q := v)) p xs"
proof (induction xs arbitrary: m p)
  case (Cons x xs)
  from Cons.prems have "q \<noteq> p" by (auto simp: in_range_def)
  with Cons.prems have "\<not> in_range (padd p 1) (length xs) q"
    using unat_pred_offset [of "snd q" "snd p"] by (auto simp: in_range_def prod_eq_iff)
  then have "(write_list m p (x # xs))(q := v) = write_list (m(p := x, q := v)) (padd p 1) xs"
    using Cons.IH [of "padd p 1" "m(p := x)"] by (simp add: fun_upd_def)
  also have "m(p := x, q := v) = m(q := v, p := x)" using \<open>q \<noteq> p\<close> by (rule fun_upd_twist [symmetric])
  finally show ?case by (simp add: fun_upd_def)
qed simp

lemma rep_movsb_forward: "rep_movsb False m d s n = memcpy_bottom m d s n"
  by (induction n arbitrary: m d s) simp_all

lemma rep_movsb_backward:
  "fwd_ok s d n \<Longrightarrow> n < 2 ^ 32 \<Longrightarrow>
   rep_movsb True m (padd d (of_nat n - 1)) (padd s (of_nat n - 1)) n = write_list m d (read_list m s n)"
proof (induction n arbitrary: m)
  case (Suc n)
  let ?q = "padd d (of_nat n)" and ?v = "m (padd s (of_nat n))"
  have n: "n < 2 ^ 32" using Suc.prems(2) by simp
  have "?q \<noteq> padd s (of_nat j)" if "j < n" for j
  proof
    assume eq: "?q = padd s (of_nat j)"
    then have blk: "fst d = fst s" and "snd s - snd d = of_nat n - (of_nat j :: u32)"
      by (auto simp: padd_def algebra_simps)
    then have "unat (snd s - snd d) = n - j"
      using that n by (simp add: unat_sub_if')
    with Suc.prems(1) blk that show False by (auto simp: fwd_ok_def)
  qed
  then have rd: "read_list (m(?q := ?v)) s n = read_list m s n"
    by (intro read_list_cong) (metis fun_upd_other)
  have wr: "write_list (m(?q := ?v)) d (read_list m s n) = (write_list m d (read_list m s n))(?q := ?v)"
    by (rule write_list_upd_commute [symmetric]) (use n in simp)
  have "fwd_ok s d n" using Suc.prems(1) by (auto simp: fwd_ok_def)
  then have "rep_movsb True m (padd d (of_nat (Suc n) - 1)) (padd s (of_nat (Suc n) - 1)) (Suc n)
      = write_list (m(?q := ?v)) d (read_list (m(?q := ?v)) s n)"
    using n by (simp add: Let_def Suc.IH fun_upd_def)
  also have "\<dots> = write_list m d (read_list m s (Suc n))"
    using read_list_add [of m s n 1] by (simp add: rd wr mem_simps)
  finally show ?case .
qed simp

lemma memmove_eq:
  assumes "unat (snd dest) + unat n \<le> 2 ^ 32" and "unat (snd src) + unat n \<le> 2 ^ 32"
  shows "fst (memmove m dest src n) = write_list m dest (read_list m src (unat n))"
proof (cases "snd dest \<le> snd src")
  case True
  have "fwd_ok dest src (unat n)"
    using True assms by (auto simp: fwd_ok_def unat_sub_if' word_le_nat_alt prod_eq_iff word_unat_eq_iff)
  with True show ?thesis
    by (simp add: memmove_def rep_movsb_forward memcpy_bottom_eq)
next
  case False
  have "fwd_ok src dest (unat n)"
    using False assms by (auto simp: fwd_ok_def unat_sub_if' word_le_nat_alt)
  with False show ?thesis
    using rep_movsb_backward [of src dest "unat n" m] by (simp add: memmove_def)
qed

subsection \<open>String routines: their results\<close>

lemma strlen_from_upto:
  "i \<le> n \<Longrightarrow> r n = 0 \<Longrightarrow> \<forall>j. i \<le> j \<and> j < n \<longrightarrow> r j \<noteq> 0 \<Longrightarrow> strlen_from r i = Some n"
proof (induction "n - i" arbitrary: i)
  case 0
  then show ?case by (simp add: strlen_from.simps)
next
  case (Suc k)
  then have "r i \<noteq> 0" by auto
  moreover have "strlen_from r (Suc i) = Some n" by (rule Suc.hyps(1)) (use Suc in auto)
  ultimately show ?case by (simp add: strlen_from.simps [of r i])
qed

lemma strlen_from_zero:
  assumes "strlen_from r i = Some n"
  shows "r n = 0"
  by (rule strlen_from.raw_induct [where P = "\<lambda>r i n. r n = 0", OF _ assms])
     (auto split: if_splits)

text \<open>strlen returns exactly when there is a terminator, and then the index of the first one.\<close>

lemma strlen_Some_iff: "strlen r = Some n \<longleftrightarrow> r n = 0 \<and> (\<forall>j < n. r j \<noteq> 0)"
proof
  assume ret: "strlen r = Some n"
  then have z: "r n = 0" by (auto simp: strlen_def dest: strlen_from_zero)
  define k where "k = (LEAST j. r j = 0)"
  have "r k = 0" unfolding k_def using z by (rule LeastI)
  moreover have lt: "\<forall>j < k. r j \<noteq> 0" unfolding k_def using not_less_Least by blast
  ultimately have "strlen r = Some k" unfolding strlen_def by (intro strlen_from_upto) auto
  with ret z lt show "r n = 0 \<and> (\<forall>j < n. r j \<noteq> 0)" by simp
next
  assume "r n = 0 \<and> (\<forall>j < n. r j \<noteq> 0)"
  then show "strlen r = Some n" unfolding strlen_def by (intro strlen_from_upto) auto
qed

lemma strlen_None_iff: "strlen r = None \<longleftrightarrow> (\<forall>j. r j \<noteq> 0)"
proof
  show "\<forall>j. r j \<noteq> 0" if "strlen r = None"
  proof (rule ccontr)
    assume "\<not> (\<forall>j. r j \<noteq> 0)"
    then obtain j where "r j = 0" by blast
    then have "strlen r = Some (LEAST j. r j = 0)"
      by (auto simp: strlen_Some_iff intro: LeastI dest: not_less_Least)
    with that show False by simp
  qed
  show "strlen r = None" if "\<forall>j. r j \<noteq> 0"
    using that by (cases "strlen r") (auto simp: strlen_Some_iff)
qed

lemma cstr_strlen: "cstr r bs \<Longrightarrow> strlen r = Some (length bs)"
  by (auto simp: cstr_def strlen_Some_iff dest: nth_mem)

lemma cstr_ex: "strlen r = Some n \<Longrightarrow> cstr r (map r [0..<n])"
  by (auto simp: cstr_def strlen_Some_iff)

lemma strrev_loop_eq:
  "i + n < 2 ^ 32 \<Longrightarrow> strrev_loop m s (int i) (int i + int n - 1) =
     write_list m (padd s (of_nat i)) (rev (read_list m (padd s (of_nat i)) n))"
proof (induction n arbitrary: m i rule: induct_nat_012)
  case 0
  then show ?case by (simp add: strrev_loop.simps)
next
  case 1
  then show ?case by (simp add: strrev_loop.simps read_list_Suc)
next
  case (ge2 n)
  define p where "p = padd s (of_nat i)"
  define q where "q = padd s (of_nat (i + n + 1))"
  define mid where "mid = read_list m (padd p 1) n"
  define m2 where "m2 = m(q := m p, p := m q)"
  have pq: "q = padd (padd p 1) (of_nat n)" by (simp add: p_def q_def algebra_simps)
  have sep: "padd (padd p 1) (of_nat j) \<noteq> p \<and> (j < n \<longrightarrow> padd (padd p 1) (of_nat j) \<noteq> q)" if "j \<le> n" for j
  proof -
    have "(1 + of_nat j :: u32) = of_nat (Suc j)" by simp
    moreover have "unat (of_nat (Suc j) :: u32) = Suc j"
      by (rule unat_of_nat_u32) (use that ge2.prems in simp)
    ultimately have "(1 + of_nat j :: u32) \<noteq> 0" by (metis unat_0 nat.distinct(1))
    moreover have "j < n \<Longrightarrow> (of_nat j :: u32) \<noteq> of_nat n"
      using ge2.prems by (subst of_nat_u32_inj) auto
    ultimately show ?thesis unfolding pq by (simp del: of_nat_Suc)
  qed
  have mid2: "read_list m2 (padd p 1) n = mid"
    unfolding mid_def m2_def by (rule read_list_cong) (use sep in auto)
  have split: "read_list m p (Suc (Suc n)) = m p # mid @ [m q]"
    using read_list_add [of m "padd p 1" n 1] by (simp add: read_list_Suc mid_def pq)
  have "strrev_loop m s (int i) (int i + int (Suc (Suc n)) - 1) =
      strrev_loop m2 s (int (Suc i)) (int (Suc i) + int n - 1)"
    by (subst strrev_loop.simps) (simp add: m2_def p_def q_def Let_def algebra_simps fun_upd_def)
  also have "\<dots> = write_list m2 (padd p 1) (rev mid)"
  proof -
    have "padd s (of_nat (Suc i)) = padd p 1" by (simp add: p_def add.commute)
    then show ?thesis using ge2.IH(1) [of "Suc i" m2] ge2.prems by (simp only: mid2)
  qed
  also have "\<dots> = write_list m p (rev (m p # mid @ [m q]))"
  proof -
    have "n < 2 ^ 32" using ge2.prems by simp
    then have "\<not> in_range (padd p 1) (length (rev mid)) q"
      unfolding pq by (subst in_range_padd) (simp_all add: mid_def)
    moreover have "m2 = m(p := m q, q := m p)"
      using sep [of n] unfolding m2_def pq by (intro fun_upd_twist) auto
    ultimately have "write_list m2 (padd p 1) (rev mid) = (write_list (m(p := m q)) (padd p 1) (rev mid))(q := m p)"
      by (simp add: write_list_upd_commute)
    then show ?thesis by (simp add: mem_simps mid_def pq)
  qed
  finally show ?case by (simp only: split p_def [symmetric])
qed

lemma strrev_eq:
  assumes "cstr (rdr m s) bs" and "length bs < 2 ^ 31"
  shows "strrev m s = Some (write_list m s (rev bs))"
proof -
  have bs: "read_list m s (length bs) = bs"
    using assms(1) by (intro nth_equalityI) (auto simp: cstr_def rdr_def)
  have "sint (of_nat (length bs) - 1 :: u32) = int (length bs) - 1"
  proof (cases "length bs")
    case (Suc k)
    then have "of_nat (length bs) - 1 = (of_nat k :: u32)" by simp
    moreover have "sint (of_nat k :: u32) = int k"
      using Suc assms(2) by (simp add: signed_of_nat signed_take_bit_int_eq_self_iff)
    ultimately show ?thesis using Suc by simp
  qed simp
  then show ?thesis
    using strrev_loop_eq [of 0 "length bs" m s] assms
    by (simp add: strrev_def cstr_strlen bs)
qed

subsection \<open>itoa prints the digits of its argument\<close>

text \<open>Reference: the digits of a number, most significant first, and their value.\<close>

function digits :: "nat \<Rightarrow> nat \<Rightarrow> nat list" where
  "digits b n = (if n = 0 \<or> b < 2 then [] else digits b (n div b) @ [n mod b])"
  by pat_completeness auto
termination
  by (relation "measure snd") (simp_all add: div_less_dividend)

declare digits.simps [simp del]

definition digits_value :: "nat \<Rightarrow> nat list \<Rightarrow> nat" where
  "digits_value b ds = foldl (\<lambda>a d. a * b + d) 0 ds"

definition digit_char :: "nat \<Rightarrow> u8" where
  "digit_char d = of_char (lookup_digits ! d)"

definition itoa_str :: "u32 \<Rightarrow> nat \<Rightarrow> u8 list" where
  "itoa_str v b = (if v = 0 then [of_char CHR ''0''] else map digit_char (digits b (unat v)))"

lemma digits_0 [simp]: "digits b 0 = []"
  by (simp add: digits.simps)

lemma digits_step: "2 \<le> b \<Longrightarrow> 0 < n \<Longrightarrow> digits b n = digits b (n div b) @ [n mod b]"
  by (subst digits.simps) simp

lemma digits_induct [consumes 1, case_names zero step]:
  assumes "2 \<le> b" and "P 0" and "\<And>n. 0 < n \<Longrightarrow> P (n div b) \<Longrightarrow> P n"
  shows "P (n :: nat)"
proof (induction n rule: less_induct)
  case (less n)
  show ?case
  proof (cases "n = 0")
    case False
    then have "n div b < n" using assms(1) by simp
    then have "P (n div b)" by (rule less)
    with False show ?thesis by (simp add: assms(3))
  qed (simp add: assms(2))
qed

lemma digits_value_digits:
  assumes b: "2 \<le> b"
  shows "digits_value b (digits b n) = n"
  using b
proof (induction n rule: digits_induct)
  case (step n)
  then show ?case using digits_step [OF b, of n] by (simp add: digits_value_def)
qed (simp add: digits_value_def)

lemma digits_less:
  assumes b: "2 \<le> b"
  shows "\<forall>d \<in> set (digits b n). d < b"
  using b
proof (induction n rule: digits_induct)
  case (step n)
  then show ?case using b digits_step [OF b, of n] by auto
qed simp

lemma length_digits: "2 \<le> b \<Longrightarrow> n < 2 ^ k \<Longrightarrow> length (digits b n) \<le> k"
proof (induction k arbitrary: n)
  case (Suc k)
  show ?case
  proof (cases "n = 0")
    case False
    have "n div b \<le> n div 2" using Suc.prems(1) by (simp add: div_le_mono2)
    also have "n div 2 < 2 ^ k" using Suc.prems(2) by (simp add: less_mult_imp_div_less mult.commute)
    finally have "length (digits b (n div b)) \<le> k" by (rule Suc.IH [OF Suc.prems(1)])
    with False digits_step [OF Suc.prems(1), of n] show ?thesis by simp
  qed simp
qed simp

lemma length_digits_u32: "2 \<le> b \<Longrightarrow> length (digits b (unat (v :: u32))) \<le> 32"
  by (rule length_digits) simp_all

lemma digit_char_nonzero: "d < 36 \<Longrightarrow> digit_char d \<noteq> 0"
proof -
  assume "d < 36"
  then have "d \<in> set [0..<36]" by simp
  moreover have "\<forall>d \<in> set [0..<36]. digit_char d \<noteq> 0"
    by (simp add: upt_rec digit_char_def lookup_digits_def)
  ultimately show ?thesis by blast
qed

lemma itoa_loop_eq:
  assumes b: "2 \<le> b" "b \<le> 36"
  shows "itoa_loop m p n b = Some (write_list m p (map digit_char (rev (digits b n))),
    padd p (of_nat (length (digits b n))))"
  using b(1)
proof (induction n arbitrary: m p rule: digits_induct)
  case (step n)
  have "n mod b < 36" using b by (intro less_le_trans [of "n mod b" b 36]) simp_all
  with step b digits_step [OF b(1), of n] show ?case
    by (subst itoa_loop.simps) (simp add: digit_char_def [symmetric] fun_upd_def add.commute)
qed (use b in \<open>simp_all add: itoa_loop.simps\<close>)

lemma write_list_overwrite:
  assumes "length xs \<le> length ys" and "length ys \<le> 2 ^ 32"
  shows "write_list (write_list m p xs) p ys = write_list m p ys"
  using assms by (intro ext) (auto simp: write_list_apply in_range_def)

lemma cstr_write_list:
  assumes "0 \<notin> set xs" and "length xs < 2 ^ 32"
  shows "cstr (rdr (write_list m p (xs @ [0])) p) xs"
proof -
  have "rdr (write_list m p (xs @ [0])) p i = (xs @ [0]) ! i" if "i \<le> length xs" for i
    unfolding rdr_def by (rule write_list_padd) (use that assms(2) in auto)
  then show ?thesis using assms(1) by (auto simp: cstr_def nth_append)
qed

lemma itoa_eq:
  assumes b: "2 \<le> unat radix" "unat radix \<le> 36"
  shows "itoa m value buf radix = Some (write_list m buf (itoa_str value (unat radix) @ [0]))"
proof (cases "value = 0")
  case False
  let ?ds = "digits (unat radix) (unat value)"
  let ?xs = "map digit_char (rev ?ds)"
  let ?m = "write_list m buf (?xs @ [0])"
  have len: "length ?ds \<le> 32" using b(1) by (rule length_digits_u32)
  have nz: "0 \<notin> set ?xs"
  proof
    assume "0 \<in> set ?xs"
    then obtain d where "d \<in> set ?ds" and "digit_char d = 0" by auto
    moreover have "d < 36" using calculation(1) digits_less [OF b(1)] b(2) by fastforce
    ultimately show False using digit_char_nonzero by blast
  qed
  have "cstr (rdr ?m buf) ?xs"
    using nz len by (intro cstr_write_list) simp_all
  then have "strrev ?m buf = Some (write_list ?m buf (rev ?xs))"
    using len by (intro strrev_eq) simp_all
  also have "write_list ?m buf (rev ?xs) = write_list ?m buf (rev ?xs @ [0])"
  proof -
    have "write_list ?m buf (rev ?xs) (padd buf (of_nat (length ?xs))) = 0"
      using len \<open>cstr (rdr ?m buf) ?xs\<close> by (simp add: write_list_other cstr_def rdr_def)
    then show ?thesis by (simp add: write_list_append) (metis fun_upd_triv)
  qed
  also have "\<dots> = write_list m buf (rev ?xs @ [0])"
    using len by (intro write_list_overwrite) simp_all
  finally show ?thesis
    using False by (simp add: itoa_def itoa_loop_eq [OF b] itoa_str_def write_list_append rev_map fun_upd_def)
qed (simp add: itoa_def itoa_str_def)

subsection \<open>strncmp, strcpy and strncpy\<close>

lemma strncmp_from_0_iff:
  "strncmp_from r1 r2 i k = 0 \<longleftrightarrow>
     (\<forall>j < k. (\<forall>l < j. r1 (i + l) \<noteq> 0) \<longrightarrow> r1 (i + j) = r2 (i + j))"
proof (induction k arbitrary: i)
  case (Suc k)
  have "(\<forall>j < Suc k. (\<forall>l < j. r1 (i + l) \<noteq> 0) \<longrightarrow> r1 (i + j) = r2 (i + j)) \<longleftrightarrow>
      r1 i = r2 i \<and> (r1 i \<noteq> 0 \<longrightarrow>
        (\<forall>j < k. (\<forall>l < j. r1 (Suc i + l) \<noteq> 0) \<longrightarrow> r1 (Suc i + j) = r2 (Suc i + j)))"
    unfolding All_less_Suc2 by simp blast
  moreover have "strncmp_from r1 r2 i (Suc k) = 0 \<longleftrightarrow> r1 i = r2 i \<and> (r1 i \<noteq> 0 \<longrightarrow> strncmp_from r1 r2 (Suc i) k = 0)"
    by (auto intro: signed_word_eqI)
  ultimately show ?case by (simp only: Suc.IH)
qed simp

lemma cstr_all_less:
  "cstr r bs \<Longrightarrow> (\<forall>l < j. r l \<noteq> 0) \<longleftrightarrow> j \<le> length bs"
  by (auto simp: cstr_def) (metis not_le, metis less_le_trans nth_mem)

text \<open>On strings, strncmp gives zero exactly when their first \<open>n\<close> bytes agree.\<close>

lemma strncmp_0_iff:
  assumes a: "cstr r1 a" and b: "cstr r2 b"
  shows "strncmp r1 r2 n = 0 \<longleftrightarrow> take (unat n) a = take (unat n) b"
proof -
  let ?n = "unat n"
  have byte: "r1 j = (if j < length a then a ! j else 0)" "r2 j = (if j < length b then b ! j else 0)"
    if "j \<le> length a" "j \<le> length b" for j
    using that a b by (auto simp: cstr_def)
  have "strncmp r1 r2 n = 0 \<longleftrightarrow> (\<forall>j < ?n. j \<le> length a \<longrightarrow> r1 j = r2 j)"
    using a by (simp add: strncmp_def strncmp_from_0_iff cstr_all_less)
  also have "\<dots> \<longleftrightarrow> take ?n a = take ?n b"
  proof
    assume eq: "\<forall>j < ?n. j \<le> length a \<longrightarrow> r1 j = r2 j"
    have agree: "j < length b \<and> a ! j = b ! j" if "j < ?n" "j < length a" for j
      using that
    proof (induction j rule: less_induct)
      case (less j)
      have "j \<le> length b" using less.IH [of "j - 1"] less.prems by (cases j) (auto simp: Suc_le_eq)
      moreover have "a ! j \<noteq> 0" using a less.prems by (auto simp: cstr_def dest: nth_mem)
      ultimately show ?case using eq less.prems byte [of j] by (auto split: if_splits)
    qed
    have "length (take ?n b) = length (take ?n a)"
    proof (cases "?n \<le> length a")
      case True
      then show ?thesis using agree [of "?n - 1"] by (cases ?n) auto
    next
      case False
      have le: "length a \<le> length b" using agree [of "length a - 1"] False by (cases "length a") auto
      then have "r2 (length a) = 0" using eq False byte [of "length a"] a by (auto simp: cstr_def)
      then have "length b \<le> length a" using b unfolding cstr_def by (metis leI nth_mem)
      with le show ?thesis by simp
    qed
    then show "take ?n a = take ?n b" using agree by (intro nth_equalityI) auto
  next
    assume eq: "take ?n a = take ?n b"
    show "\<forall>j < ?n. j \<le> length a \<longrightarrow> r1 j = r2 j"
    proof (intro allI impI)
      fix j assume j: "j < ?n" "j \<le> length a"
      have len: "min (length a) ?n = min (length b) ?n" using eq by (metis length_take)
      have "j \<le> length b" using len j by linarith
      moreover have "j < length a \<longleftrightarrow> j < length b" using len j by linarith
      moreover have "j < length a \<Longrightarrow> a ! j = b ! j" using eq j by (metis nth_take)
      ultimately show "r1 j = r2 j" using byte [of j] j by simp
    qed
  qed
  finally show ?thesis .
qed

lemma strcpy_from_eq:
  "cstr (rdr m s) bs \<Longrightarrow> length bs < 2 ^ 32 \<Longrightarrow> fwd_ok d s (Suc (length bs)) \<Longrightarrow>
   Suc (length bs) < 2 ^ 32 \<Longrightarrow> strcpy_from m d s = Some (write_list m d (bs @ [0]))"
proof (induction bs arbitrary: m d s)
  case Nil
  then show ?case by (simp add: cstr_def strcpy_from.simps fun_upd_def)
next
  case (Cons x xs)
  have x: "m s = x" "x \<noteq> 0" using Cons.prems(1) by (auto simp: cstr_def dest: spec [of _ 0])
  have tail: "rdr m (padd s 1) i = (xs @ [0]) ! i" if "i \<le> length xs" for i
    using Cons.prems(1) that by (cases "i = length xs") (auto simp: cstr_def rdr_Suc nth_append dest!: spec [of _ "Suc i"])
  have "rdr (m(d := x)) (padd s 1) i = rdr m (padd s 1) i" if "i \<le> length xs" for i
    using copy_split [OF Cons.prems(3), of 1 m] Cons.prems(4) that
      nth_read_list [of i "Suc (length xs)" "m(d := x)" "padd s 1"]
      nth_read_list [of i "Suc (length xs)" m "padd s 1"]
    by (simp add: rdr_def x read_list_Suc [of m s 0] del: nth_read_list)
  then have "cstr (rdr (m(d := x)) (padd s 1)) xs"
    using tail Cons.prems(1) by (auto simp: cstr_def nth_append)
  then have "strcpy_from (m(d := x)) (padd d 1) (padd s 1) = Some (write_list (m(d := x)) (padd d 1) (xs @ [0]))"
    by (rule Cons.IH) (use Cons.prems fwd_ok_padd [OF Cons.prems(3), of "Suc (length xs)" 1] in simp_all)
  then show ?case by (subst strcpy_from.simps) (simp add: x fun_upd_def)
qed

lemma strcpy_eq:
  "cstr (rdr m s) bs \<Longrightarrow> Suc (length bs) < 2 ^ 32 \<Longrightarrow> fwd_ok d s (Suc (length bs)) \<Longrightarrow>
   strcpy m d s = Some (write_list m d (bs @ [0]))"
  by (simp add: strcpy_def strcpy_from_eq)
lemma strncpy_pad_eq:
  "i \<le> n \<Longrightarrow> strncpy_pad m d i n = write_list m (padd d (of_nat i)) (replicate (n - i) 0)"
proof (induction m d i n rule: strncpy_pad.induct)
  case (1 m d i n)
  show ?case
  proof (cases "i < n")
    case True
    then have "n - i = Suc (n - Suc i)" by simp
    with 1 True show ?thesis
      by (simp add: strncpy_pad.simps [of m d i n] add.commute fun_upd_def)
  qed (simp add: strncpy_pad.simps [of m d i n])
qed

lemma read_list_upd_separate:
  assumes "separate d n s k" and "in_range d n q" and "i + j \<le> k"
  shows "read_list (m(q := v)) (padd s (of_nat i)) j = read_list m (padd s (of_nat i)) j"
proof (rule read_list_cong)
  fix l assume "l < j"
  then have "i + l < k" using assms(3) by simp
  then have "padd s (of_nat (i + l)) \<noteq> q" using assms(1,2) by (auto simp: separate_def)
  then show "(m(q := v)) (padd (padd s (of_nat i)) (of_nat l)) = m (padd (padd s (of_nat i)) (of_nat l))"
    by simp
qed

text \<open>The bytes of a fixed-size name field: up to the first NUL, or the whole field.\<close>

definition field_str :: "u8 list \<Rightarrow> u8 list" where
  "field_str bs = takeWhile (\<lambda>x. x \<noteq> 0) bs"

definition pad0 :: "nat \<Rightarrow> u8 list \<Rightarrow> u8 list" where
  "pad0 n bs = bs @ replicate (n - length bs) 0"

lemma length_field_str: "length (field_str bs) \<le> length bs"
  by (simp add: field_str_def length_takeWhile_le)

lemma strncpy_copy_eq:
  "separate d n s n \<Longrightarrow> i \<le> n \<Longrightarrow> n < 2 ^ 32 \<Longrightarrow>
   strncpy_copy m d s i n =
     (write_list m (padd d (of_nat i)) (field_str (read_list m (padd s (of_nat i)) (n - i))),
      i + length (field_str (read_list m (padd s (of_nat i)) (n - i))))"
proof (induction m d s i n rule: strncpy_copy.induct)
  case (1 m d s i n)
  let ?x = "m (padd s (of_nat i))"
  show ?case
  proof (cases "?x \<noteq> 0 \<and> i < n")
    case True
    let ?m = "m(padd d (of_nat i) := ?x)"
    have "in_range d n (padd d (of_nat i))" using True \<open>n < 2 ^ 32\<close> by simp
    then have "read_list ?m (padd s (of_nat (Suc i))) (n - Suc i) = read_list m (padd s (of_nat (Suc i))) (n - Suc i)"
      by (rule read_list_upd_separate [OF \<open>separate d n s n\<close>]) (use True in simp)
    moreover have "n - i = Suc (n - Suc i)" using True by (simp add: Suc_diff_Suc)
    ultimately show ?thesis
      using 1 True
      by (simp add: strncpy_copy.simps [of m d s i n] field_str_def read_list_Suc add.commute fun_upd_def)
  next
    case False
    then have "field_str (read_list m (padd s (of_nat i)) (n - i)) = []"
      by (cases "n - i") (auto simp: field_str_def read_list_Suc)
    with False show ?thesis by (subst strncpy_copy.simps) auto
  qed
qed

text \<open>strncpy copies up to the first NUL and pads with NULs: it always writes exactly \<open>n\<close> bytes.\<close>

lemma strncpy_eq:
  assumes "separate d (unat n) s (unat n)"
  shows "strncpy m d s n = write_list m d (pad0 (unat n) (field_str (read_list m s (unat n))))"
proof -
  have "length (field_str (read_list m s (unat n))) \<le> unat n"
    using length_field_str [of "read_list m s (unat n)"] by simp
  then show ?thesis
    using strncpy_copy_eq [OF assms, of 0 m]
    by (simp add: strncpy_def strncpy_pad_eq pad0_def mem_simps)
qed

subsection \<open>Properties\<close>

text \<open>
  memcpy. When the destination does not start inside the source bytes still to be read, the
  aligned word-by-word copy moves exactly \<open>n\<close> bytes: the destination holds what the source held
  before the call, and no other byte of memory changes.
\<close>

theorem memcpy_correct:
  assumes "fwd_ok dest src (unat n)"
  shows "read_list (memcpy m dest src n) dest (unat n) = read_list m src (unat n)
    \<and> (\<forall>q. in_range dest (unat n) q \<or> memcpy m dest src n q = m q)"
proof -
  have "unat n \<le> 2 ^ 32" by simp
  with assms show ?thesis
    by (auto simp: memcpy_eq read_list_write_list dest!: write_list_changed)
qed

theorem memcpy_correct_witness:
  "fwd_ok (Phys, 0xB8000) (Phys, 0xB80A0) (unat (4000 :: u32)) \<and>
   read_list (memcpy (\<lambda>p. ucast (snd p)) (Phys, 0xB8000) (Phys, 0xB80A0) 4000) (Phys, 0xB8000) 4000
     = read_list (\<lambda>p. ucast (snd p)) (Phys, 0xB80A0) 4000"
proof -
  have ok: "fwd_ok (Phys, 0xB8000) (Phys, 0xB80A0) (unat (4000 :: u32))"
    by (simp add: fwd_ok_def)
  show ?thesis using ok memcpy_correct [OF ok, of "\<lambda>p. ucast (snd p)"] by simp
qed

text \<open>
  memmove. For any two ranges that do not run past the end of the address space, overlapping or
  not, the destination holds what the source held before the call and no other byte changes. The
  routine leaves the direction flag set exactly when it copied backwards.
\<close>

theorem memmove_correct:
  assumes "unat (snd dest) + unat n \<le> 2 ^ 32" and "unat (snd src) + unat n \<le> 2 ^ 32"
  shows "read_list (fst (memmove m dest src n)) dest (unat n) = read_list m src (unat n)
    \<and> (\<forall>q. in_range dest (unat n) q \<or> fst (memmove m dest src n) q = m q)
    \<and> snd (memmove m dest src n) = (snd src < snd dest)"
proof -
  have "unat n \<le> 2 ^ 32" by simp
  with assms show ?thesis
    by (auto simp: memmove_eq read_list_write_list dest!: write_list_changed) (auto simp: memmove_def split: if_splits)
qed

theorem memmove_correct_witness:
  "read_list (fst (memmove (\<lambda>p. ucast (snd p)) (Phys, 101) (Phys, 100) 8)) (Phys, 101) 8
     = read_list (\<lambda>p. ucast (snd p)) (Phys, 100) 8
   \<and> snd (memmove (\<lambda>p. ucast (snd p)) (Phys, 101) (Phys, 100) 8)"
  using memmove_correct [of "(Phys, 101)" 8 "(Phys, 100)" "\<lambda>p. ucast (snd p)"] by simp

text \<open>The number a string of digits denotes, digit by digit from the table itoa prints from.\<close>

definition digit_of :: "u8 \<Rightarrow> nat" where
  "digit_of c = length (takeWhile (\<lambda>x. of_char x \<noteq> c) lookup_digits)"

lemma digit_of_digit_char: "d < 36 \<Longrightarrow> digit_of (digit_char d) = d"
proof -
  assume "d < 36"
  then have "d \<in> set [0..<36]" by simp
  moreover have "\<forall>d \<in> set [0..<36]. digit_of (digit_char d) = d"
    by (simp add: upt_rec digit_char_def digit_of_def lookup_digits_def)
  ultimately show ?thesis by blast
qed

text \<open>
  C37: itoa prints and reads back. For every value and every radix from 2 to 36, itoa returns, the
  buffer holds a NUL-terminated string, and the value of that string's digits in the radix is the
  value given; only the bytes of the string and its terminator change.
\<close>

theorem itoa_roundtrip:
  assumes "2 \<le> unat radix" and "unat radix \<le> 36"
  shows "\<exists>m' cs. itoa m value buf radix = Some m' \<and> cstr (rdr m' buf) cs
    \<and> digits_value (unat radix) (map digit_of cs) = unat value
    \<and> 0 < length cs \<and> length cs \<le> 32
    \<and> (\<forall>q. in_range buf (Suc (length cs)) q \<or> m' q = m q)"
proof -
  let ?b = "unat radix" and ?cs = "itoa_str value (unat radix)"
  let ?m = "write_list m buf (?cs @ [0])"
  have dl: "d < 36" if "d \<in> set (digits ?b (unat value))" for d
    using that digits_less [OF assms(1), of "unat value"] assms(2) by fastforce
  have len: "0 < length ?cs \<and> length ?cs \<le> 32"
    using digits_step [OF assms(1), of "unat value"] length_digits_u32 [OF assms(1), of "value"]
    by (auto simp: itoa_str_def unat_gt_0)
  have "0 \<notin> set ?cs" using dl digit_char_nonzero by (auto simp: itoa_str_def)
  then have "cstr (rdr ?m buf) ?cs" using len by (intro cstr_write_list) auto
  moreover have "digits_value ?b (map digit_of ?cs) = unat value"
  proof (cases "value = 0")
    case False
    then have "map digit_of ?cs = digits ?b (unat value)"
      using dl by (simp add: itoa_str_def digit_of_digit_char map_idI)
    then show ?thesis using assms(1) by (simp add: digits_value_digits)
  qed (simp add: itoa_str_def digit_of_def lookup_digits_def digits_value_def)
  ultimately show ?thesis
    using itoa_eq [OF assms] len by (fastforce dest: write_list_changed)
qed

theorem itoa_roundtrip_witness:
  "\<exists>m' cs. itoa (\<lambda>_. 0) 48879 (Local 0, 0) 16 = Some m' \<and> cstr (rdr m' (Local 0, 0)) cs
    \<and> digits_value 16 (map digit_of cs) = 48879"
  using itoa_roundtrip [of 16 "\<lambda>_. 0" 48879 "(Local 0, 0)"] by auto

end
