(* ===== verification/Machine.thy ===== *)
theory Machine
  imports Clib
begin

text \<open>
  The machine under the kernel: memory, the I/O ports and the interrupt flag, with the port and
  flag primitives of \<^verbatim>\<open>student-distrib/lib.h\<close>.

  A port write is recorded in \<open>out_trace\<close>. What a port read gives is decided by the devices, which
  are not part of the kernel: \<open>in_env\<close> is their behaviour, the value the \<open>n\<close>-th port read of the run
  gives on each port. Every component's state extends this record.
\<close>

record machine =
  mem :: memory
  out_trace :: "(u16 \<times> u8) list"
  in_env :: "nat \<Rightarrow> u16 \<Rightarrow> u8"
  in_cnt :: nat
  iflag :: bool

definition inb :: "u16 \<Rightarrow> 'z machine_scheme \<Rightarrow> u32 \<times> 'z machine_scheme" where
  "inb port s = (ucast (in_env s (in_cnt s) port), s\<lparr>in_cnt := Suc (in_cnt s)\<rparr>)"

definition outb :: "u8 \<Rightarrow> u16 \<Rightarrow> 'z machine_scheme \<Rightarrow> 'z machine_scheme" where
  "outb data port s = s\<lparr>out_trace := out_trace s @ [(port, data)]\<rparr>"

text \<open>The wider accesses read and write the bytes of consecutive ports, low byte first, in one access.\<close>

definition inw :: "u16 \<Rightarrow> 'z machine_scheme \<Rightarrow> u32 \<times> 'z machine_scheme" where
  "inw port s =
     (let b = in_env s (in_cnt s)
      in (ucast (word_cat (b (port + 1)) (b port) :: u16), s\<lparr>in_cnt := Suc (in_cnt s)\<rparr>))"

definition inl :: "u16 \<Rightarrow> 'z machine_scheme \<Rightarrow> u32 \<times> 'z machine_scheme" where
  "inl port s =
     (let b = in_env s (in_cnt s)
      in (word_cat (word_cat (b (port + 3)) (b (port + 2)) :: u16) (word_cat (b (port + 1)) (b port) :: u16),
          s\<lparr>in_cnt := Suc (in_cnt s)\<rparr>))"

definition outw :: "u16 \<Rightarrow> u16 \<Rightarrow> 'z machine_scheme \<Rightarrow> 'z machine_scheme" where
  "outw data port s = s\<lparr>out_trace := out_trace s @ [(port, ucast data), (port + 1, ucast (drop_bit 8 data))]\<rparr>"

definition outl :: "u32 \<Rightarrow> u16 \<Rightarrow> 'z machine_scheme \<Rightarrow> 'z machine_scheme" where
  "outl data port s = s\<lparr>out_trace := out_trace s @
     [(port, ucast data), (port + 1, ucast (drop_bit 8 data)), (port + 2, ucast (drop_bit 16 data)), (port + 3, ucast (drop_bit 24 data))]\<rparr>"

definition cli :: "'z machine_scheme \<Rightarrow> 'z machine_scheme" where
  "cli s = s\<lparr>iflag := False\<rparr>"

definition sti :: "'z machine_scheme \<Rightarrow> 'z machine_scheme" where
  "sti s = s\<lparr>iflag := True\<rparr>"

text \<open>Of \<^verbatim>\<open>EFLAGS\<close> the model has the interrupt flag, bit 9; \<open>eflags\<close> gives the other bits.\<close>

definition cli_and_save :: "u32 \<Rightarrow> 'z machine_scheme \<Rightarrow> u32 \<times> 'z machine_scheme" where
  "cli_and_save eflags s = (if iflag s then set_bit 9 eflags else unset_bit 9 eflags, cli s)"

definition restore_flags :: "u32 \<Rightarrow> 'z machine_scheme \<Rightarrow> 'z machine_scheme" where
  "restore_flags flags s = s\<lparr>iflag := bit flags 9\<rparr>"

text \<open>A store of one byte by the kernel.\<close>

definition st8 :: "ptr \<Rightarrow> u8 \<Rightarrow> 'z machine_scheme \<Rightarrow> 'z machine_scheme" where
  "st8 p v s = s\<lparr>mem := (mem s)(p := v)\<rparr>"

definition upd_mem :: "(memory \<Rightarrow> memory) \<Rightarrow> 'z machine_scheme \<Rightarrow> 'z machine_scheme" where
  "upd_mem f s = s\<lparr>mem := f (mem s)\<rparr>"

text \<open>The data bytes written to one port, in order.\<close>

definition writes_to :: "u16 \<Rightarrow> 'z machine_scheme \<Rightarrow> u8 list" where
  "writes_to port s = map snd (filter (\<lambda>w. fst w = port) (out_trace s))"

lemma machine_prim_simps [simp]:
  "mem (outb d p s) = mem s" "iflag (outb d p s) = iflag s"
  "in_env (outb d p s) = in_env s" "in_cnt (outb d p s) = in_cnt s"
  "out_trace (outb d p s) = out_trace s @ [(p, d)]"
  "machine.more (outb d p s) = machine.more s"
  "mem (cli s) = mem s" "iflag (cli s) = False" "out_trace (cli s) = out_trace s"
  "in_env (cli s) = in_env s" "in_cnt (cli s) = in_cnt s" "machine.more (cli s) = machine.more s"
  "mem (sti s) = mem s" "iflag (sti s) = True" "out_trace (sti s) = out_trace s"
  "in_env (sti s) = in_env s" "in_cnt (sti s) = in_cnt s" "machine.more (sti s) = machine.more s"
  "mem (st8 q v s) = (mem s)(q := v)" "iflag (st8 q v s) = iflag s" "out_trace (st8 q v s) = out_trace s"
  "in_env (st8 q v s) = in_env s" "in_cnt (st8 q v s) = in_cnt s" "machine.more (st8 q v s) = machine.more s"
  "mem (upd_mem f s) = f (mem s)" "iflag (upd_mem f s) = iflag s" "out_trace (upd_mem f s) = out_trace s"
  "in_env (upd_mem f s) = in_env s" "in_cnt (upd_mem f s) = in_cnt s"
  "machine.more (upd_mem f s) = machine.more s"
  by (simp_all add: outb_def cli_def sti_def st8_def upd_mem_def)

subsection \<open>Saving and restoring the interrupt flag\<close>

lemma restore_saved_flags:
  "cli_and_save eflags s = (flags, s') \<Longrightarrow> \<not> iflag s' \<and> iflag (restore_flags flags t) = iflag s"
  by (auto simp: cli_and_save_def restore_flags_def bit_simps split: if_splits)

lemma restore_save_nested:
  "cli_and_save e1 s = (f1, s1) \<Longrightarrow> cli_and_save e2 s1 = (f2, s2) \<Longrightarrow> \<not> iflag (restore_flags f2 s2) \<and> iflag (restore_flags f1 (restore_flags f2 s2)) = iflag s"
  by (auto simp: cli_and_save_def restore_flags_def bit_simps split: if_splits)

text \<open>A word read back from the bytes written is the word.\<close>

lemma outl_bytes:
  "word_cat (word_cat (ucast (drop_bit 24 d) :: u8) (ucast (drop_bit 16 d) :: u8) :: u16)
     (word_cat (ucast (drop_bit 8 d) :: u8) (ucast d :: u8) :: u16) = (d :: u32)"
  by (rule bit_word_eqI) (auto simp: bit_simps not_less)

end
