(* ===== verification/Console.thy ===== *)
theory Console
  imports Machine
begin

text \<open>
  The console of \<^verbatim>\<open>student-distrib/lib.c\<close>: the terminals, their cursors and their text screens in
  video memory, and the output routines from \<^verbatim>\<open>putc\<close> to \<^verbatim>\<open>printf\<close>. The main result is that
  \<^verbatim>\<open>putc\<close>, which works on bytes of video memory, implements an abstract screen of 25 rows of 80
  cells.
\<close>

subsection \<open>State\<close>

text \<open>
  \<^verbatim>\<open>term_t\<close>. Its two arrays, \<^verbatim>\<open>key_buf\<close> and \<^verbatim>\<open>hist_buf\<close>, are the objects \<open>KeyBuf\<close> and \<open>HistBuf\<close> of the
  memory, indexed by the terminal.
\<close>

record term_t =
  term_id :: u8
  curs_r :: u8
  curs_c :: u8
  scrn_c :: u8
  scrn_r :: u8
  vid_mem :: u32
  key_buf_index :: u32
  new_line :: bool
  hist_buf_index :: u32
  cur_hist_index :: u32
  t_esp :: u32
  t_ebp :: u32
  cur_task :: u32

record console = machine +
  terminals :: "int \<Rightarrow> term_t"
  vis_term_id :: int
  sched_term_id :: int
  fg_color :: u8
  bg_color :: u8
  color :: u8

abbreviation VIDEO_ADDR :: u32 where "VIDEO_ADDR \<equiv> 0xB8000"
abbreviation MAX_TERM_NUM :: int where "MAX_TERM_NUM \<equiv> 3"
abbreviation KEY_BUF_SIZE :: nat where "KEY_BUF_SIZE \<equiv> 129"
abbreviation FOUR_KB :: u32 where "FOUR_KB \<equiv> 0x1000"
abbreviation FOUR_MB :: u32 where "FOUR_MB \<equiv> 0x400000"

definition upd_term :: "int \<Rightarrow> (term_t \<Rightarrow> term_t) \<Rightarrow> 'z console_scheme \<Rightarrow> 'z console_scheme" where
  "upd_term i f s = s\<lparr>terminals := (terminals s)(i := f (terminals s i))\<rparr>"

text \<open>The byte offset of a character cell: \<^verbatim>\<open>(NUM_COLS*row + col) << 1\<close>.\<close>

definition cell_off :: "u8 \<Rightarrow> u8 \<Rightarrow> u32" where
  "cell_off row col = push_bit 1 (80 * ucast row + ucast col)"

subsection \<open>Cursor and scrolling\<close>

definition set_keyboard_pos :: "int \<Rightarrow> int \<Rightarrow> int \<Rightarrow> 'z console_scheme \<Rightarrow> 'z console_scheme" where
  "set_keyboard_pos tid row col s = upd_term tid (\<lambda>t. t\<lparr>scrn_r := of_int row, scrn_c := of_int col\<rparr>) s"

definition set_cursor_pos :: "int \<Rightarrow> int \<Rightarrow> int \<Rightarrow> 'z console_scheme \<Rightarrow> 'z console_scheme" where
  "set_cursor_pos tid row col s =
     (let s = upd_term tid (\<lambda>t. t\<lparr>curs_r := of_int row, curs_c := of_int col\<rparr>) s
      in if tid = vis_term_id s
         then let position = (of_int (row * 80 + col) :: u16);
                  s = outb 0x0F 0x3D4 s;
                  s = outb (ucast (position AND 0xFF)) 0x3D5 s;
                  s = outb 0x0E 0x3D4 s
              in outb (ucast (drop_bit 8 position AND 0xFF)) 0x3D5 s
         else s)"

definition scroll :: "int \<Rightarrow> 'z console_scheme \<Rightarrow> 'z console_scheme" where
  "scroll tid s =
     (if scrn_r (terminals s tid) \<ge> 25
      then let blank = 0x20 OR push_bit 8 (ucast (color s)) :: u32;
               temp = ucast (scrn_r (terminals s tid)) - 25 + 1 :: u32;
               vm = vid_mem (terminals s tid);
               s = upd_mem (\<lambda>m. memcpy m (Phys, vm) (Phys, vm + temp * 80 * 2) ((25 - temp) * 80 * 2)) s;
               s = upd_mem (\<lambda>m. memset_word m (Phys, vm + (25 - temp) * 80 * 2) blank 80) s
           in upd_term tid (\<lambda>t. t\<lparr>scrn_r := 24\<rparr>) s
      else s)"

fun clear_loop :: "nat \<Rightarrow> 'z console_scheme \<Rightarrow> 'z console_scheme" where
  "clear_loop 0 s = s"
| "clear_loop (Suc k) s =
     (let i = of_nat (2000 - Suc k) :: u32;
          s = st8 (Phys, VIDEO_ADDR + push_bit 1 i) (of_char CHR '' '') s;
          s = st8 (Phys, VIDEO_ADDR + push_bit 1 i + 1) (color s) s
      in clear_loop k s)"

definition clear_screen :: "'z console_scheme \<Rightarrow> 'z console_scheme" where
  "clear_screen s =
     (let s = clear_loop 2000 s;
          s = set_keyboard_pos (vis_term_id s) 0 0 s
      in set_cursor_pos (vis_term_id s) 0 0 s)"

subsection \<open>Characters\<close>

definition attrib :: "u8 \<Rightarrow> u8 \<Rightarrow> u8" where
  "attrib fg bg = push_bit 4 bg OR (fg AND 0xF)"

text \<open>Stores a character and its attribute at the current position of a terminal.\<close>

definition put_cell :: "int \<Rightarrow> u8 \<Rightarrow> u8 \<Rightarrow> 'z console_scheme \<Rightarrow> 'z console_scheme" where
  "put_cell tid c attr s =
     (let t = terminals s tid;
          s = st8 (Phys, vid_mem t + cell_off (scrn_r t) (scrn_c t)) c s
      in st8 (Phys, vid_mem t + cell_off (scrn_r t) (scrn_c t) + 1) attr s)"

definition putc_finish :: "int \<Rightarrow> 'z console_scheme \<Rightarrow> 'z console_scheme" where
  "putc_finish tid s =
     (let s = set_cursor_pos tid (uint (scrn_r (terminals s tid))) (uint (scrn_c (terminals s tid))) s
      in set_keyboard_pos tid (uint (scrn_r (terminals s tid))) (uint (scrn_c (terminals s tid))) s)"

definition putc_newline :: "int \<Rightarrow> 'z console_scheme \<Rightarrow> 'z console_scheme" where
  "putc_newline tid s = scroll tid (upd_term tid (\<lambda>t. t\<lparr>scrn_r := scrn_r t + 1, scrn_c := 0\<rparr>) s)"

definition putc_char :: "int \<Rightarrow> u8 \<Rightarrow> u8 \<Rightarrow> 'z console_scheme \<Rightarrow> 'z console_scheme" where
  "putc_char tid c attr s =
     (let s = upd_term tid (\<lambda>t. t\<lparr>scrn_r := scrn_r t + scrn_c t div 80, scrn_c := scrn_c t mod 80\<rparr>) s;
          s = scroll tid s;
          s = put_cell tid c attr s
      in upd_term tid (\<lambda>t. t\<lparr>scrn_c := scrn_c t + 1\<rparr>) s)"

definition putc :: "int \<Rightarrow> u8 \<Rightarrow> 'z console_scheme \<Rightarrow> 'z console_scheme" where
  "putc tid c s =
     (if c = 10 \<or> c = 13 then putc_finish tid (putc_newline tid s)
      else if c = 8
      then if scrn_c (terminals s tid) = 0 then s
           else let s = upd_term tid (\<lambda>t. t\<lparr>scrn_c := scrn_c t - 1\<rparr>) s
                in putc_finish tid (put_cell tid 32 (color s) s)
      else putc_finish tid (putc_char tid c (color s) s))"

definition putc_color :: "int \<Rightarrow> u8 \<Rightarrow> u8 \<Rightarrow> u8 \<Rightarrow> 'z console_scheme \<Rightarrow> 'z console_scheme" where
  "putc_color tid c fg bg s =
     (if c = 10 \<or> c = 13 then putc_finish tid (putc_newline tid s)
      else putc_finish tid (putc_char tid c (attrib fg bg) s))"

definition set_color :: "u8 \<Rightarrow> u8 \<Rightarrow> 'z console_scheme \<Rightarrow> 'z console_scheme" where
  "set_color fg bg s = s\<lparr>fg_color := fg, bg_color := bg, color := attrib fg bg\<rparr>"

definition get_char :: "u8 \<Rightarrow> u8 \<Rightarrow> 'z console_scheme \<Rightarrow> u8" where
  "get_char row col s = mem s (Phys, VIDEO_ADDR + cell_off row col)"

definition set_char :: "u8 \<Rightarrow> u8 \<Rightarrow> u8 \<Rightarrow> u8 \<Rightarrow> u8 \<Rightarrow> 'z console_scheme \<Rightarrow> 'z console_scheme" where
  "set_char c fg bg row col s =
     (let s = st8 (Phys, VIDEO_ADDR + cell_off row col) c s
      in st8 (Phys, VIDEO_ADDR + cell_off row col + 1) (attrib fg bg) s)"

fun test_loop :: "nat \<Rightarrow> 'z console_scheme \<Rightarrow> 'z console_scheme" where
  "test_loop 0 s = s"
| "test_loop (Suc k) s =
     (let p = (Phys, VIDEO_ADDR + push_bit 1 (of_nat (2000 - Suc k))) in test_loop k (st8 p (mem s p + 1) s))"

definition test_interrupts :: "'z console_scheme \<Rightarrow> 'z console_scheme" where
  "test_interrupts s = test_loop 2000 s"

subsection \<open>Strings and printf\<close>

text \<open>
  A string argument is the list of its bytes before the terminator. The result is the number of
  bytes written.
\<close>

fun puts_loop :: "int \<Rightarrow> u8 list \<Rightarrow> 'z console_scheme \<Rightarrow> 'z console_scheme" where
  "puts_loop tid [] s = s"
| "puts_loop tid (c # cs) s = puts_loop tid cs (putc tid c s)"

definition puts :: "int \<Rightarrow> u8 list \<Rightarrow> 'z console_scheme \<Rightarrow> int \<times> 'z console_scheme" where
  "puts tid cs s = (int (length cs), puts_loop tid cs s)"

fun puts_color_loop :: "u8 list \<Rightarrow> u8 \<Rightarrow> u8 \<Rightarrow> 'z console_scheme \<Rightarrow> 'z console_scheme" where
  "puts_color_loop [] fg bg s = s"
| "puts_color_loop (c # cs) fg bg s = puts_color_loop cs fg bg (putc_color (sched_term_id s) c fg bg s)"

definition puts_color :: "int \<Rightarrow> u8 list \<Rightarrow> u8 \<Rightarrow> u8 \<Rightarrow> 'z console_scheme \<Rightarrow> int \<times> 'z console_scheme" where
  "puts_color tid cs fg bg s = (int (length cs), puts_color_loop cs fg bg s)"

text \<open>
  The number conversions of \<^verbatim>\<open>printf\<close>, through its local \<^verbatim>\<open>conv_buf\<close>: the string that is printed.
\<close>

definition string_at :: "memory \<Rightarrow> ptr \<Rightarrow> u8 list" where
  "string_at m p = (case strlen (rdr m p) of None \<Rightarrow> [] | Some n \<Rightarrow> read_list m p n)"

definition conv_itoa :: "memory \<Rightarrow> u32 \<Rightarrow> u32 \<Rightarrow> u32 \<Rightarrow> memory" where
  "conv_itoa m v off radix = (case itoa m v (Local 0, off) radix of None \<Rightarrow> m | Some m' \<Rightarrow> m')"

definition conv_u :: "memory \<Rightarrow> u32 \<Rightarrow> u8 list" where
  "conv_u conv_buf v = string_at (conv_itoa conv_buf v 0 10) (Local 0, 0)"

definition conv_x :: "memory \<Rightarrow> u32 \<Rightarrow> u8 list" where
  "conv_x conv_buf v = string_at (conv_itoa conv_buf v 0 16) (Local 0, 0)"

fun zero_fill :: "memory \<Rightarrow> nat \<Rightarrow> nat \<Rightarrow> memory" where
  "zero_fill m i 0 = m"
| "zero_fill m i (Suc k) = zero_fill (m((Local 0, of_nat i) := of_char CHR ''0'')) (Suc i) k"

definition conv_alt_x :: "memory \<Rightarrow> u32 \<Rightarrow> u8 list" where
  "conv_alt_x conv_buf v =
     (let m = conv_itoa conv_buf v 8 16;
          starting_index = length (string_at m (Local 0, 8));
          m = zero_fill m starting_index (8 - starting_index)
      in string_at m (Local 0, of_nat starting_index))"

definition conv_d :: "memory \<Rightarrow> u32 \<Rightarrow> u8 list" where
  "conv_d conv_buf v =
     (if v <s 0 then string_at (conv_itoa (conv_buf((Local 0, 0) := of_char CHR ''-'')) (- v) 1 10) (Local 0, 0)
      else string_at (conv_itoa conv_buf v 0 10) (Local 0, 0))"

text \<open>
  The arguments of \<^verbatim>\<open>printf\<close>: a stack word, or a pointer to a string given by its bytes. Taking an
  argument that was not passed, taking a number for \<^verbatim>\<open>%s\<close>, and a format that ends in \<^verbatim>\<open>%\<close> or \<^verbatim>\<open>%#\<close>
  (the loop then steps over the terminator) are undefined in C: the result is \<open>None\<close>.
\<close>

datatype parg = ArgW u32 | ArgS "u8 list"

fun pop_w :: "parg list \<Rightarrow> (u32 \<times> parg list) option" where
  "pop_w (ArgW w # args) = Some (w, args)"
| "pop_w _ = None"

fun pop_s :: "parg list \<Rightarrow> (u8 list \<times> parg list) option" where
  "pop_s (ArgS bs # args) = Some (bs, args)"
| "pop_s _ = None"

definition psched :: "u8 list \<Rightarrow> 'z console_scheme \<Rightarrow> 'z console_scheme" where
  "psched cs s = puts_loop (sched_term_id s) cs s"

fun printf_loop :: "memory \<Rightarrow> u8 list \<Rightarrow> parg list \<Rightarrow> 'z console_scheme \<Rightarrow> 'z console_scheme option"
  and format_char :: "memory \<Rightarrow> bool \<Rightarrow> u8 list \<Rightarrow> parg list \<Rightarrow> 'z console_scheme \<Rightarrow> 'z console_scheme option" where
  "printf_loop cb [] args s = Some s"
| "printf_loop cb (c # buf) args s =
     (if c = of_char CHR ''%'' then format_char cb False buf args s
      else printf_loop cb buf args (putc (sched_term_id s) c s))"
| "format_char cb alternate [] args s = None"
| "format_char cb alternate (c # buf) args s =
     (if c = of_char CHR ''%'' then printf_loop cb buf args (putc (sched_term_id s) (of_char CHR ''%'') s)
      else if c = of_char CHR ''#'' then format_char cb True buf args s
      else if c = of_char CHR ''x''
      then case pop_w args of None \<Rightarrow> None
           | Some (w, esp) \<Rightarrow> printf_loop cb buf esp (psched (if alternate then conv_alt_x cb w else conv_x cb w) s)
      else if c = of_char CHR ''u''
      then case pop_w args of None \<Rightarrow> None | Some (w, esp) \<Rightarrow> printf_loop cb buf esp (psched (conv_u cb w) s)
      else if c = of_char CHR ''d''
      then case pop_w args of None \<Rightarrow> None | Some (w, esp) \<Rightarrow> printf_loop cb buf esp (psched (conv_d cb w) s)
      else if c = of_char CHR ''c''
      then case pop_w args of None \<Rightarrow> None | Some (w, esp) \<Rightarrow> printf_loop cb buf esp (putc (sched_term_id s) (ucast w) s)
      else if c = of_char CHR ''s''
      then case pop_s args of None \<Rightarrow> None | Some (bs, esp) \<Rightarrow> printf_loop cb buf esp (psched bs s)
      else printf_loop cb buf args s)"

text \<open>The bytes \<^verbatim>\<open>conv_buf\<close> holds before a conversion are whatever the memory holds there.\<close>

definition printf :: "string \<Rightarrow> parg list \<Rightarrow> 'z console_scheme \<Rightarrow> (int \<times> 'z console_scheme) option" where
  "printf format args s =
     map_option (\<lambda>s. (int (length format), s)) (printf_loop (mem s) (bytes_of format) args s)"

subsection \<open>Accessor rules\<close>

lemma upd_term_simps [simp]:
  "mem (upd_term i f s) = mem s" "iflag (upd_term i f s) = iflag s"
  "out_trace (upd_term i f s) = out_trace s"
  "in_env (upd_term i f s) = in_env s" "in_cnt (upd_term i f s) = in_cnt s"
  "terminals (upd_term i f s) = (terminals s)(i := f (terminals s i))"
  "vis_term_id (upd_term i f s) = vis_term_id s" "sched_term_id (upd_term i f s) = sched_term_id s"
  "color (upd_term i f s) = color s" "fg_color (upd_term i f s) = fg_color s"
  "bg_color (upd_term i f s) = bg_color s" "console.more (upd_term i f s) = console.more s"
  by (simp_all add: upd_term_def)

lemma machine_console_simps [simp]:
  "terminals (outb d p s) = terminals s" "vis_term_id (outb d p s) = vis_term_id s"
  "sched_term_id (outb d p s) = sched_term_id s" "color (outb d p s) = color s"
  "fg_color (outb d p s) = fg_color s" "bg_color (outb d p s) = bg_color s"
  "console.more (outb d p s) = console.more s"
  "terminals (st8 q v s) = terminals s" "vis_term_id (st8 q v s) = vis_term_id s"
  "sched_term_id (st8 q v s) = sched_term_id s" "color (st8 q v s) = color s"
  "fg_color (st8 q v s) = fg_color s" "bg_color (st8 q v s) = bg_color s"
  "console.more (st8 q v s) = console.more s"
  "terminals (upd_mem f s) = terminals s" "vis_term_id (upd_mem f s) = vis_term_id s"
  "sched_term_id (upd_mem f s) = sched_term_id s" "color (upd_mem f s) = color s"
  "fg_color (upd_mem f s) = fg_color s" "bg_color (upd_mem f s) = bg_color s"
  "console.more (upd_mem f s) = console.more s"
  "terminals (cli s) = terminals s" "vis_term_id (cli s) = vis_term_id s"
  "sched_term_id (cli s) = sched_term_id s" "color (cli s) = color s"
  "fg_color (cli s) = fg_color s" "bg_color (cli s) = bg_color s" "console.more (cli s) = console.more s"
  "terminals (sti s) = terminals s" "vis_term_id (sti s) = vis_term_id s"
  "sched_term_id (sti s) = sched_term_id s" "color (sti s) = color s"
  "fg_color (sti s) = fg_color s" "bg_color (sti s) = bg_color s" "console.more (sti s) = console.more s"
  by (simp_all add: outb_def st8_def upd_mem_def cli_def sti_def)

lemma set_keyboard_pos_simps [simp]:
  "mem (set_keyboard_pos i r c s) = mem s" "iflag (set_keyboard_pos i r c s) = iflag s"
  "out_trace (set_keyboard_pos i r c s) = out_trace s"
  "in_env (set_keyboard_pos i r c s) = in_env s" "in_cnt (set_keyboard_pos i r c s) = in_cnt s"
  "terminals (set_keyboard_pos i r c s) = (terminals s)(i := (terminals s i)\<lparr>scrn_r := of_int r, scrn_c := of_int c\<rparr>)"
  "vis_term_id (set_keyboard_pos i r c s) = vis_term_id s"
  "sched_term_id (set_keyboard_pos i r c s) = sched_term_id s"
  "color (set_keyboard_pos i r c s) = color s" "fg_color (set_keyboard_pos i r c s) = fg_color s"
  "bg_color (set_keyboard_pos i r c s) = bg_color s" "console.more (set_keyboard_pos i r c s) = console.more s"
  by (simp_all add: set_keyboard_pos_def)

text \<open>The four port writes that move the hardware cursor.\<close>

definition cursor_out :: "int \<Rightarrow> int \<Rightarrow> (u16 \<times> u8) list" where
  "cursor_out row col =
     (let position = (of_int (row * 80 + col) :: u16)
      in [(0x3D4, 0x0F), (0x3D5, ucast (position AND 0xFF)), (0x3D4, 0x0E),
          (0x3D5, ucast (drop_bit 8 position AND 0xFF))])"

lemma set_cursor_pos_simps [simp]:
  "mem (set_cursor_pos i r c s) = mem s" "iflag (set_cursor_pos i r c s) = iflag s"
  "out_trace (set_cursor_pos i r c s) = out_trace s @ (if i = vis_term_id s then cursor_out r c else [])"
  "in_env (set_cursor_pos i r c s) = in_env s" "in_cnt (set_cursor_pos i r c s) = in_cnt s"
  "terminals (set_cursor_pos i r c s) = (terminals s)(i := (terminals s i)\<lparr>curs_r := of_int r, curs_c := of_int c\<rparr>)"
  "vis_term_id (set_cursor_pos i r c s) = vis_term_id s"
  "sched_term_id (set_cursor_pos i r c s) = sched_term_id s"
  "color (set_cursor_pos i r c s) = color s" "fg_color (set_cursor_pos i r c s) = fg_color s"
  "bg_color (set_cursor_pos i r c s) = bg_color s" "console.more (set_cursor_pos i r c s) = console.more s"
  by (simp_all add: set_cursor_pos_def cursor_out_def Let_def)

lemma put_cell_simps [simp]:
  "iflag (put_cell i ch a s) = iflag s" "out_trace (put_cell i ch a s) = out_trace s"
  "in_env (put_cell i ch a s) = in_env s" "in_cnt (put_cell i ch a s) = in_cnt s"
  "terminals (put_cell i ch a s) = terminals s" "vis_term_id (put_cell i ch a s) = vis_term_id s"
  "sched_term_id (put_cell i ch a s) = sched_term_id s" "color (put_cell i ch a s) = color s"
  "fg_color (put_cell i ch a s) = fg_color s" "bg_color (put_cell i ch a s) = bg_color s"
  "console.more (put_cell i ch a s) = console.more s"
  by (simp_all add: put_cell_def Let_def)

lemma scroll_simps [simp]:
  "iflag (scroll i s) = iflag s" "out_trace (scroll i s) = out_trace s"
  "in_env (scroll i s) = in_env s" "in_cnt (scroll i s) = in_cnt s"
  "vis_term_id (scroll i s) = vis_term_id s"
  "sched_term_id (scroll i s) = sched_term_id s" "color (scroll i s) = color s"
  "fg_color (scroll i s) = fg_color s" "bg_color (scroll i s) = bg_color s"
  "console.more (scroll i s) = console.more s"
  "terminals (scroll i s) = (if scrn_r (terminals s i) \<ge> 25
     then (terminals s)(i := (terminals s i)\<lparr>scrn_r := 24\<rparr>) else terminals s)"
  by (simp_all add: scroll_def Let_def)

subsection \<open>Screen memory\<close>

lemma cell_off_eq: "cell_off r c = of_nat (160 * unat r + 2 * unat c)"
proof -
  have "ucast r = (of_nat (unat r) :: u32)" "ucast c = (of_nat (unat c) :: u32)"
    by (simp_all add: unsigned_of_nat)
  then show ?thesis by (simp add: cell_off_def push_bit_eq_mult algebra_simps)
qed

text \<open>The memory of a terminal's screen: byte \<open>k\<close> of the 4000 bytes from \<open>vid_mem\<close> on.\<close>

definition screen_byte :: "memory \<Rightarrow> u32 \<Rightarrow> nat \<Rightarrow> u8" where
  "screen_byte m vm k = m (padd (Phys, vm) (of_nat k))"

definition blank_row :: "u8 \<Rightarrow> u8 list" where
  "blank_row a = concat (replicate 80 [32, a])"

lemma length_blank_row [simp]: "length (blank_row a) = 160"
  by (simp only: blank_row_def length_concat_replicate) simp

lemma nth_blank_row: "k < 160 \<Longrightarrow> blank_row a ! k = (if even k then 32 else a)"
proof -
  have "k < 2 * n \<Longrightarrow> concat (replicate n [32, a]) ! k = (if even k then 32 else a)" for n
  proof (induction n arbitrary: k)
    case (Suc n)
    show ?case
    proof (cases "k < 2")
      case True
      then have "k = 0 \<or> k = 1" by linarith
      then show ?thesis by auto
    next
      case False
      then obtain j where "k = Suc (Suc j)" by (metis Suc_diff_Suc less_2_cases_iff not_less_eq not0_implies_Suc One_nat_def numeral_2_eq_2)
      then show ?thesis using Suc by simp
    qed
  qed simp
  moreover have "(160 :: nat) = 2 * 80" by simp
  ultimately show "k < 160 \<Longrightarrow> ?thesis" unfolding blank_row_def by metis
qed

lemma bytes16_blank: "bytes16 (ucast (0x20 OR push_bit 8 (ucast a) :: u32)) = [32, a]"
proof -
  have sp: "(0x20 :: u32) = push_bit 5 1" by simp
  have "ucast (ucast (0x20 OR push_bit 8 (ucast a) :: u32) :: u16) = (32 :: u8)"
    by (rule bit_word_eqI) (auto simp: bit_simps)
  moreover have "ucast (drop_bit 8 (ucast (0x20 OR push_bit 8 (ucast a) :: u32) :: u16)) = a"
    unfolding sp by (rule bit_word_eqI) (auto simp: bit_simps simp del: push_bit_of_1)
  ultimately show ?thesis by (simp add: bytes16_def)
qed

lemma scroll_mem:
  assumes "scrn_r (terminals s i) = 25"
  defines "vm \<equiv> vid_mem (terminals s i)"
  shows "mem (scroll i s) = write_list (mem s) (Phys, vm)
    (read_list (mem s) (padd (Phys, vm) 160) 3840 @ blank_row (color s))"
proof -
  let ?m = "write_list (mem s) (Phys, vm) (read_list (mem s) (Phys, vm + 160) 3840)"
  let ?blank = "0x20 OR push_bit 8 (ucast (color s)) :: u32"
  have "fwd_ok (Phys, vm) (Phys, vm + 160) (unat (3840 :: u32))"
    by (simp add: fwd_ok_def unsigned_minus_1_eq_mask)
  then have cpy: "memcpy (mem s) (Phys, vm) (Phys, vm + 160) 3840 = ?m"
    by (simp add: memcpy_eq)
  have "unat (80 :: u32) = 80" by simp
  then have set: "memset_word ?m (Phys, vm + 3840) ?blank 80 = write_list ?m (Phys, vm + 3840) (blank_row (color s))"
    by (simp only: memset_word_eq bytes16_blank blank_row_def)
  show ?thesis
    using assms cpy set by (simp add: scroll_def Let_def write_list_append)
qed

subsection \<open>The abstract screen\<close>

text \<open>
  Specification: 25 rows of 80 cells, a cell being a character and its attribute, and a position
  whose column 80 stands for a full row, to be left before the next character.
\<close>

record screen =
  sc_rows :: "(u8 \<times> u8) list list"
  sc_row :: nat
  sc_col :: nat

definition sc_set :: "nat \<Rightarrow> nat \<Rightarrow> u8 \<times> u8 \<Rightarrow> screen \<Rightarrow> screen" where
  "sc_set r c v sc = sc\<lparr>sc_rows := (sc_rows sc)[r := (sc_rows sc ! r)[c := v]]\<rparr>"

definition sc_newline :: "u8 \<Rightarrow> screen \<Rightarrow> screen" where
  "sc_newline a sc =
     (if sc_row sc < 24 then sc\<lparr>sc_row := Suc (sc_row sc), sc_col := 0\<rparr>
      else sc\<lparr>sc_rows := tl (sc_rows sc) @ [replicate 80 (32, a)], sc_row := 24, sc_col := 0\<rparr>)"

definition sc_putc :: "u8 \<Rightarrow> u8 \<Rightarrow> screen \<Rightarrow> screen" where
  "sc_putc a ch sc =
     (if ch = 10 \<or> ch = 13 then sc_newline a sc
      else if ch = 8 then
        if sc_col sc = 0 then sc
        else sc_set (sc_row sc) (sc_col sc - 1) (32, a) (sc\<lparr>sc_col := sc_col sc - 1\<rparr>)
      else
        (let sc = (if sc_col sc = 80 then sc_newline a sc else sc)
         in sc_set (sc_row sc) (sc_col sc) (ch, a) (sc\<lparr>sc_col := Suc (sc_col sc)\<rparr>)))"

text \<open>The abstraction of a terminal, and the terminals the screen routines keep.\<close>

definition screen_rows :: "memory \<Rightarrow> u32 \<Rightarrow> (u8 \<times> u8) list list" where
  "screen_rows m vm =
     map (\<lambda>r. map (\<lambda>c. (screen_byte m vm (160 * r + 2 * c), screen_byte m vm (Suc (160 * r + 2 * c)))) [0..<80]) [0..<25]"

definition abs_screen :: "int \<Rightarrow> 'z console_scheme \<Rightarrow> screen" where
  "abs_screen i s = \<lparr>sc_rows = screen_rows (mem s) (vid_mem (terminals s i)),
     sc_row = unat (scrn_r (terminals s i)), sc_col = unat (scrn_c (terminals s i))\<rparr>"

definition term_ok :: "term_t \<Rightarrow> bool" where
  "term_ok t \<longleftrightarrow> scrn_r t < 25 \<and> scrn_c t \<le> 80"

lemma term_ok_unat: "term_ok t \<longleftrightarrow> unat (scrn_r t) < 25 \<and> unat (scrn_c t) \<le> 80"
  by (simp add: term_ok_def word_less_nat_alt word_le_nat_alt)

lemma length_screen_rows [simp]: "length (screen_rows m vm) = 25"
  by (simp add: screen_rows_def)

lemma nth_screen_rows: "r < 25 \<Longrightarrow> screen_rows m vm ! r =
    map (\<lambda>c. (screen_byte m vm (160 * r + 2 * c), screen_byte m vm (Suc (160 * r + 2 * c)))) [0..<80]"
  by (simp add: screen_rows_def)

lemma screen_cell:
  assumes "r < 25" and "c < 80"
  shows "screen_rows m vm ! r ! c = (screen_byte m vm (160 * r + 2 * c), screen_byte m vm (Suc (160 * r + 2 * c)))"
  using assms by (simp add: nth_screen_rows del: upt_rec_numeral)

lemma length_screen_row [simp]: "r < 25 \<Longrightarrow> length (screen_rows m vm ! r) = 80"
  by (simp add: nth_screen_rows del: upt_rec_numeral)

lemma screen_byte_scroll:
  assumes "scrn_r (terminals s i) = 25" and "k < 4000"
  shows "screen_byte (mem (scroll i s)) (vid_mem (terminals s i)) k =
    (if k < 3840 then screen_byte (mem s) (vid_mem (terminals s i)) (k + 160)
     else if even k then 32 else color s)"
proof -
  let ?vm = "vid_mem (terminals s i)"
  let ?xs = "read_list (mem s) (padd (Phys, ?vm) 160) 3840 @ blank_row (color s)"
  have "screen_byte (mem (scroll i s)) ?vm k = ?xs ! k"
    unfolding screen_byte_def scroll_mem [OF assms(1)] using assms(2) by (intro write_list_padd) simp_all
  then show ?thesis
    using assms(2) by (auto simp: nth_append screen_byte_def nth_blank_row ac_simps)
qed

lemma screen_rows_eqI:
  assumes "length xs = 25" and "\<And>r. r < 25 \<Longrightarrow> length (xs ! r) = 80"
    and "\<And>r c. \<lbrakk>r < 25; c < 80\<rbrakk> \<Longrightarrow> screen_rows m vm ! r ! c = xs ! r ! c"
  shows "screen_rows m vm = xs"
  using assms by (intro nth_equalityI) auto

lemma screen_rows_scroll:
  assumes "scrn_r (terminals s i) = 25"
  shows "screen_rows (mem (scroll i s)) (vid_mem (terminals s i)) =
    tl (screen_rows (mem s) (vid_mem (terminals s i))) @ [replicate 80 (32, color s)]"
proof (rule screen_rows_eqI)
  fix r c :: nat assume r: "r < 25" and c: "c < 80"
  have "r < 24 \<or> r = 24" using r by auto
  then show "screen_rows (mem (scroll i s)) (vid_mem (terminals s i)) ! r ! c =
      (tl (screen_rows (mem s) (vid_mem (terminals s i))) @ [replicate 80 (32, color s)]) ! r ! c"
    using assms r c by (auto simp: nth_append nth_tl screen_cell screen_byte_scroll) (simp_all add: algebra_simps)
qed (simp_all add: nth_append nth_tl)

lemma screen_byte_put_cell:
  fixes s :: "'z console_scheme" and i :: int
  assumes "k < 4000"
  defines "t \<equiv> terminals s i"
  defines "off \<equiv> 160 * unat (scrn_r t) + 2 * unat (scrn_c t)"
  shows "screen_byte (mem (put_cell i ch a s)) (vid_mem t) k =
    (if k = Suc off then a else if k = off then ch else screen_byte (mem s) (vid_mem t) k)"
proof -
  have off: "off < 4294967295"
    using unat_u8_bound [of "scrn_r t"] unat_u8_bound [of "scrn_c t"] unfolding off_def by linarith
  have inj: "(of_nat k :: u32) = of_nat j \<longleftrightarrow> k = j" if "j < 2 ^ 32" for j
    using assms(1) that by (intro of_nat_u32_inj) simp_all
  have eq: "(of_nat k :: u32) = of_nat off \<longleftrightarrow> k = off" "(of_nat k :: u32) = of_nat (Suc off) \<longleftrightarrow> k = Suc off"
    using off by (simp_all add: inj del: of_nat_Suc)
  have "mem (put_cell i ch a s) = (mem s)((Phys, vid_mem t + of_nat off) := ch, (Phys, vid_mem t + of_nat (Suc off)) := a)"
    by (simp add: put_cell_def Let_def cell_off_eq t_def off_def ac_simps)
  then show ?thesis
    unfolding screen_byte_def padd_simps(5) using eq by (simp del: of_nat_Suc)
qed

lemma cell_pos:
  fixes r c r' c' :: nat
  assumes "c < 80" and "c' < 80"
  shows "160 * r + 2 * c = 160 * r' + 2 * c' \<longleftrightarrow> r = r' \<and> c = c'"
    and "160 * r + 2 * c \<noteq> Suc (160 * r' + 2 * c')"
    and "Suc (160 * r + 2 * c) \<noteq> 160 * r' + 2 * c'"
proof -
  have "r = r'" if "160 * r + 2 * c = 160 * r' + 2 * c'"
    using assms that by linarith
  then show "160 * r + 2 * c = 160 * r' + 2 * c' \<longleftrightarrow> r = r' \<and> c = c'" by auto
next
  have "even (160 * r + 2 * c)" "even (160 * r' + 2 * c')" by simp_all
  then show "160 * r + 2 * c \<noteq> Suc (160 * r' + 2 * c')" "Suc (160 * r + 2 * c) \<noteq> 160 * r' + 2 * c'"
    by (metis even_Suc)+
qed

lemma screen_rows_put_cell:
  fixes s :: "'z console_scheme" and i :: int
  defines "t \<equiv> terminals s i"
  assumes "unat (scrn_r t) < 25" and "unat (scrn_c t) < 80"
  shows "screen_rows (mem (put_cell i ch a s)) (vid_mem t) =
    (screen_rows (mem s) (vid_mem t))[unat (scrn_r t) :=
       (screen_rows (mem s) (vid_mem t) ! unat (scrn_r t))[unat (scrn_c t) := (ch, a)]]"
proof (rule nth_equalityI)
  let ?r = "unat (scrn_r t)" and ?c = "unat (scrn_c t)"
  let ?m = "mem (put_cell i ch a s)"
  fix r assume "r < length (screen_rows ?m (vid_mem t))"
  then have r: "r < 25" by simp
  have byte: "screen_byte ?m (vid_mem t) k =
      (if k = Suc (160 * ?r + 2 * ?c) then a else if k = 160 * ?r + 2 * ?c then ch else screen_byte (mem s) (vid_mem t) k)"
    if "k < 4000" for k
    using screen_byte_put_cell [OF that, of i ch a s] by (simp add: t_def)
  have cell: "screen_rows ?m (vid_mem t) ! r ! c =
      (if r = ?r \<and> c = ?c then (ch, a) else screen_rows (mem s) (vid_mem t) ! r ! c)" if "c < 80" for c
    using that r cell_pos [OF that assms(3)] by (auto simp: screen_cell byte)
  then show "screen_rows ?m (vid_mem t) ! r = (screen_rows (mem s) (vid_mem t))[?r :=
      (screen_rows (mem s) (vid_mem t) ! ?r)[?c := (ch, a)]] ! r"
    using r assms(2,3) by (intro nth_equalityI) (auto simp: nth_list_update)
qed simp

lemma u8_arith:
  "unat (x :: u8) < 255 \<Longrightarrow> unat (x + 1) = Suc (unat x)"
  "x \<noteq> (0 :: u8) \<Longrightarrow> unat (x - 1) = unat x - 1"
  by (simp_all add: unat_word_ariths unat_minus_one)

lemma of_int_uint_u8 [simp]: "of_int (uint (x :: u8)) = x"
  by simp

lemma scroll_id: "unat (scrn_r (terminals s i)) < 25 \<Longrightarrow> scroll i s = s"
  by (simp add: scroll_def word_le_nat_alt)

lemma putc_finish_simps [simp]:
  "mem (putc_finish i s) = mem s" "iflag (putc_finish i s) = iflag s"
  "in_env (putc_finish i s) = in_env s" "in_cnt (putc_finish i s) = in_cnt s"
  "out_trace (putc_finish i s) = out_trace s @ (if i = vis_term_id s
     then cursor_out (uint (scrn_r (terminals s i))) (uint (scrn_c (terminals s i))) else [])"
  "terminals (putc_finish i s) = (terminals s)(i := (terminals s i)
     \<lparr>curs_r := scrn_r (terminals s i), curs_c := scrn_c (terminals s i)\<rparr>)"
  "vis_term_id (putc_finish i s) = vis_term_id s" "sched_term_id (putc_finish i s) = sched_term_id s"
  "color (putc_finish i s) = color s" "fg_color (putc_finish i s) = fg_color s"
  "bg_color (putc_finish i s) = bg_color s" "console.more (putc_finish i s) = console.more s"
  by (simp_all add: putc_finish_def Let_def)

lemma abs_screen_finish [simp]: "abs_screen i (putc_finish i s) = abs_screen i s"
  by (simp add: abs_screen_def)

lemma abs_newline:
  assumes "unat (scrn_r (terminals s i)) < 25"
  shows "abs_screen i (putc_newline i s) = sc_newline (color s) (abs_screen i s)"
    and "term_ok (terminals (putc_newline i s) i)"
    and "vid_mem (terminals (putc_newline i s) i) = vid_mem (terminals s i)"
proof -
  let ?s = "upd_term i (\<lambda>t. t\<lparr>scrn_r := scrn_r t + 1, scrn_c := 0\<rparr>) s"
  have r: "unat (scrn_r (terminals ?s i)) = Suc (unat (scrn_r (terminals s i)))"
    using assms by (simp add: u8_arith)
  show "abs_screen i (putc_newline i s) = sc_newline (color s) (abs_screen i s)"
  proof (cases "unat (scrn_r (terminals s i)) < 24")
    case True
    with r have "scroll i ?s = ?s" by (intro scroll_id) simp
    with True r show ?thesis by (simp add: putc_newline_def abs_screen_def sc_newline_def)
  next
    case False
    with r assms have "unat (scrn_r (terminals ?s i)) = unat (25 :: u8)" by simp
    then have 25: "scrn_r (terminals ?s i) = 25" by (simp only: word_unat_eq_iff)
    from screen_rows_scroll [OF 25] False 25 show ?thesis
      by (simp add: putc_newline_def abs_screen_def sc_newline_def)
  qed
  show "term_ok (terminals (putc_newline i s) i)"
    using r assms by (auto simp: putc_newline_def term_ok_unat word_le_nat_alt)
  show "vid_mem (terminals (putc_newline i s) i) = vid_mem (terminals s i)"
    by (simp add: putc_newline_def)
qed

lemma abs_put_cell:
  assumes "unat (scrn_r (terminals s i)) < 25" and "unat (scrn_c (terminals s i)) < 80"
  shows "abs_screen i (put_cell i ch a s) =
    sc_set (sc_row (abs_screen i s)) (sc_col (abs_screen i s)) (ch, a) (abs_screen i s)"
  using screen_rows_put_cell [OF assms] by (simp add: abs_screen_def sc_set_def)

lemma abs_char:
  assumes "term_ok (terminals s i)"
  shows "abs_screen i (putc_char i ch a s) =
      (let sc = (if sc_col (abs_screen i s) = 80 then sc_newline (color s) (abs_screen i s) else abs_screen i s)
       in sc_set (sc_row sc) (sc_col sc) (ch, a) (sc\<lparr>sc_col := Suc (sc_col sc)\<rparr>))"
    and "term_ok (terminals (putc_char i ch a s) i)"
    and "vid_mem (terminals (putc_char i ch a s) i) = vid_mem (terminals s i)"
proof -
  let ?t = "terminals s i"
  let ?s = "scroll i (upd_term i (\<lambda>t. t\<lparr>scrn_r := scrn_r t + scrn_c t div 80, scrn_c := scrn_c t mod 80\<rparr>) s)"
  have ok: "unat (scrn_r ?t) < 25" "unat (scrn_c ?t) \<le> 80" using assms by (simp_all add: term_ok_unat)
  have s: "?s = (if scrn_c ?t = 80 then putc_newline i s else s)"
  proof (cases "scrn_c ?t = 80")
    case True
    then have "(scrn_c ?t div 80 :: u8) = 1" "(scrn_c ?t mod 80 :: u8) = 0" by (simp_all add: True)
    then show ?thesis by (simp add: putc_newline_def upd_term_def True)
  next
    case False
    then have "unat (scrn_c ?t) \<noteq> unat (80 :: u8)" by (simp only: word_unat_eq_iff not_False_eq_True)
    with ok have lt: "unat (scrn_c ?t) < 80" by simp
    then have "scrn_c ?t < 80" by (simp add: word_less_nat_alt)
    then have "scrn_c ?t div 80 = 0" "scrn_c ?t mod 80 = scrn_c ?t"
      by (simp_all add: div_word_less mod_word_less)
    then have "upd_term i (\<lambda>t. t\<lparr>scrn_r := scrn_r t + scrn_c t div 80, scrn_c := scrn_c t mod 80\<rparr>) s = s"
      by (simp add: upd_term_def)
    with False ok show ?thesis by (simp add: scroll_id)
  qed
  have abs: "abs_screen i ?s = (if sc_col (abs_screen i s) = 80 then sc_newline (color s) (abs_screen i s) else abs_screen i s)"
  proof -
    have "scrn_c ?t = 80 \<longleftrightarrow> unat (scrn_c ?t) = 80" by (simp add: word_unat_eq_iff)
    then show ?thesis using abs_newline [OF ok(1)] by (simp add: s abs_screen_def)
  qed
  have pos: "unat (scrn_r (terminals ?s i)) < 25" "unat (scrn_c (terminals ?s i)) < 80"
    and vid: "vid_mem (terminals ?s i) = vid_mem ?t"
    using ok abs_newline [OF ok(1)] unfolding s
    by (auto simp: term_ok_unat putc_newline_def word_unat_eq_iff)
  have c: "unat (scrn_c (terminals ?s i) + 1) = Suc (unat (scrn_c (terminals ?s i)))"
    using pos by (simp add: u8_arith)
  have ch: "putc_char i ch a s = upd_term i (\<lambda>t. t\<lparr>scrn_c := scrn_c t + 1\<rparr>) (put_cell i ch a ?s)"
    by (simp only: putc_char_def Let_def)
  show "abs_screen i (putc_char i ch a s) =
      (let sc = (if sc_col (abs_screen i s) = 80 then sc_newline (color s) (abs_screen i s) else abs_screen i s)
       in sc_set (sc_row sc) (sc_col sc) (ch, a) (sc\<lparr>sc_col := Suc (sc_col sc)\<rparr>))"
    using abs_put_cell [OF pos, of ch a] c unfolding ch Let_def abs [symmetric]
    by (simp add: abs_screen_def sc_set_def del: scroll_simps)
  show "term_ok (terminals (putc_char i ch a s) i)"
    using pos c unfolding ch by (simp add: term_ok_unat del: scroll_simps)
  show "vid_mem (terminals (putc_char i ch a s) i) = vid_mem ?t"
    using vid unfolding ch by (simp del: scroll_simps)
qed

lemma term_ok_cursor [simp]: "term_ok (t\<lparr>curs_r := r, curs_c := c\<rparr>) = term_ok t"
  by (simp add: term_ok_def)

lemma putc_abs:
  assumes "term_ok (terminals s i)"
  shows "abs_screen i (putc i ch s) = sc_putc (color s) ch (abs_screen i s)"
    and "term_ok (terminals (putc i ch s) i)"
    and "vid_mem (terminals (putc i ch s) i) = vid_mem (terminals s i)"
proof -
  let ?t = "terminals s i"
  have ok: "unat (scrn_r ?t) < 25" "unat (scrn_c ?t) \<le> 80" using assms by (simp_all add: term_ok_unat)
  consider "ch = 10 \<or> ch = 13" | "ch = 8" "scrn_c ?t = 0" | "ch = 8" "scrn_c ?t \<noteq> 0" | "ch \<notin> {8, 10, 13}"
    by auto
  then have "abs_screen i (putc i ch s) = sc_putc (color s) ch (abs_screen i s)
    \<and> term_ok (terminals (putc i ch s) i) \<and> vid_mem (terminals (putc i ch s) i) = vid_mem ?t"
  proof cases
    case 1
    then show ?thesis using abs_newline [OF ok(1)] by (auto simp: putc_def sc_putc_def)
  next
    case 2
    then show ?thesis using assms by (simp add: putc_def sc_putc_def abs_screen_def)
  next
    case 3
    let ?s = "upd_term i (\<lambda>t. t\<lparr>scrn_c := scrn_c t - 1\<rparr>) s"
    have c: "unat (scrn_c ?t - 1) = unat (scrn_c ?t) - 1" "unat (scrn_c ?t) \<noteq> 0"
      using 3 by (simp_all add: u8_arith unat_eq_0)
    then have pos: "unat (scrn_r (terminals ?s i)) < 25" "unat (scrn_c (terminals ?s i)) < 80"
      using ok by simp_all
    have "abs_screen i ?s = (abs_screen i s)\<lparr>sc_col := sc_col (abs_screen i s) - 1\<rparr>"
      using c by (simp add: abs_screen_def)
    then show ?thesis
      using 3 ok c abs_put_cell [OF pos, of 32 "color s"]
      by (simp add: putc_def sc_putc_def Let_def term_ok_unat) (simp add: abs_screen_def)
  next
    case 4
    then show ?thesis using abs_char [OF assms] by (simp add: putc_def sc_putc_def)
  qed
  then show "abs_screen i (putc i ch s) = sc_putc (color s) ch (abs_screen i s)"
    "term_ok (terminals (putc i ch s) i)" "vid_mem (terminals (putc i ch s) i) = vid_mem ?t" by auto
qed

subsection \<open>Frame of the output routines\<close>

lemma mem_scroll_frame:
  assumes "unat (scrn_r (terminals s i)) \<le> 25" and "\<not> in_range (Phys, vid_mem (terminals s i)) 4000 q"
  shows "mem (scroll i s) q = mem s q"
proof (cases "scrn_r (terminals s i) = 25")
  case True
  show ?thesis
    unfolding scroll_mem [OF True] by (rule write_list_other) (use assms(2) in simp)
next
  case False
  then have "unat (scrn_r (terminals s i)) \<noteq> unat (25 :: u8)" by (simp only: word_unat_eq_iff not_False_eq_True)
  then show ?thesis using assms(1) by (simp add: scroll_id)
qed

lemma mem_put_cell_frame:
  assumes "unat (scrn_r (terminals s i)) < 25" and "unat (scrn_c (terminals s i)) < 80"
    and "\<not> in_range (Phys, vid_mem (terminals s i)) 4000 q"
  shows "mem (put_cell i ch a s) q = mem s q"
proof -
  let ?t = "terminals s i"
  let ?off = "160 * unat (scrn_r ?t) + 2 * unat (scrn_c ?t)"
  have "in_range (Phys, vid_mem ?t) 4000 (Phys, vid_mem ?t + of_nat k)" if "k < 4000" for k
    using that by (simp add: in_range_def)
  moreover have "?off < 4000" "Suc ?off < 4000" using assms(1,2) by linarith+
  ultimately have "q \<noteq> (Phys, vid_mem ?t + of_nat ?off)" "q \<noteq> (Phys, vid_mem ?t + of_nat (Suc ?off))"
    using assms(3) by blast+
  then show ?thesis by (simp add: put_cell_def Let_def cell_off_eq ac_simps)
qed

lemma putc_newline_simps [simp]:
  "vis_term_id (putc_newline i s) = vis_term_id s" "sched_term_id (putc_newline i s) = sched_term_id s"
  "color (putc_newline i s) = color s" "fg_color (putc_newline i s) = fg_color s" "bg_color (putc_newline i s) = bg_color s"
  "iflag (putc_newline i s) = iflag s" "in_env (putc_newline i s) = in_env s" "in_cnt (putc_newline i s) = in_cnt s"
  "console.more (putc_newline i s) = console.more s" "out_trace (putc_newline i s) = out_trace s"
  "j \<noteq> i \<Longrightarrow> terminals (putc_newline i s) j = terminals s j"
  by (simp_all add: putc_newline_def)

lemma putc_char_simps [simp]:
  "vis_term_id (putc_char i c a s) = vis_term_id s" "sched_term_id (putc_char i c a s) = sched_term_id s"
  "color (putc_char i c a s) = color s" "fg_color (putc_char i c a s) = fg_color s"
  "bg_color (putc_char i c a s) = bg_color s"
  "iflag (putc_char i c a s) = iflag s" "in_env (putc_char i c a s) = in_env s" "in_cnt (putc_char i c a s) = in_cnt s"
  "console.more (putc_char i c a s) = console.more s" "out_trace (putc_char i c a s) = out_trace s"
  "j \<noteq> i \<Longrightarrow> terminals (putc_char i c a s) j = terminals s j"
  by (simp_all add: putc_char_def Let_def)

lemma putc_simps [simp]:
  "vis_term_id (putc i c s) = vis_term_id s" "sched_term_id (putc i c s) = sched_term_id s"
  "color (putc i c s) = color s" "fg_color (putc i c s) = fg_color s" "bg_color (putc i c s) = bg_color s"
  "iflag (putc i c s) = iflag s" "in_env (putc i c s) = in_env s" "in_cnt (putc i c s) = in_cnt s"
  "console.more (putc i c s) = console.more s"
  "j \<noteq> i \<Longrightarrow> terminals (putc i c s) j = terminals s j"
  by (simp_all add: putc_def Let_def)

lemma mem_newline_frame:
  assumes "unat (scrn_r (terminals s i)) < 25" and "\<not> in_range (Phys, vid_mem (terminals s i)) 4000 q"
  shows "mem (putc_newline i s) q = mem s q"
  using assms by (simp add: putc_newline_def mem_scroll_frame u8_arith)

lemma mem_char_frame:
  assumes "term_ok (terminals s i)" and "\<not> in_range (Phys, vid_mem (terminals s i)) 4000 q"
  shows "mem (putc_char i c a s) q = mem s q"
proof -
  let ?t = "terminals s i"
  let ?u = "upd_term i (\<lambda>t. t\<lparr>scrn_r := scrn_r t + scrn_c t div 80, scrn_c := scrn_c t mod 80\<rparr>) s"
  have ok: "unat (scrn_r ?t) < 25" "unat (scrn_c ?t) \<le> 80" using assms(1) by (simp_all add: term_ok_unat)
  have div: "unat (scrn_c ?t div 80) \<le> 1" "unat (scrn_c ?t mod 80) < 80"
    using ok by (auto simp: unat_div unat_mod)
  have "unat (scrn_r ?t + scrn_c ?t div 80) = unat (scrn_r ?t) + unat (scrn_c ?t div 80)"
    using ok div by (intro unat_add_lem [THEN iffD1]) simp
  then have r: "unat (scrn_r (terminals ?u i)) \<le> 25" "unat (scrn_c (terminals ?u i)) < 80"
    using ok div by simp_all
  have pos: "unat (scrn_r (terminals (scroll i ?u) i)) < 25" "unat (scrn_c (terminals (scroll i ?u) i)) < 80"
    "vid_mem (terminals (scroll i ?u) i) = vid_mem ?t"
    using r(2) by (simp_all add: word_le_nat_alt)
  have "mem (putc_char i c a s) q = mem (put_cell i c a (scroll i ?u)) q"
    by (simp add: putc_char_def Let_def)
  also have "\<dots> = mem (scroll i ?u) q"
    using assms(2) pos by (intro mem_put_cell_frame) simp_all
  also have "\<dots> = mem s q"
    using assms(2) r(1) by (subst mem_scroll_frame) simp_all
  finally show ?thesis .
qed

lemma mem_putc_frame:
  assumes "term_ok (terminals s i)" and "\<not> in_range (Phys, vid_mem (terminals s i)) 4000 q"
  shows "mem (putc i c s) q = mem s q"
proof -
  have ok: "unat (scrn_r (terminals s i)) < 25" "unat (scrn_c (terminals s i)) \<le> 80"
    using assms(1) by (simp_all add: term_ok_unat)
  let ?s = "upd_term i (\<lambda>t. t\<lparr>scrn_c := scrn_c t - 1\<rparr>) s"
  have "mem (put_cell i 32 (color s) ?s) q = mem s q" if "scrn_c (terminals s i) \<noteq> 0"
    using that assms(2) ok by (subst mem_put_cell_frame) (auto simp: u8_arith unat_eq_0)
  then show ?thesis
    using assms ok by (auto simp: putc_def Let_def mem_newline_frame mem_char_frame)
qed

text \<open>
  Whatever the position, the output routines write no object other than the physical memory, and change
  of a terminal nothing but its position.
\<close>

lemma mem_scroll_block: "fst q \<noteq> Phys \<Longrightarrow> mem (scroll i s) q = mem s q"
  by (simp add: scroll_def Let_def memcpy_other_block memset_word_eq write_list_other_block)

lemma mem_put_cell_block: "fst q \<noteq> Phys \<Longrightarrow> mem (put_cell i c a s) q = mem s q"
  by (auto simp: put_cell_def Let_def)

lemma mem_putc_block: "fst q \<noteq> Phys \<Longrightarrow> mem (putc i c s) q = mem s q"
  by (simp add: putc_def putc_newline_def putc_char_def Let_def mem_scroll_block mem_put_cell_block)

lemma mem_clear_loop_block: "fst q \<noteq> Phys \<Longrightarrow> mem (clear_loop k s) q = mem s q"
  by (induction k arbitrary: s) (auto simp: Let_def)

lemma clear_loop_simps [simp]:
  "terminals (clear_loop k s) = terminals s" "vis_term_id (clear_loop k s) = vis_term_id s"
  "iflag (clear_loop k s) = iflag s" "console.more (clear_loop k s) = console.more s"
  by (induction k arbitrary: s) (simp_all add: Let_def)

definition same_line :: "term_t \<Rightarrow> term_t \<Rightarrow> bool" where
  "same_line t u \<longleftrightarrow> t = u\<lparr>scrn_r := scrn_r t, scrn_c := scrn_c t, curs_r := curs_r t, curs_c := curs_c t\<rparr>"

lemma putc_same_line: "same_line (terminals (putc i c s) j) (terminals s j)"
  by (cases "j = i") (auto simp: same_line_def putc_def putc_finish_def putc_newline_def putc_char_def Let_def)

lemma same_line_fields:
  assumes "same_line t u"
  shows "key_buf_index t = key_buf_index u" "new_line t = new_line u" "hist_buf_index t = hist_buf_index u"
    "cur_hist_index t = cur_hist_index u" "vid_mem t = vid_mem u" "cur_task t = cur_task u"
    "t_esp t = t_esp u" "t_ebp t = t_ebp u"
  by (subst assms [unfolded same_line_def], simp)+

text \<open>
  C8: \<^verbatim>\<open>putc\<close> implements the abstract screen. On a terminal whose position is on the screen, printing
  any character does to its rows and position what the specification says, the position stays on
  the screen, no byte of memory outside the 4000 bytes of that screen changes, and the other terminals
  and the machine's registers keep their values.
\<close>

theorem putc_refines:
  assumes "term_ok (terminals s i)"
  shows "abs_screen i (putc i c s) = sc_putc (color s) c (abs_screen i s)
    \<and> term_ok (terminals (putc i c s) i)
    \<and> (\<forall>q. in_range (Phys, vid_mem (terminals s i)) 4000 q \<or> mem (putc i c s) q = mem s q)
    \<and> (\<forall>j. j = i \<or> terminals (putc i c s) j = terminals s j)
    \<and> console.more (putc i c s) = console.more s"
  using putc_abs [OF assms] mem_putc_frame [OF assms] putc_simps(9,10) by metis

definition sample_term :: term_t where
  "sample_term = \<lparr>term_id = 0, curs_r = 24, curs_c = 80, scrn_c = 80, scrn_r = 24, vid_mem = VIDEO_ADDR,
     key_buf_index = 0, new_line = False, hist_buf_index = 0, cur_hist_index = 0, t_esp = 0, t_ebp = 0, cur_task = 0\<rparr>"

definition sample_console :: console where
  "sample_console = \<lparr>mem = (\<lambda>_. 7), out_trace = [], in_env = (\<lambda>_ _. 0), in_cnt = 0, iflag = True,
     terminals = (\<lambda>_. sample_term), vis_term_id = 0, sched_term_id = 0, fg_color = 7, bg_color = 0, color = 7\<rparr>"

lemma sample_term_ok: "term_ok (terminals sample_console i)"
  by (simp add: sample_console_def sample_term_def term_ok_def)

theorem putc_refines_witness:
  "abs_screen 1 (putc 1 65 sample_console) = sc_putc 7 65 (abs_screen 1 sample_console)
    \<and> term_ok (terminals (putc 1 65 sample_console) 1)
    \<and> terminals (putc 1 65 sample_console) 2 = sample_term"
  using putc_refines [OF sample_term_ok, of 1 65] by (simp add: sample_console_def)

subsection \<open>Strings\<close>

lemma puts_loop_append: "puts_loop i (xs @ ys) s = puts_loop i ys (puts_loop i xs s)"
  by (induction xs arbitrary: s) simp_all

lemma puts_loop_simps [simp]:
  "vis_term_id (puts_loop i cs s) = vis_term_id s" "sched_term_id (puts_loop i cs s) = sched_term_id s"
  "color (puts_loop i cs s) = color s" "fg_color (puts_loop i cs s) = fg_color s"
  "bg_color (puts_loop i cs s) = bg_color s" "iflag (puts_loop i cs s) = iflag s"
  "in_env (puts_loop i cs s) = in_env s" "in_cnt (puts_loop i cs s) = in_cnt s"
  "console.more (puts_loop i cs s) = console.more s"
  "j \<noteq> i \<Longrightarrow> terminals (puts_loop i cs s) j = terminals s j"
  by (induction cs arbitrary: s) simp_all

lemma puts_loop_run: "puts_loop i cs s = run (\<lambda>s c. putc i c s) s cs"
  by (induction cs arbitrary: s) simp_all

definition sc_step :: "u8 \<times> screen \<Rightarrow> u8 \<Rightarrow> u8 \<times> screen" where
  "sc_step sc c = (fst sc, sc_putc (fst sc) c (snd sc))"

interpretation scr: simulation "\<lambda>s c. putc i c s" "\<lambda>s. term_ok (terminals s i)"
  "\<lambda>s. (color s, abs_screen i s)" sc_step for i
  by unfold_locales (simp_all add: sc_step_def putc_abs)

lemma run_sc_step: "run sc_step (a, sc) cs = (a, fold (sc_putc a) cs sc)"
  by (induction cs arbitrary: sc) (simp_all add: sc_step_def)

lemma puts_loop_ok: "term_ok (terminals s i) \<Longrightarrow> term_ok (terminals (puts_loop i cs s) i)"
  unfolding puts_loop_run by (rule scr.inv_run)

lemma puts_loop_abs:
  "term_ok (terminals s i) \<Longrightarrow> abs_screen i (puts_loop i cs s) = fold (sc_putc (color s)) cs (abs_screen i s)"
  using scr.abs_run [of s i cs] by (simp add: puts_loop_run run_sc_step)

lemma puts_loop_frame:
  assumes "term_ok (terminals s i)"
  shows "vid_mem (terminals (puts_loop i cs s) i) = vid_mem (terminals s i)"
    and "\<not> in_range (Phys, vid_mem (terminals s i)) 4000 q \<Longrightarrow> mem (puts_loop i cs s) q = mem s q"
  using assms by (induction cs arbitrary: s) (simp_all add: putc_abs mem_putc_frame)

text \<open>
  \<^verbatim>\<open>puts\<close> prints the whole string. On a terminal whose position is on the screen it returns the number
  of bytes, the screen afterwards is the abstract screen after the characters in order, scrolling
  included, and no other memory, terminal or device changes.
\<close>

theorem puts_refines:
  assumes "term_ok (terminals s i)" and "puts i cs s = (n, s')"
  shows "n = int (length cs) \<and> abs_screen i s' = fold (sc_putc (color s)) cs (abs_screen i s)
    \<and> term_ok (terminals s' i)
    \<and> (\<forall>q. in_range (Phys, vid_mem (terminals s i)) 4000 q \<or> mem s' q = mem s q)
    \<and> (\<forall>j. j = i \<or> terminals s' j = terminals s j) \<and> console.more s' = console.more s"
  using assms puts_loop_frame(2) [OF assms(1)] puts_loop_simps(10) [of _ i cs s]
  by (auto simp: puts_def puts_loop_abs puts_loop_ok)

theorem puts_refines_witness:
  "\<exists>s'. puts 2 (bytes_of ''ok'') sample_console = (2, s')
    \<and> abs_screen 2 s' = fold (sc_putc 7) (bytes_of ''ok'') (abs_screen 2 sample_console)"
  using puts_refines [OF sample_term_ok, of 2 "bytes_of ''ok''"] by (simp add: puts_def sample_console_def)

lemma itoa_str_chars:
  assumes "2 \<le> b" and "b \<le> 36"
  shows "0 \<notin> set (itoa_str v b)" and "0 < length (itoa_str v b)" and "length (itoa_str v b) \<le> 32"
proof -
  have "d < 36" if "d \<in> set (digits b (unat v))" for d
    using that digits_less [OF assms(1), of "unat v"] assms(2) by fastforce
  then show "0 \<notin> set (itoa_str v b)" using digit_char_nonzero by (auto simp: itoa_str_def)
  show "0 < length (itoa_str v b)" "length (itoa_str v b) \<le> 32"
    using digits_step [OF assms(1), of "unat v"] length_digits_u32 [OF assms(1), of v]
    by (auto simp: itoa_str_def unat_gt_0)
qed

lemma string_at_cstr: "cstr (rdr m p) bs \<Longrightarrow> string_at m p = bs"
  unfolding string_at_def by (subst cstr_strlen, assumption)
    (auto simp: cstr_def rdr_def intro!: nth_equalityI)

lemma string_at_itoa:
  assumes "2 \<le> b" and "b \<le> 36"
  shows "string_at (write_list m p (itoa_str v b @ [0])) p = itoa_str v b"
  using itoa_str_chars [OF assms, of v] by (intro string_at_cstr cstr_write_list) auto

lemma conv_itoa_eq:
  assumes "2 \<le> unat radix" and "unat radix \<le> 36"
  shows "conv_itoa m v off radix = write_list m (Local 0, off) (itoa_str v (unat radix) @ [0])"
  using itoa_eq [OF assms] by (simp add: conv_itoa_def)

lemma conv_u_eq: "conv_u cb v = itoa_str v 10"
  using conv_itoa_eq [of 10 cb v 0] by (simp add: conv_u_def string_at_itoa)

lemma conv_x_eq: "conv_x cb v = itoa_str v 16"
  using conv_itoa_eq [of 16 cb v 0] by (simp add: conv_x_def string_at_itoa)

lemma zero_fill_eq: "zero_fill m i k = write_list m (Local 0, of_nat i) (replicate k (of_char CHR ''0''))"
  by (induction m i k rule: zero_fill.induct) (simp_all add: padd_simps fun_upd_def ac_simps)

lemma length_digits_base: "2 \<le> b \<Longrightarrow> n < b ^ k \<Longrightarrow> length (digits b n) \<le> k"
proof (induction k arbitrary: n)
  case (Suc k)
  then have "n div b < b ^ k" by (intro less_mult_imp_div_less) (simp add: mult.commute)
  with Suc show ?case by (cases "n = 0") (simp_all add: digits_step [OF Suc.prems(1), of n])
qed simp

lemma length_hex: "length (itoa_str v 16) \<le> 8"
proof -
  have "unat v < 16 ^ 8" using unat_u32_bound [of v] by simp
  then have "length (digits 16 (unat v)) \<le> 8" by (intro length_digits_base) simp_all
  then show ?thesis by (simp add: itoa_str_def)
qed

definition hex8 :: "u32 \<Rightarrow> u8 list" where
  "hex8 v = replicate (8 - length (itoa_str v 16)) (of_char CHR ''0'') @ itoa_str v 16"

lemma cstr_read_list: "read_list m p (Suc (length bs)) = bs @ [0] \<Longrightarrow> 0 \<notin> set bs \<Longrightarrow> cstr (rdr m p) bs"
proof -
  assume r: "read_list m p (Suc (length bs)) = bs @ [0]" and nz: "0 \<notin> set bs"
  have "rdr m p i = (bs @ [0]) ! i" if "i < Suc (length bs)" for i
    using that arg_cong [OF r, of "\<lambda>xs. xs ! i"] by (simp add: rdr_def)
  with nz show ?thesis by (auto simp: cstr_def nth_append)
qed

lemma conv_alt_x_eq: "conv_alt_x cb v = hex8 v"
proof -
  let ?xs = "itoa_str v 16"
  let ?n = "length ?xs" and ?zs = "replicate (8 - length ?xs) (of_char CHR ''0'' :: u8)"
  let ?m = "write_list cb (Local 0, 8) (?xs @ [0])"
  let ?z = "write_list ?m (Local 0, of_nat ?n) ?zs"
  have n: "?n \<le> 8" by (rule length_hex)
  have nz: "0 \<notin> set ?xs" by (rule itoa_str_chars(1)) simp_all
  have "read_list ?z (Local 0, of_nat ?n) (8 - ?n + Suc ?n) = ?zs @ read_list ?z (Local 0, 8) (Suc ?n)"
    unfolding read_list_add using n by (simp add: read_list_write_list padd_simps of_nat_diff)
  also have "read_list ?z (Local 0, 8) (Suc ?n) = read_list ?m (Local 0, 8) (Suc ?n)"
  proof (rule read_list_write_list_separate)
    have eq: "(8 + of_nat j - of_nat ?n :: u32) = of_nat (8 + j - ?n)" for j
      using n by (simp add: of_nat_diff)
    have "unat (8 + of_nat j - of_nat ?n :: u32) = 8 + j - ?n" if "j < Suc ?n" for j
      unfolding eq using n that by (intro unat_of_nat_u32) simp
    then show "separate (Local 0, of_nat ?n) (length ?zs) (Local 0, 8) (Suc ?n)"
      using n by (auto simp: separate_def in_range_def)
  qed
  also have "\<dots> = ?xs @ [0]" using n by (subst read_list_write_list) simp_all
  finally have "cstr (rdr ?z (Local 0, of_nat ?n)) (hex8 v)"
    using nz n by (intro cstr_read_list) (auto simp: hex8_def)
  then show ?thesis
    using conv_itoa_eq [of 16 cb v 8] by (simp add: conv_alt_x_def Let_def string_at_itoa zero_fill_eq string_at_cstr)
qed

definition dec_str :: "u32 \<Rightarrow> u8 list" where
  "dec_str v = (if v <s 0 then of_char CHR ''-'' # itoa_str (- v) 10 else itoa_str v 10)"

lemma conv_d_eq: "conv_d cb v = dec_str v"
proof -
  let ?xs = "of_char CHR ''-'' # itoa_str (- v) 10"
  have "cstr (rdr (write_list cb (Local 0, 0) (?xs @ [0])) (Local 0, 0)) ?xs"
    using itoa_str_chars [of 10 "- v"] by (intro cstr_write_list) auto
  then have "string_at (write_list (cb((Local 0, 0) := of_char CHR ''-'')) (Local 0, 1) (itoa_str (- v) 10 @ [0])) (Local 0, 0) = ?xs"
    by (simp add: string_at_cstr padd_simps)
  then show ?thesis
    using conv_itoa_eq [of 10 cb v 0] conv_itoa_eq [of 10 _ "- v" 1]
    by (simp add: conv_d_def dec_str_def string_at_itoa)
qed

text \<open>The text a format prints: the specification of \<^verbatim>\<open>printf\<close>.\<close>

fun expand :: "u8 list \<Rightarrow> parg list \<Rightarrow> u8 list option"
  and expand_conv :: "bool \<Rightarrow> u8 list \<Rightarrow> parg list \<Rightarrow> u8 list option" where
  "expand [] args = Some []"
| "expand (c # buf) args =
     (if c = of_char CHR ''%'' then expand_conv False buf args else map_option ((#) c) (expand buf args))"
| "expand_conv alt [] args = None"
| "expand_conv alt (c # buf) args =
     (if c = of_char CHR ''%'' then map_option ((#) c) (expand buf args)
      else if c = of_char CHR ''#'' then expand_conv True buf args
      else if c = of_char CHR ''x'' then pop_w args \<bind> (\<lambda>(w, r). map_option ((@) (if alt then hex8 w else itoa_str w 16)) (expand buf r))
      else if c = of_char CHR ''u'' then pop_w args \<bind> (\<lambda>(w, r). map_option ((@) (itoa_str w 10)) (expand buf r))
      else if c = of_char CHR ''d'' then pop_w args \<bind> (\<lambda>(w, r). map_option ((@) (dec_str w)) (expand buf r))
      else if c = of_char CHR ''c'' then pop_w args \<bind> (\<lambda>(w, r). map_option ((#) (ucast w)) (expand buf r))
      else if c = of_char CHR ''s'' then pop_s args \<bind> (\<lambda>(bs, r). map_option ((@) bs) (expand buf r))
      else expand buf args)"

lemma printf_loop_expand:
  "printf_loop cb buf args s = map_option (\<lambda>out. puts_loop (sched_term_id s) out s) (expand buf args)"
  "format_char cb alternate buf args s = map_option (\<lambda>out. puts_loop (sched_term_id s) out s) (expand_conv alternate buf args)"
proof (induction cb buf args s and cb alternate buf args s rule: printf_loop_format_char.induct)
  case (4 cb alternate c buf args s)
  then show ?case
    by (simp add: option.map_comp comp_def psched_def puts_loop_append conv_u_eq conv_x_eq conv_d_eq conv_alt_x_eq
        split: option.split bind_split)
qed (simp_all add: option.map_comp comp_def)

lemma printf_expands_loop:
  "printf format args s = map_option (\<lambda>out. (int (length format), puts_loop (sched_term_id s) out s))
     (expand (bytes_of format) args)"
  by (simp add: printf_def printf_loop_expand option.map_comp comp_def)

text \<open>
  C36: \<^verbatim>\<open>printf\<close> prints its expansion. Formatting a string of any length and any arguments has the effect
  of printing, with \<^verbatim>\<open>puts\<close>, the expanded text on the scheduled terminal: decimal and hexadecimal numbers
  without leading zeros, \<^verbatim>\<open>%#x\<close> with exactly eight digits, \<^verbatim>\<open>%d\<close> with its sign. It is undefined exactly when
  the expansion is, that is, when an argument is missing or the format ends inside a conversion.
\<close>

theorem printf_expands:
  "printf format args s = map_option (\<lambda>out. (int (length format), snd (puts (sched_term_id s) out s)))
     (expand (bytes_of format) args)"
  by (simp add: printf_expands_loop puts_def)

end
