(* ===== verification/State.thy ===== *)
theory State
  imports Console
begin

text \<open>
  The global state of the kernel: the console extended, component by component, with the global and
  static variables of \<^verbatim>\<open>student-distrib\<close>. A process control block is found by its address, with
  \<open>0\<close> for \<^verbatim>\<open>NULL\<close>; its two character arrays are the objects \<open>PcbArg\<close> and \<open>PcbCmd\<close> of the memory.
\<close>

subsection \<open>Process control blocks\<close>

text \<open>
  The jump tables: \<^verbatim>\<open>empty_f_ops_tab\<close>, \<^verbatim>\<open>stdin\<close>, \<^verbatim>\<open>stdout\<close>, \<^verbatim>\<open>rtc_jt\<close>, \<^verbatim>\<open>dir_jt\<close> and \<^verbatim>\<open>regf_jt\<close>. A value is the
  address of one of these tables.
\<close>

datatype f_ops_table = empty_f_ops_tab | stdin | stdout | rtc_jt | dir_jt | regf_jt

datatype status_t = NOT_USED | IN_USE

record fdesc_t =
  file_ops :: f_ops_table
  inode :: u32
  file_pos :: u32
  flags :: status_t

record pcb_t =
  io_files :: "nat \<Rightarrow> fdesc_t"
  esp :: u32
  ebp :: u32
  esp0 :: u32
  page_addr :: u32
  parent_task :: u32
  fd_status :: u32
  term_num :: u8
  pid :: u32
  pcb_num :: u32

abbreviation NULL :: u32 where "NULL \<equiv> 0"
abbreviation MAX_DESC :: nat where "MAX_DESC \<equiv> 8"
abbreviation END_OF_KERNEL_PAGE :: u32 where "END_OF_KERNEL_PAGE \<equiv> 0x800000"
abbreviation PCB_PLUS_STACK :: u32 where "PCB_PLUS_STACK \<equiv> 0x2000"

subsection \<open>Global variables\<close>

text \<open>\<^verbatim>\<open>i8259.c\<close>, \<^verbatim>\<open>rtc.c\<close>\<close>

record pic = console +
  master_mask :: u8
  slave_mask :: u8

record rtc = pic +
  intr_occured :: bool
  rtc_freq :: u32

text \<open>
  \<^verbatim>\<open>paging.c\<close>: the control registers, and the address the linker gives to \<^verbatim>\<open>page_directory\<close>. The page
  directory and the page tables themselves are words of physical memory.
\<close>

record paging = rtc +
  cr0 :: u32
  cr3 :: u32
  cr4 :: u32
  page_directory :: u32

text \<open>\<^verbatim>\<open>file_system.c\<close>, \<^verbatim>\<open>pcb.c\<close>, \<^verbatim>\<open>syscalls.c\<close>\<close>

record procs = paging +
  fs_addr :: u32
  pcbs :: "u32 \<Rightarrow> pcb_t"
  cur_pcb :: u32
  pcb_status :: u32
  numproc :: u32
  except_raised :: bool
  starting_new_shell :: bool
  tss_esp0 :: u32

text \<open>\<^verbatim>\<open>keyboard.c\<close>, \<^verbatim>\<open>mouse.c\<close>\<close>

record keyboard = procs +
  ctrl :: bool
  alt :: bool
  caps_lock :: bool
  l_shift :: bool
  r_shift :: bool
  rtc_loop :: bool

record kernel = keyboard +
  cycle :: nat
  mouse_bytes :: "u8 list"
  x_neg :: bool
  y_neg :: bool
  mouse_x_pos :: u8
  mouse_y_pos :: u8
  old_char :: u8

definition upd_pcb :: "u32 \<Rightarrow> (pcb_t \<Rightarrow> pcb_t) \<Rightarrow> kernel \<Rightarrow> kernel" where
  "upd_pcb p f s = s\<lparr>pcbs := (pcbs s)(p := f (pcbs s p))\<rparr>"

definition upd_fd :: "u32 \<Rightarrow> nat \<Rightarrow> (fdesc_t \<Rightarrow> fdesc_t) \<Rightarrow> kernel \<Rightarrow> kernel" where
  "upd_fd p fd f s = upd_pcb p (\<lambda>b. b\<lparr>io_files := (io_files b)(fd := f (io_files b fd))\<rparr>) s"

text \<open>
  A message of the kernel whose arguments match its format, so that \<^const>\<open>printf\<close> is defined on it.
\<close>

definition kprintf :: "string \<Rightarrow> parg list \<Rightarrow> 'z console_scheme \<Rightarrow> 'z console_scheme" where
  "kprintf format args s = (case printf format args s of None \<Rightarrow> s | Some (n, s') \<Rightarrow> s')"

subsection \<open>Accessor rules\<close>

text \<open>
  The console and machine primitives keep every other global variable. Each bundle follows from the
  fact that the primitive keeps the extension of the record it works on.
\<close>

lemma more_fields:
  fixes s s' :: kernel
  assumes "console.more s' = console.more s"
  shows "master_mask s' = master_mask s" "slave_mask s' = slave_mask s" "intr_occured s' = intr_occured s" "rtc_freq s' = rtc_freq s" "cr0 s' = cr0 s"
    "cr3 s' = cr3 s" "cr4 s' = cr4 s" "page_directory s' = page_directory s" "fs_addr s' = fs_addr s" "pcbs s' = pcbs s"
    "cur_pcb s' = cur_pcb s" "pcb_status s' = pcb_status s" "numproc s' = numproc s" "except_raised s' = except_raised s" "starting_new_shell s' = starting_new_shell s"
    "tss_esp0 s' = tss_esp0 s" "ctrl s' = ctrl s" "alt s' = alt s" "caps_lock s' = caps_lock s" "l_shift s' = l_shift s"
    "r_shift s' = r_shift s" "rtc_loop s' = rtc_loop s" "cycle s' = cycle s" "mouse_bytes s' = mouse_bytes s" "x_neg s' = x_neg s"
    "y_neg s' = y_neg s" "mouse_x_pos s' = mouse_x_pos s" "mouse_y_pos s' = mouse_y_pos s" "old_char s' = old_char s"
  using assms by (cases s; cases s'; simp)+

lemma kprintf_out: "\<exists>out. kprintf format args s = puts_loop (sched_term_id s) out s"
  by (auto simp: kprintf_def printf_expands_loop split: option.split intro: exI [of _ "[]"])

lemma kprintf_simps [simp]:
  "vis_term_id (kprintf f a s) = vis_term_id s" "sched_term_id (kprintf f a s) = sched_term_id s"
  "color (kprintf f a s) = color s" "iflag (kprintf f a s) = iflag s"
  "in_env (kprintf f a s) = in_env s" "in_cnt (kprintf f a s) = in_cnt s"
  "console.more (kprintf f a s) = console.more s"
  using kprintf_out [of f a s] by auto

lemma inb_simps [simp]:
  "mem (snd (inb p s)) = mem s" "out_trace (snd (inb p s)) = out_trace s" "iflag (snd (inb p s)) = iflag s"
  "in_env (snd (inb p s)) = in_env s" "in_cnt (snd (inb p s)) = Suc (in_cnt s)"
  "machine.more (snd (inb p s)) = machine.more s"
  "fst (inb p s) = ucast (in_env s (in_cnt s) p)"
  by (simp_all add: inb_def)

lemma putc_fields [simp]:
  fixes s :: kernel
  shows "master_mask (putc i c s) = master_mask s" "slave_mask (putc i c s) = slave_mask s" "intr_occured (putc i c s) = intr_occured s" "rtc_freq (putc i c s) = rtc_freq s"
    "cr0 (putc i c s) = cr0 s" "cr3 (putc i c s) = cr3 s" "cr4 (putc i c s) = cr4 s" "page_directory (putc i c s) = page_directory s"
    "fs_addr (putc i c s) = fs_addr s" "pcbs (putc i c s) = pcbs s" "cur_pcb (putc i c s) = cur_pcb s" "pcb_status (putc i c s) = pcb_status s"
    "numproc (putc i c s) = numproc s" "except_raised (putc i c s) = except_raised s" "starting_new_shell (putc i c s) = starting_new_shell s" "tss_esp0 (putc i c s) = tss_esp0 s"
    "ctrl (putc i c s) = ctrl s" "alt (putc i c s) = alt s" "caps_lock (putc i c s) = caps_lock s" "l_shift (putc i c s) = l_shift s"
    "r_shift (putc i c s) = r_shift s" "rtc_loop (putc i c s) = rtc_loop s" "cycle (putc i c s) = cycle s" "mouse_bytes (putc i c s) = mouse_bytes s"
    "x_neg (putc i c s) = x_neg s" "y_neg (putc i c s) = y_neg s" "mouse_x_pos (putc i c s) = mouse_x_pos s" "mouse_y_pos (putc i c s) = mouse_y_pos s"
    "old_char (putc i c s) = old_char s"
  by (rule more_fields, simp)+

lemma puts_loop_fields [simp]:
  fixes s :: kernel
  shows "master_mask (puts_loop i cs s) = master_mask s" "slave_mask (puts_loop i cs s) = slave_mask s" "intr_occured (puts_loop i cs s) = intr_occured s" "rtc_freq (puts_loop i cs s) = rtc_freq s"
    "cr0 (puts_loop i cs s) = cr0 s" "cr3 (puts_loop i cs s) = cr3 s" "cr4 (puts_loop i cs s) = cr4 s" "page_directory (puts_loop i cs s) = page_directory s"
    "fs_addr (puts_loop i cs s) = fs_addr s" "pcbs (puts_loop i cs s) = pcbs s" "cur_pcb (puts_loop i cs s) = cur_pcb s" "pcb_status (puts_loop i cs s) = pcb_status s"
    "numproc (puts_loop i cs s) = numproc s" "except_raised (puts_loop i cs s) = except_raised s" "starting_new_shell (puts_loop i cs s) = starting_new_shell s" "tss_esp0 (puts_loop i cs s) = tss_esp0 s"
    "ctrl (puts_loop i cs s) = ctrl s" "alt (puts_loop i cs s) = alt s" "caps_lock (puts_loop i cs s) = caps_lock s" "l_shift (puts_loop i cs s) = l_shift s"
    "r_shift (puts_loop i cs s) = r_shift s" "rtc_loop (puts_loop i cs s) = rtc_loop s" "cycle (puts_loop i cs s) = cycle s" "mouse_bytes (puts_loop i cs s) = mouse_bytes s"
    "x_neg (puts_loop i cs s) = x_neg s" "y_neg (puts_loop i cs s) = y_neg s" "mouse_x_pos (puts_loop i cs s) = mouse_x_pos s" "mouse_y_pos (puts_loop i cs s) = mouse_y_pos s"
    "old_char (puts_loop i cs s) = old_char s"
  by (rule more_fields, simp)+

lemma kprintf_fields [simp]:
  fixes s :: kernel
  shows "master_mask (kprintf fm a s) = master_mask s" "slave_mask (kprintf fm a s) = slave_mask s" "intr_occured (kprintf fm a s) = intr_occured s" "rtc_freq (kprintf fm a s) = rtc_freq s"
    "cr0 (kprintf fm a s) = cr0 s" "cr3 (kprintf fm a s) = cr3 s" "cr4 (kprintf fm a s) = cr4 s" "page_directory (kprintf fm a s) = page_directory s"
    "fs_addr (kprintf fm a s) = fs_addr s" "pcbs (kprintf fm a s) = pcbs s" "cur_pcb (kprintf fm a s) = cur_pcb s" "pcb_status (kprintf fm a s) = pcb_status s"
    "numproc (kprintf fm a s) = numproc s" "except_raised (kprintf fm a s) = except_raised s" "starting_new_shell (kprintf fm a s) = starting_new_shell s" "tss_esp0 (kprintf fm a s) = tss_esp0 s"
    "ctrl (kprintf fm a s) = ctrl s" "alt (kprintf fm a s) = alt s" "caps_lock (kprintf fm a s) = caps_lock s" "l_shift (kprintf fm a s) = l_shift s"
    "r_shift (kprintf fm a s) = r_shift s" "rtc_loop (kprintf fm a s) = rtc_loop s" "cycle (kprintf fm a s) = cycle s" "mouse_bytes (kprintf fm a s) = mouse_bytes s"
    "x_neg (kprintf fm a s) = x_neg s" "y_neg (kprintf fm a s) = y_neg s" "mouse_x_pos (kprintf fm a s) = mouse_x_pos s" "mouse_y_pos (kprintf fm a s) = mouse_y_pos s"
    "old_char (kprintf fm a s) = old_char s"
  by (rule more_fields, simp)+

lemma upd_term_fields [simp]:
  fixes s :: kernel
  shows "master_mask (upd_term i f s) = master_mask s" "slave_mask (upd_term i f s) = slave_mask s" "intr_occured (upd_term i f s) = intr_occured s" "rtc_freq (upd_term i f s) = rtc_freq s"
    "cr0 (upd_term i f s) = cr0 s" "cr3 (upd_term i f s) = cr3 s" "cr4 (upd_term i f s) = cr4 s" "page_directory (upd_term i f s) = page_directory s"
    "fs_addr (upd_term i f s) = fs_addr s" "pcbs (upd_term i f s) = pcbs s" "cur_pcb (upd_term i f s) = cur_pcb s" "pcb_status (upd_term i f s) = pcb_status s"
    "numproc (upd_term i f s) = numproc s" "except_raised (upd_term i f s) = except_raised s" "starting_new_shell (upd_term i f s) = starting_new_shell s" "tss_esp0 (upd_term i f s) = tss_esp0 s"
    "ctrl (upd_term i f s) = ctrl s" "alt (upd_term i f s) = alt s" "caps_lock (upd_term i f s) = caps_lock s" "l_shift (upd_term i f s) = l_shift s"
    "r_shift (upd_term i f s) = r_shift s" "rtc_loop (upd_term i f s) = rtc_loop s" "cycle (upd_term i f s) = cycle s" "mouse_bytes (upd_term i f s) = mouse_bytes s"
    "x_neg (upd_term i f s) = x_neg s" "y_neg (upd_term i f s) = y_neg s" "mouse_x_pos (upd_term i f s) = mouse_x_pos s" "mouse_y_pos (upd_term i f s) = mouse_y_pos s"
    "old_char (upd_term i f s) = old_char s"
  by (rule more_fields, simp)+

lemma outb_fields [simp]:
  fixes s :: kernel
  shows "master_mask (outb d p s) = master_mask s" "slave_mask (outb d p s) = slave_mask s" "intr_occured (outb d p s) = intr_occured s" "rtc_freq (outb d p s) = rtc_freq s"
    "cr0 (outb d p s) = cr0 s" "cr3 (outb d p s) = cr3 s" "cr4 (outb d p s) = cr4 s" "page_directory (outb d p s) = page_directory s"
    "fs_addr (outb d p s) = fs_addr s" "pcbs (outb d p s) = pcbs s" "cur_pcb (outb d p s) = cur_pcb s" "pcb_status (outb d p s) = pcb_status s"
    "numproc (outb d p s) = numproc s" "except_raised (outb d p s) = except_raised s" "starting_new_shell (outb d p s) = starting_new_shell s" "tss_esp0 (outb d p s) = tss_esp0 s"
    "ctrl (outb d p s) = ctrl s" "alt (outb d p s) = alt s" "caps_lock (outb d p s) = caps_lock s" "l_shift (outb d p s) = l_shift s"
    "r_shift (outb d p s) = r_shift s" "rtc_loop (outb d p s) = rtc_loop s" "cycle (outb d p s) = cycle s" "mouse_bytes (outb d p s) = mouse_bytes s"
    "x_neg (outb d p s) = x_neg s" "y_neg (outb d p s) = y_neg s" "mouse_x_pos (outb d p s) = mouse_x_pos s" "mouse_y_pos (outb d p s) = mouse_y_pos s"
    "old_char (outb d p s) = old_char s"
  by (rule more_fields, simp)+

lemma upd_mem_fields [simp]:
  fixes s :: kernel
  shows "master_mask (upd_mem f s) = master_mask s" "slave_mask (upd_mem f s) = slave_mask s" "intr_occured (upd_mem f s) = intr_occured s" "rtc_freq (upd_mem f s) = rtc_freq s"
    "cr0 (upd_mem f s) = cr0 s" "cr3 (upd_mem f s) = cr3 s" "cr4 (upd_mem f s) = cr4 s" "page_directory (upd_mem f s) = page_directory s"
    "fs_addr (upd_mem f s) = fs_addr s" "pcbs (upd_mem f s) = pcbs s" "cur_pcb (upd_mem f s) = cur_pcb s" "pcb_status (upd_mem f s) = pcb_status s"
    "numproc (upd_mem f s) = numproc s" "except_raised (upd_mem f s) = except_raised s" "starting_new_shell (upd_mem f s) = starting_new_shell s" "tss_esp0 (upd_mem f s) = tss_esp0 s"
    "ctrl (upd_mem f s) = ctrl s" "alt (upd_mem f s) = alt s" "caps_lock (upd_mem f s) = caps_lock s" "l_shift (upd_mem f s) = l_shift s"
    "r_shift (upd_mem f s) = r_shift s" "rtc_loop (upd_mem f s) = rtc_loop s" "cycle (upd_mem f s) = cycle s" "mouse_bytes (upd_mem f s) = mouse_bytes s"
    "x_neg (upd_mem f s) = x_neg s" "y_neg (upd_mem f s) = y_neg s" "mouse_x_pos (upd_mem f s) = mouse_x_pos s" "mouse_y_pos (upd_mem f s) = mouse_y_pos s"
    "old_char (upd_mem f s) = old_char s"
  by (rule more_fields, simp)+

lemma st8_fields [simp]:
  fixes s :: kernel
  shows "master_mask (st8 q v s) = master_mask s" "slave_mask (st8 q v s) = slave_mask s" "intr_occured (st8 q v s) = intr_occured s" "rtc_freq (st8 q v s) = rtc_freq s"
    "cr0 (st8 q v s) = cr0 s" "cr3 (st8 q v s) = cr3 s" "cr4 (st8 q v s) = cr4 s" "page_directory (st8 q v s) = page_directory s"
    "fs_addr (st8 q v s) = fs_addr s" "pcbs (st8 q v s) = pcbs s" "cur_pcb (st8 q v s) = cur_pcb s" "pcb_status (st8 q v s) = pcb_status s"
    "numproc (st8 q v s) = numproc s" "except_raised (st8 q v s) = except_raised s" "starting_new_shell (st8 q v s) = starting_new_shell s" "tss_esp0 (st8 q v s) = tss_esp0 s"
    "ctrl (st8 q v s) = ctrl s" "alt (st8 q v s) = alt s" "caps_lock (st8 q v s) = caps_lock s" "l_shift (st8 q v s) = l_shift s"
    "r_shift (st8 q v s) = r_shift s" "rtc_loop (st8 q v s) = rtc_loop s" "cycle (st8 q v s) = cycle s" "mouse_bytes (st8 q v s) = mouse_bytes s"
    "x_neg (st8 q v s) = x_neg s" "y_neg (st8 q v s) = y_neg s" "mouse_x_pos (st8 q v s) = mouse_x_pos s" "mouse_y_pos (st8 q v s) = mouse_y_pos s"
    "old_char (st8 q v s) = old_char s"
  by (rule more_fields, simp)+

lemma cli_fields [simp]:
  fixes s :: kernel
  shows "master_mask (cli s) = master_mask s" "slave_mask (cli s) = slave_mask s" "intr_occured (cli s) = intr_occured s" "rtc_freq (cli s) = rtc_freq s"
    "cr0 (cli s) = cr0 s" "cr3 (cli s) = cr3 s" "cr4 (cli s) = cr4 s" "page_directory (cli s) = page_directory s"
    "fs_addr (cli s) = fs_addr s" "pcbs (cli s) = pcbs s" "cur_pcb (cli s) = cur_pcb s" "pcb_status (cli s) = pcb_status s"
    "numproc (cli s) = numproc s" "except_raised (cli s) = except_raised s" "starting_new_shell (cli s) = starting_new_shell s" "tss_esp0 (cli s) = tss_esp0 s"
    "ctrl (cli s) = ctrl s" "alt (cli s) = alt s" "caps_lock (cli s) = caps_lock s" "l_shift (cli s) = l_shift s"
    "r_shift (cli s) = r_shift s" "rtc_loop (cli s) = rtc_loop s" "cycle (cli s) = cycle s" "mouse_bytes (cli s) = mouse_bytes s"
    "x_neg (cli s) = x_neg s" "y_neg (cli s) = y_neg s" "mouse_x_pos (cli s) = mouse_x_pos s" "mouse_y_pos (cli s) = mouse_y_pos s"
    "old_char (cli s) = old_char s"
  by (rule more_fields, simp)+

lemma sti_fields [simp]:
  fixes s :: kernel
  shows "master_mask (sti s) = master_mask s" "slave_mask (sti s) = slave_mask s" "intr_occured (sti s) = intr_occured s" "rtc_freq (sti s) = rtc_freq s"
    "cr0 (sti s) = cr0 s" "cr3 (sti s) = cr3 s" "cr4 (sti s) = cr4 s" "page_directory (sti s) = page_directory s"
    "fs_addr (sti s) = fs_addr s" "pcbs (sti s) = pcbs s" "cur_pcb (sti s) = cur_pcb s" "pcb_status (sti s) = pcb_status s"
    "numproc (sti s) = numproc s" "except_raised (sti s) = except_raised s" "starting_new_shell (sti s) = starting_new_shell s" "tss_esp0 (sti s) = tss_esp0 s"
    "ctrl (sti s) = ctrl s" "alt (sti s) = alt s" "caps_lock (sti s) = caps_lock s" "l_shift (sti s) = l_shift s"
    "r_shift (sti s) = r_shift s" "rtc_loop (sti s) = rtc_loop s" "cycle (sti s) = cycle s" "mouse_bytes (sti s) = mouse_bytes s"
    "x_neg (sti s) = x_neg s" "y_neg (sti s) = y_neg s" "mouse_x_pos (sti s) = mouse_x_pos s" "mouse_y_pos (sti s) = mouse_y_pos s"
    "old_char (sti s) = old_char s"
  by (rule more_fields, simp)+

lemma inb_fields [simp]:
  fixes s :: kernel
  shows "master_mask (snd (inb p s)) = master_mask s" "slave_mask (snd (inb p s)) = slave_mask s" "intr_occured (snd (inb p s)) = intr_occured s" "rtc_freq (snd (inb p s)) = rtc_freq s"
    "cr0 (snd (inb p s)) = cr0 s" "cr3 (snd (inb p s)) = cr3 s" "cr4 (snd (inb p s)) = cr4 s" "page_directory (snd (inb p s)) = page_directory s"
    "fs_addr (snd (inb p s)) = fs_addr s" "pcbs (snd (inb p s)) = pcbs s" "cur_pcb (snd (inb p s)) = cur_pcb s" "pcb_status (snd (inb p s)) = pcb_status s"
    "numproc (snd (inb p s)) = numproc s" "except_raised (snd (inb p s)) = except_raised s" "starting_new_shell (snd (inb p s)) = starting_new_shell s" "tss_esp0 (snd (inb p s)) = tss_esp0 s"
    "ctrl (snd (inb p s)) = ctrl s" "alt (snd (inb p s)) = alt s" "caps_lock (snd (inb p s)) = caps_lock s" "l_shift (snd (inb p s)) = l_shift s"
    "r_shift (snd (inb p s)) = r_shift s" "rtc_loop (snd (inb p s)) = rtc_loop s" "cycle (snd (inb p s)) = cycle s" "mouse_bytes (snd (inb p s)) = mouse_bytes s"
    "x_neg (snd (inb p s)) = x_neg s" "y_neg (snd (inb p s)) = y_neg s" "mouse_x_pos (snd (inb p s)) = mouse_x_pos s" "mouse_y_pos (snd (inb p s)) = mouse_y_pos s"
    "old_char (snd (inb p s)) = old_char s"
  by (simp_all add: inb_def)

lemma upd_pcb_fields [simp]:
  fixes s :: kernel
  shows "mem (upd_pcb p f s) = mem s" "out_trace (upd_pcb p f s) = out_trace s" "in_env (upd_pcb p f s) = in_env s" "in_cnt (upd_pcb p f s) = in_cnt s" "iflag (upd_pcb p f s) = iflag s"
    "terminals (upd_pcb p f s) = terminals s" "vis_term_id (upd_pcb p f s) = vis_term_id s" "sched_term_id (upd_pcb p f s) = sched_term_id s" "fg_color (upd_pcb p f s) = fg_color s" "bg_color (upd_pcb p f s) = bg_color s"
    "color (upd_pcb p f s) = color s" "master_mask (upd_pcb p f s) = master_mask s" "slave_mask (upd_pcb p f s) = slave_mask s" "intr_occured (upd_pcb p f s) = intr_occured s" "rtc_freq (upd_pcb p f s) = rtc_freq s"
    "cr0 (upd_pcb p f s) = cr0 s" "cr3 (upd_pcb p f s) = cr3 s" "cr4 (upd_pcb p f s) = cr4 s" "page_directory (upd_pcb p f s) = page_directory s" "fs_addr (upd_pcb p f s) = fs_addr s"
    "cur_pcb (upd_pcb p f s) = cur_pcb s" "pcb_status (upd_pcb p f s) = pcb_status s" "numproc (upd_pcb p f s) = numproc s" "except_raised (upd_pcb p f s) = except_raised s" "starting_new_shell (upd_pcb p f s) = starting_new_shell s"
    "tss_esp0 (upd_pcb p f s) = tss_esp0 s" "ctrl (upd_pcb p f s) = ctrl s" "alt (upd_pcb p f s) = alt s" "caps_lock (upd_pcb p f s) = caps_lock s" "l_shift (upd_pcb p f s) = l_shift s"
    "r_shift (upd_pcb p f s) = r_shift s" "rtc_loop (upd_pcb p f s) = rtc_loop s" "cycle (upd_pcb p f s) = cycle s" "mouse_bytes (upd_pcb p f s) = mouse_bytes s" "x_neg (upd_pcb p f s) = x_neg s"
    "y_neg (upd_pcb p f s) = y_neg s" "mouse_x_pos (upd_pcb p f s) = mouse_x_pos s" "mouse_y_pos (upd_pcb p f s) = mouse_y_pos s" "old_char (upd_pcb p f s) = old_char s"
  by (simp_all add: upd_pcb_def)

lemma upd_fd_fields [simp]:
  fixes s :: kernel
  shows "mem (upd_fd p fd f s) = mem s" "out_trace (upd_fd p fd f s) = out_trace s" "in_env (upd_fd p fd f s) = in_env s" "in_cnt (upd_fd p fd f s) = in_cnt s" "iflag (upd_fd p fd f s) = iflag s"
    "terminals (upd_fd p fd f s) = terminals s" "vis_term_id (upd_fd p fd f s) = vis_term_id s" "sched_term_id (upd_fd p fd f s) = sched_term_id s" "fg_color (upd_fd p fd f s) = fg_color s" "bg_color (upd_fd p fd f s) = bg_color s"
    "color (upd_fd p fd f s) = color s" "master_mask (upd_fd p fd f s) = master_mask s" "slave_mask (upd_fd p fd f s) = slave_mask s" "intr_occured (upd_fd p fd f s) = intr_occured s" "rtc_freq (upd_fd p fd f s) = rtc_freq s"
    "cr0 (upd_fd p fd f s) = cr0 s" "cr3 (upd_fd p fd f s) = cr3 s" "cr4 (upd_fd p fd f s) = cr4 s" "page_directory (upd_fd p fd f s) = page_directory s" "fs_addr (upd_fd p fd f s) = fs_addr s"
    "cur_pcb (upd_fd p fd f s) = cur_pcb s" "pcb_status (upd_fd p fd f s) = pcb_status s" "numproc (upd_fd p fd f s) = numproc s" "except_raised (upd_fd p fd f s) = except_raised s" "starting_new_shell (upd_fd p fd f s) = starting_new_shell s"
    "tss_esp0 (upd_fd p fd f s) = tss_esp0 s" "ctrl (upd_fd p fd f s) = ctrl s" "alt (upd_fd p fd f s) = alt s" "caps_lock (upd_fd p fd f s) = caps_lock s" "l_shift (upd_fd p fd f s) = l_shift s"
    "r_shift (upd_fd p fd f s) = r_shift s" "rtc_loop (upd_fd p fd f s) = rtc_loop s" "cycle (upd_fd p fd f s) = cycle s" "mouse_bytes (upd_fd p fd f s) = mouse_bytes s" "x_neg (upd_fd p fd f s) = x_neg s"
    "y_neg (upd_fd p fd f s) = y_neg s" "mouse_x_pos (upd_fd p fd f s) = mouse_x_pos s" "mouse_y_pos (upd_fd p fd f s) = mouse_y_pos s" "old_char (upd_fd p fd f s) = old_char s"
  by (simp_all add: upd_fd_def)

lemma pcbs_upd_pcb [simp]: "pcbs (upd_pcb p f s) = (pcbs s)(p := f (pcbs s p))"
  by (simp add: upd_pcb_def)

lemma pcbs_upd_fd [simp]:
  "pcbs (upd_fd p fd f s) = (pcbs s)(p := (pcbs s p)\<lparr>io_files := (io_files (pcbs s p))(fd := f (io_files (pcbs s p) fd))\<rparr>)"
  by (simp add: upd_fd_def)

subsection \<open>Interrupts and busy waiting\<close>

text \<open>
  An interrupt is delivered through an interrupt gate: the flag is cleared on entry, and the return from
  the handler restores it, so it is set again. A handler whose behaviour is undefined gives \<open>None\<close>.
\<close>

type_synonym handler = "kernel \<Rightarrow> kernel option"

definition take_irq :: "handler \<Rightarrow> kernel \<Rightarrow> kernel option" where
  "take_irq h s = map_option sti (h (cli s))"

fun serve :: "handler list \<Rightarrow> kernel \<Rightarrow> kernel option" where
  "serve [] s = Some s"
| "serve (h # hs) s = do { s \<leftarrow> take_irq h s; serve hs s }"

text \<open>
  A busy wait polls a variable that interrupt handlers set. Between two polls interrupts may be served:
  the list gives the handlers that run, in order. When it ends and the variable is not set, or when
  interrupts are off, the loop does not return.
\<close>

fun await :: "(kernel \<Rightarrow> bool) \<Rightarrow> handler list \<Rightarrow> kernel \<Rightarrow> kernel option" where
  "await flag [] s = (if flag s then Some s else None)"
| "await flag (h # hs) s =
     (if flag s then Some s else if iflag s then do { s \<leftarrow> take_irq h s; await flag hs s } else None)"

text \<open>Handlers that return and leave the variable clear.\<close>

definition leaves_clear :: "(kernel \<Rightarrow> bool) \<Rightarrow> handler \<Rightarrow> bool" where
  "leaves_clear flag h \<longleftrightarrow> (\<forall>s. \<not> flag s \<longrightarrow> (\<exists>s'. take_irq h s = Some s' \<and> \<not> flag s'))"

lemma take_irq_iflag: "take_irq h s = Some s' \<Longrightarrow> iflag s'"
  by (auto simp: take_irq_def)

lemma await_flag [simp]: "flag s \<Longrightarrow> await flag hs s = Some s"
  by (cases hs) simp_all

lemma await_clear:
  assumes "\<forall>h \<in> set hs. leaves_clear flag h" and "\<not> flag s" and "iflag s"
  shows "\<exists>s'. serve hs s = Some s' \<and> \<not> flag s' \<and> iflag s' \<and> (\<forall>rest. await flag (hs @ rest) s = await flag rest s')"
  using assms
proof (induction hs arbitrary: s)
  case (Cons h hs)
  then obtain s1 where s1: "take_irq h s = Some s1" "\<not> flag s1" by (auto simp: leaves_clear_def)
  then show ?case using Cons.IH [of s1] Cons.prems take_irq_iflag by auto
qed simp

subsection \<open>A concrete state\<close>

text \<open>
  A kernel before any initialisation, on a given memory: the state in which the instances of the
  theorems are evaluated.
\<close>

definition blank_fdesc :: fdesc_t where
  "blank_fdesc = \<lparr>file_ops = empty_f_ops_tab, inode = 0, file_pos = 0, flags = NOT_USED\<rparr>"

definition blank_pcb :: pcb_t where
  "blank_pcb = \<lparr>io_files = (\<lambda>_. blank_fdesc), esp = 0, ebp = 0, esp0 = 0, page_addr = 0, parent_task = 0,
     fd_status = 0, term_num = 0, pid = 0, pcb_num = 0\<rparr>"

definition blank_kernel :: "memory \<Rightarrow> kernel" where
  "blank_kernel m = \<lparr>mem = m, out_trace = [], in_env = (\<lambda>_ _. 0), in_cnt = 0, iflag = True,
     terminals = (\<lambda>_. sample_term), vis_term_id = 0, sched_term_id = 0, fg_color = 7, bg_color = 0, color = 7,
     master_mask = 0xFF, slave_mask = 0xFF, intr_occured = False, rtc_freq = 0x400,
     cr0 = 0, cr3 = 0x401000, cr4 = 0, page_directory = 0x401000,
     fs_addr = 0x410000, pcbs = (\<lambda>_. blank_pcb), cur_pcb = 0, pcb_status = 0, numproc = 0,
     except_raised = False, starting_new_shell = False, tss_esp0 = 0x800000,
     ctrl = False, alt = False, caps_lock = False, l_shift = False, r_shift = False, rtc_loop = False,
     cycle = 0, mouse_bytes = [0, 0, 0], x_neg = False, y_neg = False, mouse_x_pos = 79, mouse_y_pos = 24, old_char = 0\<rparr>"

end
