(* ===== verification/Pic.thy ===== *)
theory Pic
  imports State
begin

text \<open>
  The driver of the two 8259 interrupt controllers, \<^verbatim>\<open>student-distrib/i8259.c\<close>. The specification is the
  set of unmasked interrupt lines; the main results are that every sequence of operations implements
  it and that the mask registers of the two chips always hold the driver's masks.
\<close>

abbreviation MASTER_8259_PORT :: u16 where "MASTER_8259_PORT \<equiv> 0x20"
abbreviation MASTER_8259_PORT_2 :: u16 where "MASTER_8259_PORT_2 \<equiv> 0x21"
abbreviation SLAVE_8259_PORT :: u16 where "SLAVE_8259_PORT \<equiv> 0xA0"
abbreviation SLAVE_8259_PORT_2 :: u16 where "SLAVE_8259_PORT_2 \<equiv> 0xA1"
abbreviation EOI :: u8 where "EOI \<equiv> 0x60"
abbreviation OFF_MASK :: u8 where "OFF_MASK \<equiv> 0xFF"

definition enable_irq :: "u32 \<Rightarrow> kernel \<Rightarrow> kernel" where
  "enable_irq irq_num s =
     (if irq_num \<le> 7
      then let s = s\<lparr>master_mask := master_mask s AND NOT (push_bit (unat irq_num) 1)\<rparr>
           in outb (master_mask s) MASTER_8259_PORT_2 s
      else if irq_num \<le> 15
      then let s = s\<lparr>slave_mask := slave_mask s AND NOT (push_bit (unat (irq_num - 8)) 1)\<rparr>
           in outb (slave_mask s) SLAVE_8259_PORT_2 s
      else kprintf ''enable_irq undefined for irq_num %d'' [ArgW irq_num] s)"

definition disable_irq :: "u32 \<Rightarrow> kernel \<Rightarrow> kernel" where
  "disable_irq irq_num s =
     (if irq_num \<le> 7
      then let s = s\<lparr>master_mask := master_mask s OR push_bit (unat irq_num) 1\<rparr>
           in outb (master_mask s) MASTER_8259_PORT_2 s
      else if irq_num \<le> 15
      then let s = s\<lparr>slave_mask := slave_mask s OR push_bit (unat (irq_num - 8)) 1\<rparr>
           in outb (slave_mask s) SLAVE_8259_PORT_2 s
      else kprintf ''disable_irq undefined for irq_num %d'' [ArgW irq_num] s)"

definition send_eoi :: "u32 \<Rightarrow> kernel \<Rightarrow> kernel" where
  "send_eoi irq_num s =
     (if irq_num \<le> 7 then outb (ucast (irq_num OR 0x60)) MASTER_8259_PORT s
      else if irq_num \<le> 15
      then let s = outb (ucast ((irq_num - 8) OR 0x60)) SLAVE_8259_PORT s
           in outb (2 OR EOI) MASTER_8259_PORT s
      else kprintf ''Send_eoi undefined for irq_num %d'' [ArgW irq_num] s)"

definition i8259_init :: "kernel \<Rightarrow> kernel" where
  "i8259_init s =
     (let s = outb 0x11 MASTER_8259_PORT s;
          s = outb 0x20 MASTER_8259_PORT_2 s;
          s = outb 0x04 MASTER_8259_PORT_2 s;
          s = outb 0x01 MASTER_8259_PORT_2 s;
          s = outb 0x11 SLAVE_8259_PORT s;
          s = outb 0x28 SLAVE_8259_PORT_2 s;
          s = outb 0x02 SLAVE_8259_PORT_2 s;
          s = outb 0x01 SLAVE_8259_PORT_2 s;
          s = outb OFF_MASK MASTER_8259_PORT_2 s;
          s = outb OFF_MASK SLAVE_8259_PORT_2 s;
          s = s\<lparr>master_mask := OFF_MASK\<rparr>;
          s = s\<lparr>slave_mask := OFF_MASK\<rparr>
      in enable_irq 2 s)"

subsection \<open>Specification\<close>

text \<open>
  The lines that are not masked, as the driver's variables say and as the mask registers of the
  chips say: after its four initialisation words, a write to the data port of an 8259 sets its
  mask register, so the register holds the last byte written there.
\<close>

definition enabled :: "kernel \<Rightarrow> nat set" where
  "enabled s = {n. n < 8 \<and> \<not> bit (master_mask s) n} \<union> {n. 8 \<le> n \<and> n < 16 \<and> \<not> bit (slave_mask s) (n - 8)}"

definition imr :: "u16 \<Rightarrow> kernel \<Rightarrow> u8" where
  "imr port s = last (writes_to port s)"

definition pic_synced :: "kernel \<Rightarrow> bool" where
  "pic_synced s \<longleftrightarrow> writes_to MASTER_8259_PORT_2 s \<noteq> [] \<and> imr MASTER_8259_PORT_2 s = master_mask s
     \<and> writes_to SLAVE_8259_PORT_2 s \<noteq> [] \<and> imr SLAVE_8259_PORT_2 s = slave_mask s"

datatype pic_op = Enable u32 | Disable u32 | Eoi u32

fun pic_step :: "kernel \<Rightarrow> pic_op \<Rightarrow> kernel" where
  "pic_step s (Enable n) = enable_irq n s"
| "pic_step s (Disable n) = disable_irq n s"
| "pic_step s (Eoi n) = send_eoi n s"

fun line_step :: "nat set \<Rightarrow> pic_op \<Rightarrow> nat set" where
  "line_step L (Enable n) = (if n \<le> 15 then insert (unat n) L else L)"
| "line_step L (Disable n) = L - {unat n}"
| "line_step L (Eoi n) = L"

subsection \<open>The driver implements the specification\<close>

lemma writes_to_outb [simp]:
  "writes_to port (outb d p s) = (if p = port then writes_to port s @ [d] else writes_to port s)"
  by (simp add: writes_to_def)

lemma writes_to_cong: "out_trace s' = out_trace s \<Longrightarrow> writes_to port s' = writes_to port s"
  by (simp add: writes_to_def)

lemma writes_to_putc [simp]:
  "port \<noteq> 0x3D4 \<Longrightarrow> port \<noteq> 0x3D5 \<Longrightarrow> writes_to port (putc i c s) = writes_to port s"
  by (simp add: writes_to_def putc_def Let_def cursor_out_def)

lemma writes_to_puts_loop [simp]:
  "port \<noteq> 0x3D4 \<Longrightarrow> port \<noteq> 0x3D5 \<Longrightarrow> writes_to port (puts_loop i cs s) = writes_to port s"
  by (induction cs arbitrary: s) simp_all

lemma writes_to_kprintf [simp]:
  "port \<noteq> 0x3D4 \<Longrightarrow> port \<noteq> 0x3D5 \<Longrightarrow> writes_to port (kprintf f a s) = writes_to port s"
  using kprintf_out [of f a s] by auto

lemma writes_to_masks [simp]:
  "writes_to port (s\<lparr>master_mask := m\<rparr>) = writes_to port s"
  "writes_to port (s\<lparr>slave_mask := m\<rparr>) = writes_to port s"
  by (simp_all add: writes_to_def)

lemma pic_step_synced: "pic_synced s \<Longrightarrow> pic_synced (pic_step s op)"
  by (cases op) (simp_all add: pic_synced_def imr_def enable_irq_def disable_irq_def send_eoi_def Let_def)

lemma unat_eq_of_nat_u32: "unat (n :: u32) = k \<Longrightarrow> n = of_nat k"
  by auto

lemma irq_lines:
  "(irq :: u32) \<le> 7 \<Longrightarrow> unat irq < 8"
  "\<not> irq \<le> 7 \<Longrightarrow> irq \<le> 15 \<Longrightarrow> 8 \<le> unat irq \<and> unat irq < 16 \<and> unat (irq - 8) = unat irq - 8"
  "\<not> irq \<le> 15 \<Longrightarrow> 16 \<le> unat irq"
  by (simp_all add: word_le_nat_alt unat_sub)

lemma bit_mask_clear: "k < 8 \<Longrightarrow> bit (m AND NOT (2 ^ j) :: u8) k \<longleftrightarrow> bit m k \<and> k \<noteq> j"
  by (auto simp: bit_simps)

lemma bit_mask_set: "k < 8 \<Longrightarrow> bit (m OR 2 ^ j :: u8) k \<longleftrightarrow> bit m k \<or> k = j"
  by (auto simp: bit_simps)

lemma enabled_enable: "enabled (enable_irq n s) = (if n \<le> 15 then insert (unat n) (enabled s) else enabled s)"
proof -
  consider "n \<le> 7" | "\<not> n \<le> 7" "n \<le> 15" | "\<not> n \<le> 15" by auto
  then show ?thesis
  proof cases
    case 1
    then have "n \<le> 15" by (auto simp: word_le_nat_alt)
    with 1 irq_lines(1) [OF 1] show ?thesis
      by (auto simp: enabled_def enable_irq_def Let_def bit_mask_clear)
  next
    case 2
    with irq_lines(2) [OF 2] show ?thesis
      by (auto simp: enabled_def enable_irq_def Let_def bit_mask_clear)
  next
    case 3
    then have "\<not> n \<le> 7" by (auto simp: word_le_nat_alt)
    with 3 show ?thesis by (simp add: enabled_def enable_irq_def)
  qed
qed

lemma enabled_disable: "enabled (disable_irq n s) = enabled s - {unat n}"
proof -
  consider "n \<le> 7" | "\<not> n \<le> 7" "n \<le> 15" | "\<not> n \<le> 15" by auto
  then show ?thesis
  proof cases
    case 1
    with irq_lines(1) [OF 1] show ?thesis
      by (auto simp: enabled_def disable_irq_def Let_def bit_mask_set)
  next
    case 2
    with irq_lines(2) [OF 2] show ?thesis
      by (auto simp: enabled_def disable_irq_def Let_def bit_mask_set)
  next
    case 3
    then have "\<not> n \<le> 7" by (auto simp: word_le_nat_alt)
    with 3 irq_lines(3) [OF 3] show ?thesis by (auto simp: enabled_def disable_irq_def)
  qed
qed

lemma enabled_eoi: "enabled (send_eoi n s) = enabled s"
  by (simp add: enabled_def send_eoi_def Let_def)

interpretation pic: simulation pic_step pic_synced enabled line_step
proof
  fix s op
  show "pic_synced s \<Longrightarrow> pic_synced (pic_step s op)" by (rule pic_step_synced)
  show "enabled (pic_step s op) = line_step (enabled s) op"
    by (cases op) (simp_all add: enabled_enable enabled_disable enabled_eoi)
qed

lemma init_lines: "enabled (i8259_init s) = {2}"
proof -
  have "bit (0xFF :: u8) k" if "k < 8" for k
  proof -
    have "(0xFF :: u8) = mask 8" by (simp add: mask_eq_exp_minus_1)
    with that show ?thesis by (simp only: bit_mask_iff) simp
  qed
  then show ?thesis
    unfolding i8259_init_def Let_def enabled_enable by (auto simp: enabled_def)
qed

lemma init_synced: "pic_synced (i8259_init s)"
  by (simp add: pic_synced_def imr_def i8259_init_def enable_irq_def Let_def)

text \<open>
  C22: the interrupt controller driver implements a set of lines. After initialisation and any sequence
  of enabling, disabling and acknowledging lines, with any line numbers, the unmasked lines are
  those of the specification that starts from the cascade line alone, and the mask registers of both
  chips hold exactly the driver's masks.
\<close>

theorem pic_lines:
  "enabled (run pic_step (i8259_init s) ops) = run line_step {2} ops
    \<and> imr MASTER_8259_PORT_2 (run pic_step (i8259_init s) ops) = master_mask (run pic_step (i8259_init s) ops)
    \<and> imr SLAVE_8259_PORT_2 (run pic_step (i8259_init s) ops) = slave_mask (run pic_step (i8259_init s) ops)"
  using pic.abs_run [OF init_synced, of s ops] pic.inv_run [OF init_synced, of s ops]
  by (simp add: init_lines pic_synced_def)

lemma eoi_byte: "n \<le> 7 \<Longrightarrow> ucast (n OR 0x60 :: u32) = (0x60 + ucast n :: u8)"
proof -
  assume "n \<le> 7"
  then have "unat n < 8" by (rule irq_lines(1))
  then consider "unat n = 0" | "unat n = 1" | "unat n = 2" | "unat n = 3" | "unat n = 4" | "unat n = 5"
    | "unat n = 6" | "unat n = 7" by linarith
  then show ?thesis
    by cases (drule unat_eq_of_nat_u32, simp)+
qed

text \<open>
  acknowledging an interrupt. The end-of-interrupt byte for a line goes to the chip that has the
  line, as a specific EOI with the line's number on that chip; a slave line also acknowledges the
  cascade line 2 of the master; nothing else of the machine changes.
\<close>

theorem send_eoi_specific:
  assumes "irq \<le> 15"
  shows "out_trace (send_eoi irq s) = out_trace s @
      (if irq \<le> 7 then [(MASTER_8259_PORT, 0x60 + ucast irq)]
       else [(SLAVE_8259_PORT, 0x60 + ucast (irq - 8)), (MASTER_8259_PORT, 0x62)])
    \<and> mem (send_eoi irq s) = mem s \<and> enabled (send_eoi irq s) = enabled s"
proof -
  have slave: "irq - 8 \<le> 7" if "\<not> irq \<le> 7"
    using irq_lines(2) [OF that assms] by (auto simp: word_le_nat_alt)
  then show ?thesis
    using assms by (simp add: send_eoi_def Let_def enabled_def eoi_byte)
qed

theorem send_eoi_specific_witness:
  "out_trace (send_eoi 12 (blank_kernel (\<lambda>_. 0))) = [(SLAVE_8259_PORT, 0x64), (MASTER_8259_PORT, 0x62)]"
  using send_eoi_specific [of 12 "blank_kernel (\<lambda>_. 0)"] by (simp add: blank_kernel_def)

end
