(* ===== verification/Rtc.thy ===== *)
theory Rtc
  imports Pic
begin

text \<open>
  The driver of the real-time clock, \<^verbatim>\<open>student-distrib/rtc.c\<close>. The main results: \<^verbatim>\<open>rtc_write\<close> accepts exactly
  the powers of two from 2 to 1024 and then programs the divider whose frequency, by the formula in the
  source, is the one asked for; a reader returns at the next clock interrupt and not before.
  \<^verbatim>\<open>rtc_close\<close>, which frees a descriptor, is with the process control blocks.
\<close>

abbreviation RTC_IRQ :: u32 where "RTC_IRQ \<equiv> 8"
abbreviation CONTROL_REG_A :: u8 where "CONTROL_REG_A \<equiv> 0x8A"
abbreviation CONTROL_REG_B :: u8 where "CONTROL_REG_B \<equiv> 0x8B"
abbreviation CMOS_REG_1 :: u16 where "CMOS_REG_1 \<equiv> 0x70"
abbreviation CMOS_REG_2 :: u16 where "CMOS_REG_2 \<equiv> 0x71"

definition rtc_init :: "kernel \<Rightarrow> kernel" where
  "rtc_init s =
     (let s = outb CONTROL_REG_B CMOS_REG_1 s;
          (v, s) = inb CMOS_REG_2 s; prev = ucast v :: u8;
          s = outb CONTROL_REG_B CMOS_REG_1 s;
          s = outb (prev OR 0x40) CMOS_REG_2 s
      in enable_irq RTC_IRQ s)"

definition rtc_interrupt :: "kernel \<Rightarrow> kernel" where
  "rtc_interrupt s =
     (let s = s\<lparr>intr_occured := True\<rparr>;
          s = cli s;
          s = send_eoi RTC_IRQ s;
          s = outb 0x0C CMOS_REG_1 s;
          (_, s) = inb CMOS_REG_2 s
      in sti s)"

definition set_int_freq :: "u32 \<Rightarrow> kernel \<Rightarrow> kernel" where
  "set_int_freq new_freq s =
     (let s = cli s;
          s = outb CONTROL_REG_A CMOS_REG_1 s;
          (v, s) = inb CMOS_REG_2 s; prev = ucast v :: u8;
          s = outb CONTROL_REG_A CMOS_REG_1 s;
          s = outb (ucast new_freq OR (prev AND 0xF0)) CMOS_REG_2 s
      in sti s)"

definition rtc_open :: "kernel \<Rightarrow> int \<times> kernel" where
  "rtc_open s = (0, set_int_freq 0x0F s)"

definition rtc_read :: "handler list \<Rightarrow> kernel \<Rightarrow> (int \<times> kernel) option" where
  "rtc_read handlers s = map_option (\<lambda>s. (0, s)) (await intr_occured handlers (s\<lparr>intr_occured := False\<rparr>))"

text \<open>The loop of \<^verbatim>\<open>rtc_write\<close> that takes the logarithm.\<close>

function rtc_log :: "u32 \<Rightarrow> u32 \<Rightarrow> u32" where
  "rtc_log new_freq pow2freq =
     (let pow2freq = pow2freq + 1; new_freq = drop_bit 1 new_freq
      in if new_freq > 1 then rtc_log new_freq pow2freq else pow2freq)"
  by pat_completeness auto
termination
proof (relation "measure (\<lambda>(f, _). unat f)")
  fix f p x y :: u32
  assume "y = drop_bit 1 f" and "1 < y"
  then have "unat y = unat f div 2" "1 < unat y"
    by (simp_all add: drop_bit_Suc unat_div word_less_nat_alt)
  then show "((y, x), (f, p)) \<in> measure (\<lambda>(f, _). unat f)" by simp
qed simp

declare rtc_log.simps [simp del]

text \<open>\<^verbatim>\<open>rtc_write\<close> once it has read the new frequency from its buffer.\<close>

definition rtc_set_freq :: "u32 \<Rightarrow> int \<Rightarrow> kernel \<Rightarrow> int \<times> kernel" where
  "rtc_set_freq new_freq nbytes s =
     (if new_freq AND (new_freq - 1) \<noteq> 0 \<or> new_freq > 1024 \<or> new_freq < 2 then (-1, s)
      else let s = s\<lparr>rtc_freq := new_freq\<rparr>;
               pow2freq = rtc_log new_freq 0
           in (nbytes, set_int_freq (0x10 - pow2freq) s))"

definition rtc_write :: "ptr \<Rightarrow> int \<Rightarrow> kernel \<Rightarrow> int \<times> kernel" where
  "rtc_write buf nbytes s = rtc_set_freq (ld32 (mem s) buf) nbytes s"

subsection \<open>Powers of two\<close>

lemma and_pred_nat: "0 < (n :: nat) \<Longrightarrow> n AND (n - 1) = 0 \<Longrightarrow> \<exists>k. n = 2 ^ k"
proof (induction n rule: less_induct)
  case (less n)
  show ?case
  proof (cases "even n")
    case True
    then obtain m where n: "n = 2 * m" by blast
    with less.prems have m: "0 < m" by simp
    have "n AND (n - 1) = 2 * (m AND (m - 1))"
      using m by (subst and_rec) (auto simp: n div_eq_dividend_iff intro!: arg_cong2 [of _ _ _ _ "(AND)"])
    with less.prems have "m AND (m - 1) = 0" by simp
    with less.IH [of m] m n obtain k where "m = 2 ^ k" by auto
    then show ?thesis using n by (intro exI [of _ "Suc k"]) simp
  next
    case False
    then obtain m where n: "n = 2 * m + 1" by (blast elim: oddE)
    then have "n AND (n - 1) = 2 * (m AND m)" by (subst and_rec) simp
    with less.prems n have "n = 2 ^ 0" by simp
    then show ?thesis by blast
  qed
qed

lemma one_to_ten: "1 \<le> k \<Longrightarrow> k \<le> 10 \<Longrightarrow> k \<in> {1,2,3,4,5,6,7,8,9,10 :: nat}"
  by (auto simp: numeral_eq_Suc le_Suc_eq)

lemma unat_pow2: "k < 32 \<Longrightarrow> unat (2 ^ k :: u32) = 2 ^ k"
proof -
  assume "k < 32"
  then have "(2 :: nat) ^ k < 2 ^ 32" by (intro power_strict_increasing) simp_all
  then have "unat (of_nat (2 ^ k) :: u32) = 2 ^ k" by (rule unat_of_nat_u32)
  then show ?thesis by simp
qed

lemma rtc_range:
  fixes f :: u32
  shows "f AND (f - 1) = 0 \<and> f \<le> 1024 \<and> 2 \<le> f \<longleftrightarrow> (\<exists>k. 1 \<le> k \<and> k \<le> 10 \<and> f = 2 ^ k)"
proof
  assume a: "f AND (f - 1) = 0 \<and> f \<le> 1024 \<and> 2 \<le> f"
  then have u: "unat f \<le> 1024" "2 \<le> unat f" by (simp_all add: word_le_nat_alt)
  then have "f \<noteq> 0" by auto
  then have "unat f AND (unat f - 1) = unat (f AND (f - 1))"
    by (simp add: unsigned_and_eq unat_minus_one)
  with a u obtain k where k: "unat f = 2 ^ k" using and_pred_nat [of "unat f"] by auto
  with u have "(2 :: nat) ^ 1 \<le> 2 ^ k" "(2 :: nat) ^ k \<le> 2 ^ 10" by simp_all
  then have "1 \<le> k" "k \<le> 10" by (auto simp only: power_increasing_iff)
  moreover have "f = 2 ^ k" using k unat_eq_of_nat_u32 [of f "2 ^ k"] by simp
  ultimately show "\<exists>k. 1 \<le> k \<and> k \<le> 10 \<and> f = 2 ^ k" by blast
next
  assume "\<exists>k. 1 \<le> k \<and> k \<le> 10 \<and> f = 2 ^ k"
  then obtain k where k: "1 \<le> k" "k \<le> 10" and "f = 2 ^ k" by blast
  with one_to_ten [OF k] show "f AND (f - 1) = 0 \<and> f \<le> 1024 \<and> 2 \<le> f" by auto
qed

lemma rtc_log_pow: "1 \<le> k \<Longrightarrow> k < 32 \<Longrightarrow> rtc_log (2 ^ k) p = p + of_nat k"
proof (induction k arbitrary: p)
  case (Suc k)
  have "(drop_bit 1 (2 ^ Suc k) :: u32) = 2 ^ k"
    using Suc.prems(2) by (intro bit_word_eqI) (auto simp: bit_simps)
  moreover have "(1 :: u32) < 2 ^ k \<longleftrightarrow> k \<noteq> 0"
  proof -
    have "unat (2 ^ k :: u32) = 2 ^ k" using Suc.prems by (intro unat_pow2) simp
    moreover have "(1 :: nat) < 2 ^ k \<longleftrightarrow> k \<noteq> 0" using one_less_power [of "2 :: nat" k] by (cases "k = 0") auto
    ultimately show ?thesis by (simp add: word_less_nat_alt)
  qed
  ultimately show ?case
    using Suc by (subst rtc_log.simps) (cases "k = 0", simp_all add: Let_def ac_simps)
qed simp

subsection \<open>The operations\<close>

lemma set_int_freq_eq:
  "set_int_freq r s = s\<lparr>iflag := True, in_cnt := Suc (in_cnt s),
     out_trace := out_trace s @ [(CMOS_REG_1, CONTROL_REG_A), (CMOS_REG_1, CONTROL_REG_A),
       (CMOS_REG_2, ucast r OR (in_env s (in_cnt s) CMOS_REG_2 AND 0xF0))]\<rparr>"
proof -
  have "(ucast (ucast x :: u32) :: u8) = x" for x
    by (rule bit_word_eqI) (simp add: bit_simps)
  then show ?thesis by (simp add: set_int_freq_def cli_def sti_def outb_def inb_def Let_def)
qed

text \<open>The frequency that a divider value selects, by the formula given with \<^verbatim>\<open>set_int_freq\<close>.\<close>

definition rtc_hz :: "u8 \<Rightarrow> nat" where
  "rtc_hz reg_a = 32768 div 2 ^ (unat (reg_a AND 0x0F) - 1)"

lemma rtc_hz_pow:
  assumes "1 \<le> k" and "k \<le> 10"
  shows "rtc_hz (ucast (0x10 - of_nat k :: u32) OR (x AND 0xF0)) = 2 ^ k"
    and "(ucast (0x10 - of_nat k :: u32) OR (x AND 0xF0)) AND 0xF0 = x AND (0xF0 :: u8)"
proof -
  have k: "k \<in> {1,2,3,4,5,6,7,8,9,10}" using assms by (rule one_to_ten)
  have "(y OR (x AND 0xF0)) AND 0x0F = y AND (0x0F :: u8)" for y
  proof -
    have "(x AND 0xF0) AND (0x0F :: u8) = x AND (0xF0 AND 0x0F)" by (simp only: and.assoc)
    then show ?thesis by (simp add: bit.conj_disj_distrib2)
  qed
  then show "rtc_hz (ucast (0x10 - of_nat k :: u32) OR (x AND 0xF0)) = 2 ^ k"
    using k by (auto simp: rtc_hz_def)
  have "(y OR (x AND 0xF0)) AND 0xF0 = x AND (0xF0 :: u8)" if "y AND 0xF0 = 0" for y
    using that by (simp add: bit.conj_disj_distrib2 and.assoc)
  then show "(ucast (0x10 - of_nat k :: u32) OR (x AND 0xF0)) AND 0xF0 = x AND (0xF0 :: u8)"
    using k by auto
qed

text \<open>
  C38: \<^verbatim>\<open>rtc_write\<close> accepts exactly the powers of two from 2 to 1024. On those it returns the count it was
  given, remembers the frequency, and writes to register A of the clock a byte whose low half selects
  exactly that frequency and whose high half is the one read from the register; interrupts are on
  afterwards. On every other value it returns -1 and changes nothing.
\<close>

theorem rtc_write_freq:
  "if \<exists>k. 1 \<le> k \<and> k \<le> 10 \<and> ld32 (mem s) buf = 2 ^ k
   then (\<exists>reg_a. rtc_write buf nbytes s = (nbytes, s\<lparr>rtc_freq := ld32 (mem s) buf, iflag := True,
           in_cnt := Suc (in_cnt s), out_trace := out_trace s @
             [(CMOS_REG_1, CONTROL_REG_A), (CMOS_REG_1, CONTROL_REG_A), (CMOS_REG_2, reg_a)]\<rparr>)
         \<and> rtc_hz reg_a = unat (ld32 (mem s) buf)
         \<and> reg_a AND 0xF0 = in_env s (in_cnt s) CMOS_REG_2 AND 0xF0)
   else rtc_write buf nbytes s = (-1, s)"
proof -
  let ?f = "ld32 (mem s) buf"
  have guard: "(?f AND (?f - 1) \<noteq> 0 \<or> ?f > 1024 \<or> ?f < 2) \<longleftrightarrow> \<not> (\<exists>k. 1 \<le> k \<and> k \<le> 10 \<and> ?f = 2 ^ k)"
    using rtc_range [of ?f] by auto
  show ?thesis
  proof (cases "\<exists>k. 1 \<le> k \<and> k \<le> 10 \<and> ?f = 2 ^ k")
    case True
    then obtain k where k: "1 \<le> k" "k \<le> 10" and f: "?f = 2 ^ k" by blast
    let ?x = "in_env s (in_cnt s) CMOS_REG_2"
    have "rtc_log ?f 0 = of_nat k" using k f by (simp add: rtc_log_pow)
    moreover have "unat ?f = 2 ^ k" using k f by (simp add: unat_pow2)
    ultimately show ?thesis
      using True guard rtc_hz_pow [OF k, of ?x]
      by (auto simp: rtc_write_def rtc_set_freq_def Let_def set_int_freq_eq intro!: exI [of _ "ucast (0x10 - of_nat k :: u32) OR (?x AND 0xF0)"])
  next
    case False
    with guard show ?thesis by (auto simp: rtc_write_def rtc_set_freq_def Let_def)
  qed
qed

lemma send_eoi_fields [simp]:
  "intr_occured (send_eoi n s) = intr_occured s" "mem (send_eoi n s) = mem s \<or> 15 < n"
  by (simp_all add: send_eoi_def Let_def not_le)

lemma rtc_interrupt_occured [simp]: "intr_occured (rtc_interrupt s)"
  by (simp add: rtc_interrupt_def Let_def split_beta)

text \<open>
  \<^verbatim>\<open>rtc_read\<close> returns at the next clock interrupt. If interrupts are on and those served while it waits
  leave the clock's flag alone, it is still waiting after them, whatever the flag was before the
  call; as soon as the clock interrupt has run, it returns 0, in the state that interrupt left,
  and later ones are not waited for.
\<close>

theorem rtc_read_waits:
  assumes "\<forall>h \<in> set hs. leaves_clear intr_occured h" and "iflag s"
  shows "rtc_read hs s = None
    \<and> (\<exists>s'. serve hs (s\<lparr>intr_occured := False\<rparr>) = Some s'
         \<and> rtc_read (hs @ (\<lambda>s. Some (rtc_interrupt s)) # later) s = Some (0, sti (rtc_interrupt (cli s'))))"
proof -
  obtain s' where s': "serve hs (s\<lparr>intr_occured := False\<rparr>) = Some s'" "\<not> intr_occured s'" "iflag s'"
    "\<forall>rest. await intr_occured (hs @ rest) (s\<lparr>intr_occured := False\<rparr>) = await intr_occured rest s'"
    using await_clear [OF assms(1), of "s\<lparr>intr_occured := False\<rparr>"] assms(2) by auto
  then show ?thesis using s'(4) [rule_format, of "[]"] by (simp add: rtc_read_def take_irq_def)
qed

theorem rtc_read_waits_witness:
  "rtc_read [\<lambda>s. Some (send_eoi 0 s)] (blank_kernel (\<lambda>_. 0)) = None"
proof -
  have "leaves_clear intr_occured (\<lambda>s. Some (send_eoi 0 s))" by (simp add: leaves_clear_def take_irq_def)
  then show ?thesis
    using rtc_read_waits [of "[\<lambda>s. Some (send_eoi 0 s)]" "blank_kernel (\<lambda>_. 0)"] by (simp add: blank_kernel_def)
qed

end
