(* ===== verification/Paging.thy ===== *)
theory Paging
  imports Rtc
begin

text \<open>
  Paging, \<^verbatim>\<open>student-distrib/paging.c\<close>: the page walk \<^verbatim>\<open>resolve_virt_addr\<close>, \<^verbatim>\<open>map_page\<close> and \<^verbatim>\<open>paging_init\<close> on the page
  directory and page tables in memory. The specification is an address space: for each of the 1024
  regions of 4MB nothing, a large page, or a table of small pages. \<^verbatim>\<open>map_page\<close> implements the
  update of that address space and the page walk implements its lookup; from this follows the exact
  address space the kernel starts with.
\<close>

abbreviation KERNEL_ADDR :: u32 where "KERNEL_ADDR \<equiv> 0x400000"
abbreviation PAGE_TABLE_STARTADDR :: u32 where "PAGE_TABLE_STARTADDR \<equiv> 0xC000000"
abbreviation VIDMAP_VIRT_ADDR :: u32 where "VIDMAP_VIRT_ADDR \<equiv> 0x8800000"
abbreviation TOP_10_BITS :: u32 where "TOP_10_BITS \<equiv> 0xFFC00000"
abbreviation MIDDLE_10_BITS :: u32 where "MIDDLE_10_BITS \<equiv> 0x003FF000"
abbreviation LAST_12_BITS :: u32 where "LAST_12_BITS \<equiv> 0xFFF"
abbreviation LAST_10_BITS :: u32 where "LAST_10_BITS \<equiv> 0x3FF"
abbreviation LAST_22_BITS :: u32 where "LAST_22_BITS \<equiv> 0x003FFFFF"
abbreviation ALL_BUT_LAST_12_BITS :: u32 where "ALL_BUT_LAST_12_BITS \<equiv> 0xFFFFF000"
abbreviation PRESENT_BIT :: u32 where "PRESENT_BIT \<equiv> 0x1"
abbreviation RW_BIT :: u32 where "RW_BIT \<equiv> 0x2"
abbreviation US_BIT :: u32 where "US_BIT \<equiv> 0x4"
abbreviation PAGE_SIZE_BIT :: u32 where "PAGE_SIZE_BIT \<equiv> 0x80"

subsection \<open>The code\<close>

definition resolve_virt_addr :: "u32 \<Rightarrow> kernel \<Rightarrow> u32" where
  "resolve_virt_addr virt_addr s =
     (let local_cr_3 = cr3 s;
          dir_index = drop_bit 22 (virt_addr AND TOP_10_BITS);
          dir_addr = ld32 (mem s) (Phys, local_cr_3 + 4 * dir_index)
      in if dir_addr AND PRESENT_BIT = 0 then NULL
         else if dir_addr AND PAGE_SIZE_BIT \<noteq> 0
         then let page_index = virt_addr AND LAST_22_BITS;
                  return_addr = dir_addr AND TOP_10_BITS
              in return_addr + page_index
         else let table_index = drop_bit 12 (virt_addr AND MIDDLE_10_BITS);
                  dir_addr = dir_addr AND ALL_BUT_LAST_12_BITS;
                  table_addr = ld32 (mem s) (Phys, dir_addr + 4 * table_index)
              in if table_addr AND PRESENT_BIT = 0 then NULL
                 else let page_index = virt_addr AND LAST_12_BITS
                      in (table_addr AND ALL_BUT_LAST_12_BITS) + page_index)"

text \<open>The loop that clears the 1024 entries of a directory or a table.\<close>

fun clear_entries :: "nat \<Rightarrow> u32 \<Rightarrow> memory \<Rightarrow> memory" where
  "clear_entries 0 addr m = m"
| "clear_entries (Suc k) addr m = clear_entries k (addr + 4) (st32 m (Phys, addr) 0)"

definition map_page :: "u32 \<Rightarrow> u32 \<Rightarrow> bool \<Rightarrow> bool \<Rightarrow> bool \<Rightarrow> bool \<Rightarrow> kernel \<Rightarrow> int \<times> kernel" where
  "map_page phys_addr virtual_addr page_size privileges write remap s =
     (if phys_addr = NULL \<or> virtual_addr = NULL then (-1, s)
      else
        let page_dir_addr = cr3 s;
            page_dir_index = drop_bit 22 virtual_addr;
            page_dir_entry = ld32 (mem s) (Phys, page_dir_addr + 4 * page_dir_index);
            page_table_index = drop_bit 12 virtual_addr AND LAST_10_BITS;
            set_table = (\<lambda>page_table_addr s.
              let page_table_entry = phys_addr AND ALL_BUT_LAST_12_BITS;
                  page_table_entry = page_table_entry + of_bool privileges * US_BIT;
                  page_table_entry = page_table_entry + of_bool write * RW_BIT;
                  page_table_entry = page_table_entry + PRESENT_BIT
              in (0, upd_mem (\<lambda>m. st32 m (Phys, page_table_addr + 4 * page_table_index) page_table_entry) s))
        in if page_dir_entry AND PRESENT_BIT = 0 \<or> remap
           then if page_size
                then let page_dir_entry = phys_addr AND ALL_BUT_LAST_12_BITS;
                         page_dir_entry = page_dir_entry + PAGE_SIZE_BIT;
                         page_dir_entry = page_dir_entry + of_bool privileges * US_BIT;
                         page_dir_entry = page_dir_entry + of_bool write * RW_BIT;
                         page_dir_entry = page_dir_entry + PRESENT_BIT
                     in (0, upd_mem (\<lambda>m. st32 m (Phys, page_dir_addr + 4 * page_dir_index) page_dir_entry) s)
                else let page_dir_entry = PAGE_TABLE_STARTADDR + FOUR_KB * page_dir_index;
                         page_table_addr = page_dir_entry;
                         s = upd_mem (clear_entries 1024 page_table_addr) s;
                         page_dir_entry = page_dir_entry + of_bool privileges * US_BIT;
                         page_dir_entry = page_dir_entry + of_bool write * RW_BIT;
                         page_dir_entry = page_dir_entry + PRESENT_BIT;
                         s = upd_mem (\<lambda>m. st32 m (Phys, page_dir_addr + 4 * page_dir_index) page_dir_entry) s
                     in set_table page_table_addr s
           else if \<not> (\<not> page_size \<and> page_dir_entry AND PAGE_SIZE_BIT = 0) then (-1, s)
           else let page_table_addr = page_dir_entry AND ALL_BUT_LAST_12_BITS;
                    page_table_entry = ld32 (mem s) (Phys, page_table_addr + 4 * page_table_index)
                in if page_table_entry AND PRESENT_BIT \<noteq> 0 then (-1, s)
                   else set_table page_table_addr s)"

text \<open>The loop of \<^verbatim>\<open>paging_init\<close> over the video pages, from page \<open>index\<close> on.\<close>

fun map_video :: "nat \<Rightarrow> nat \<Rightarrow> kernel \<Rightarrow> kernel" where
  "map_video 0 index s = s"
| "map_video (Suc k) index s =
     (let a = VIDEO_ADDR + of_nat index * FOUR_KB
      in map_video k (Suc index) (snd (map_page a a False False True False s)))"

definition paging_init :: "kernel \<Rightarrow> kernel" where
  "paging_init s =
     (let s = upd_mem (clear_entries 1024 (page_directory s)) s;
          s = s\<lparr>cr3 := page_directory s\<rparr>;
          s = snd (map_page KERNEL_ADDR KERNEL_ADDR True False True False s);
          s = map_video 4 0 s;
          s = snd (map_page VIDEO_ADDR VIDMAP_VIRT_ADDR False True True False s);
          s = snd (map_page PAGE_TABLE_STARTADDR PAGE_TABLE_STARTADDR True False True False s);
          s = s\<lparr>cr4 := cr4 s OR 0x90\<rparr>
      in s\<lparr>cr0 := cr0 s OR 0x80000000\<rparr>)"

definition flush_tlb :: "kernel \<Rightarrow> kernel" where
  "flush_tlb s = (let eax = cr3 s in s\<lparr>cr3 := eax\<rparr>)"

subsection \<open>Specification: address spaces\<close>

text \<open>A page has a physical base and its rights: user access, and writing.\<close>

record page =
  base :: u32
  user :: bool
  writable :: bool

datatype region = Unmapped | Large page | Table bool bool "u32 \<Rightarrow> page option"

type_synonym aspace = "u32 \<Rightarrow> region"

abbreviation dir_ix :: "u32 \<Rightarrow> u32" where "dir_ix v \<equiv> drop_bit 22 v"
abbreviation tab_ix :: "u32 \<Rightarrow> u32" where "tab_ix v \<equiv> drop_bit 12 v AND LAST_10_BITS"

definition as_lookup :: "aspace \<Rightarrow> u32 \<Rightarrow> u32" where
  "as_lookup A v = (case A (dir_ix v) of
       Unmapped \<Rightarrow> 0
     | Large p \<Rightarrow> base p + (v AND LAST_22_BITS)
     | Table _ _ t \<Rightarrow> (case t (tab_ix v) of None \<Rightarrow> 0 | Some p \<Rightarrow> base p + (v AND LAST_12_BITS)))"

text \<open>The processor lets user code access an address when every entry on the walk allows it.\<close>

definition as_user :: "aspace \<Rightarrow> u32 \<Rightarrow> bool" where
  "as_user A v = (case A (dir_ix v) of
       Unmapped \<Rightarrow> False
     | Large p \<Rightarrow> user p
     | Table us _ t \<Rightarrow> us \<and> (case t (tab_ix v) of None \<Rightarrow> False | Some p \<Rightarrow> user p))"

definition small_page :: "u32 \<Rightarrow> bool \<Rightarrow> bool \<Rightarrow> page" where
  "small_page phys us rw = \<lparr>base = phys AND ALL_BUT_LAST_12_BITS, user = us, writable = rw\<rparr>"

definition large_page :: "u32 \<Rightarrow> bool \<Rightarrow> bool \<Rightarrow> page" where
  "large_page phys us rw = \<lparr>base = phys AND TOP_10_BITS, user = us, writable = rw\<rparr>"

definition as_map :: "u32 \<Rightarrow> u32 \<Rightarrow> bool \<Rightarrow> bool \<Rightarrow> bool \<Rightarrow> bool \<Rightarrow> aspace \<Rightarrow> aspace option" where
  "as_map phys virt large us rw remap A =
     (if phys = 0 \<or> virt = 0 then None
      else if A (dir_ix virt) = Unmapped \<or> remap
      then Some (A(dir_ix virt :=
             if large then Large (large_page phys us rw)
             else Table us rw (Map.empty(tab_ix virt \<mapsto> small_page phys us rw))))
      else case A (dir_ix virt) of
        Table us' rw' t \<Rightarrow>
          if large \<or> t (tab_ix virt) \<noteq> None then None
          else Some (A(dir_ix virt := Table us' rw' (t(tab_ix virt \<mapsto> small_page phys us rw))))
      | _ \<Rightarrow> None)"

text \<open>The address space that a page directory and its tables in memory stand for.\<close>

definition pde :: "kernel \<Rightarrow> u32 \<Rightarrow> u32" where
  "pde s i = ld32 (mem s) (Phys, cr3 s + 4 * i)"

definition pte :: "kernel \<Rightarrow> u32 \<Rightarrow> u32 \<Rightarrow> u32" where
  "pte s i j = ld32 (mem s) (Phys, PAGE_TABLE_STARTADDR + FOUR_KB * i + 4 * j)"

definition entry_page :: "u32 \<Rightarrow> page option" where
  "entry_page e = (if e AND PRESENT_BIT = 0 then None
     else Some (small_page e (e AND US_BIT \<noteq> 0) (e AND RW_BIT \<noteq> 0)))"

definition entry_region :: "u32 \<Rightarrow> (u32 \<Rightarrow> u32) \<Rightarrow> region" where
  "entry_region e t =
     (if e AND PRESENT_BIT = 0 then Unmapped
      else if e AND PAGE_SIZE_BIT \<noteq> 0 then Large (large_page e (e AND US_BIT \<noteq> 0) (e AND RW_BIT \<noteq> 0))
      else Table (e AND US_BIT \<noteq> 0) (e AND RW_BIT \<noteq> 0) (\<lambda>j. if j < 1024 then entry_page (t j) else None))"

definition abs_space :: "kernel \<Rightarrow> aspace" where
  "abs_space s i = (if i < 1024 then entry_region (pde s i) (pte s i) else Unmapped)"

text \<open>
  The shape the page tables have: the directory is a page below the area of the tables, and the table
  of region \<open>i\<close> is the \<open>i\<close>-th page of that area.
\<close>

definition wf_paging :: "kernel \<Rightarrow> bool" where
  "wf_paging s \<longleftrightarrow> cr3 s AND LAST_12_BITS = 0 \<and> unat (cr3 s) + 4096 \<le> unat PAGE_TABLE_STARTADDR
     \<and> (\<forall>i < 1024. pde s i AND PRESENT_BIT \<noteq> 0 \<and> pde s i AND PAGE_SIZE_BIT = 0 \<longrightarrow>
          pde s i AND ALL_BUT_LAST_12_BITS = PAGE_TABLE_STARTADDR + FOUR_KB * i)"

subsection \<open>Word accesses\<close>

definition al4 :: "u32 \<Rightarrow> bool" where
  "al4 a \<longleftrightarrow> 4 dvd unat a"

lemma al4_add: "al4 a \<Longrightarrow> al4 b \<Longrightarrow> al4 (a + b)"
proof -
  assume "al4 a" "al4 b"
  then have "4 dvd unat a + unat b" by (simp add: al4_def)
  moreover have "(4 :: nat) dvd 2 ^ 32" by simp
  ultimately show ?thesis unfolding al4_def unat_word_ariths(1) by (simp add: dvd_mod)
qed

lemma al4_mult [simp]: "al4 (4 * x)"
proof -
  have "(4 :: nat) dvd 2 ^ 32" by simp
  then show ?thesis unfolding al4_def unat_word_ariths(2) by (simp add: dvd_mod)
qed

lemma al4_iff: "al4 a \<longleftrightarrow> (\<exists>x. a = 4 * x)"
proof
  assume "al4 a"
  then obtain k where "unat a = 4 * k" by (auto simp: al4_def)
  then have "a = of_nat (4 * k)" by (rule unat_eq_of_nat_u32)
  then show "\<exists>x. a = 4 * x" by (auto intro: exI [of _ "of_nat k"])
qed auto

lemma al4_diff: "al4 a \<Longrightarrow> al4 b \<Longrightarrow> al4 (a - b)"
  by (metis al4_iff right_diff_distrib)

lemma al4_nonzero: "al4 d \<Longrightarrow> d \<noteq> 0 \<Longrightarrow> 4 \<le> unat d \<and> unat d \<le> 4294967292"
proof -
  assume a: "al4 d" and "d \<noteq> 0"
  then obtain k where k: "unat d = 4 * k" by (auto simp: al4_def)
  have "0 < unat d" using \<open>d \<noteq> 0\<close> by (simp add: unat_gt_0)
  then have "0 < k" using k by simp
  moreover have "k < 1073741824" using k unat_u32_bound [of d] by linarith
  ultimately show ?thesis using k by auto
qed

lemma ld32_st32_other:
  assumes "al4 a" and "al4 b" and "a \<noteq> b"
  shows "ld32 (st32 m (B, a) v) (B, b) = ld32 m (B, b)"
proof -
  have d: "4 \<le> unat (b - a) \<and> unat (b - a) \<le> 4294967292"
    using assms by (intro al4_nonzero al4_diff) simp_all
  have "4 \<le> unat (b + of_nat j - a)" if "j < 4" for j
  proof -
    have "unat (b + of_nat j - a) = unat ((b - a) + of_nat j)" by (simp add: algebra_simps)
    moreover have "unat ((b - a) + of_nat j) = unat (b - a) + j"
      using d that by (subst unat_word_ariths) simp
    ultimately show ?thesis using d by linarith
  qed
  then have "separate (B, a) 4 (B, b) 4" by (auto simp: separate_def in_range_def not_less)
  then show ?thesis
    by (simp add: st_bytes ld32_write_list_separate)
qed

lemma ld32_st32:
  assumes "al4 a" and "al4 b"
  shows "ld32 (st32 m (B, a) v) (B, b) = (if a = b then v else ld32 m (B, b))"
  using assms by (simp add: ld32_st32_same ld32_st32_other)

lemma ld32_clear_entries:
  assumes "al4 a" and "al4 b" and "k \<le> 1024"
  shows "ld32 (clear_entries k a m) (Phys, b) = (if unat (b - a) < 4 * k then 0 else ld32 m (Phys, b))"
  using assms
proof (induction k arbitrary: a m)
  case (Suc k)
  have a4: "al4 (a + 4)" using Suc.prems(1) al4_mult [of 1] by (intro al4_add) simp_all
  have d: "al4 (b - a)" using Suc.prems by (simp add: al4_diff)
  have "unat (b - (a + 4)) < 4 * k \<or> a = b \<longleftrightarrow> unat (b - a) < 4 * Suc k"
  proof (cases "b = a")
    case False
    with al4_nonzero [OF d] have "4 \<le> b - a" "4 \<le> unat (b - a)" by (simp_all add: word_le_nat_alt)
    then have "unat (b - a - 4) = unat (b - a) - 4" by (simp add: unat_sub)
    with False \<open>4 \<le> unat (b - a)\<close> show ?thesis by (auto simp: diff_diff_add)
  qed simp
  with Suc.IH [OF a4 Suc.prems(2), of "st32 m (Phys, a) 0"] Suc.prems show ?case
    by (auto simp: ld32_st32)
qed simp

lemma clear_entries_eq: "clear_entries k a m = write_list m (Phys, a) (replicate (4 * k) 0)"
proof (induction k arbitrary: a m)
  case (Suc k)
  have "write_list m (Phys, a) (replicate (4 * Suc k) 0) =
      write_list (write_list m (Phys, a) (replicate 4 0)) (Phys, a + 4) (replicate (4 * k) 0)"
    using write_list_append [of m "(Phys, a)" "replicate 4 0" "replicate (4 * k) 0"]
    by (simp add: replicate_add [symmetric])
  moreover have "st32 m (Phys, a) 0 = write_list m (Phys, a) (replicate 4 0)"
    by (simp add: st_bytes bytes32_def numeral_eq_Suc)
  ultimately show ?case using Suc by simp
qed simp

subsection \<open>Entries\<close>

lemma entry_mask:
  assumes "b AND ALL_BUT_LAST_12_BITS = b" and "c AND ALL_BUT_LAST_12_BITS = 0"
  shows "m AND ALL_BUT_LAST_12_BITS = 0 \<Longrightarrow> (b + c) AND m = c AND m"
    and "m AND ALL_BUT_LAST_12_BITS = m \<Longrightarrow> (b + c) AND m = b AND m"
proof -
  have "b AND c = (b AND ALL_BUT_LAST_12_BITS) AND c" using assms(1) by simp
  also have "\<dots> = b AND (c AND ALL_BUT_LAST_12_BITS)" by (simp only: ac_simps)
  finally have or: "b + c = b OR c" using assms(2) by (intro disjunctive_add_eq_or) simp
  show "(b + c) AND m = c AND m" if m: "m AND ALL_BUT_LAST_12_BITS = 0"
  proof -
    have "b AND m = (b AND ALL_BUT_LAST_12_BITS) AND m" using assms(1) by simp
    also have "\<dots> = b AND (m AND ALL_BUT_LAST_12_BITS)" by (simp only: ac_simps)
    finally show ?thesis using m by (simp add: or bit.conj_disj_distrib2)
  qed
  show "(b + c) AND m = b AND m" if m: "m AND ALL_BUT_LAST_12_BITS = m"
  proof -
    have "c AND m = c AND (m AND ALL_BUT_LAST_12_BITS)" using m by simp
    also have "\<dots> = (c AND ALL_BUT_LAST_12_BITS) AND m" by (simp only: ac_simps)
    finally show ?thesis using assms(2) by (simp add: or bit.conj_disj_distrib2)
  qed
qed

lemma entry_flags:
  fixes us rw :: bool and b :: u32
  assumes "b AND ALL_BUT_LAST_12_BITS = b"
  defines "e \<equiv> b + of_bool us * US_BIT + of_bool rw * RW_BIT + PRESENT_BIT"
  shows "e AND PRESENT_BIT \<noteq> 0" "e AND PAGE_SIZE_BIT = 0" "e AND US_BIT \<noteq> 0 \<longleftrightarrow> us" "e AND RW_BIT \<noteq> 0 \<longleftrightarrow> rw"
    "e AND ALL_BUT_LAST_12_BITS = b"
proof -
  let ?c = "of_bool us * US_BIT + of_bool rw * RW_BIT + PRESENT_BIT"
  have e: "e = b + ?c" by (simp add: e_def)
  have c: "?c AND ALL_BUT_LAST_12_BITS = 0" by (cases us; cases rw) simp_all
  note m = entry_mask [OF assms(1) c]
  show "e AND PRESENT_BIT \<noteq> 0" "e AND PAGE_SIZE_BIT = 0" "e AND US_BIT \<noteq> 0 \<longleftrightarrow> us" "e AND RW_BIT \<noteq> 0 \<longleftrightarrow> rw"
    unfolding e by (subst m(1), simp, cases us; cases rw; simp)+
  show "e AND ALL_BUT_LAST_12_BITS = b" unfolding e by (subst m(2)) (simp_all add: assms(1))
qed

lemma large_entry_flags:
  fixes us rw :: bool and phys :: u32
  defines "e \<equiv> (phys AND ALL_BUT_LAST_12_BITS) + PAGE_SIZE_BIT + of_bool us * US_BIT + of_bool rw * RW_BIT + PRESENT_BIT"
  shows "e AND PRESENT_BIT \<noteq> 0" "e AND PAGE_SIZE_BIT \<noteq> 0" "e AND US_BIT \<noteq> 0 \<longleftrightarrow> us" "e AND RW_BIT \<noteq> 0 \<longleftrightarrow> rw"
    "e AND TOP_10_BITS = phys AND TOP_10_BITS"
proof -
  let ?c = "PAGE_SIZE_BIT + of_bool us * US_BIT + of_bool rw * RW_BIT + PRESENT_BIT"
  have e: "e = (phys AND ALL_BUT_LAST_12_BITS) + ?c" by (simp add: e_def)
  have b: "(phys AND ALL_BUT_LAST_12_BITS) AND ALL_BUT_LAST_12_BITS = phys AND ALL_BUT_LAST_12_BITS"
    by (simp add: and.assoc)
  have c: "?c AND ALL_BUT_LAST_12_BITS = 0" by (cases us; cases rw) simp_all
  note m = entry_mask [OF b c]
  show "e AND PRESENT_BIT \<noteq> 0" "e AND PAGE_SIZE_BIT \<noteq> 0" "e AND US_BIT \<noteq> 0 \<longleftrightarrow> us" "e AND RW_BIT \<noteq> 0 \<longleftrightarrow> rw"
    unfolding e by (subst m(1), simp, cases us; cases rw; simp)+
  show "e AND TOP_10_BITS = phys AND TOP_10_BITS" unfolding e by (subst m(2)) (simp_all add: and.assoc)
qed

lemma page_mult: "(4096 * x :: u32) AND ALL_BUT_LAST_12_BITS = 4096 * x"
proof -
  have m: "ALL_BUT_LAST_12_BITS = NOT (mask 12)" by (simp add: mask_eq_exp_minus_1)
  have p: "(4096 * x :: u32) = push_bit 12 x" by (simp add: push_bit_eq_mult)
  show ?thesis
    unfolding m p by (rule bit_word_eqI) (auto simp only: bit_and_iff bit_not_iff bit_mask_iff bit_push_bit_iff possible_bit_word)
qed

lemma table_base: "(PAGE_TABLE_STARTADDR + FOUR_KB * i) AND ALL_BUT_LAST_12_BITS = PAGE_TABLE_STARTADDR + FOUR_KB * i"
  using page_mult [of "0xC000 + i"] by (simp add: distrib_left)

subsection \<open>Indices and slots\<close>

lemma dir_ix_less: "dir_ix v < 1024"
proof -
  have "unat v div 4194304 < 1024"
    using unat_u32_bound [of v] by (simp add: div_less_iff_less_mult)
  moreover have "unat (dir_ix v) = unat v div 4194304" by (simp add: unat_div drop_bit_eq_div)
  ultimately show ?thesis by (simp only: word_less_nat_alt) simp
qed

lemma tab_ix_less: "tab_ix v < 1024"
proof -
  have "tab_ix v \<le> 0x3FF" by (rule word_and_le1)
  then show ?thesis by (simp add: word_le_nat_alt word_less_nat_alt)
qed

lemma walk_dir: "drop_bit 22 (v AND TOP_10_BITS) = dir_ix v"
proof -
  have m: "TOP_10_BITS = NOT (mask 22)" by (simp add: mask_eq_exp_minus_1)
  have "bit (drop_bit 22 (v AND NOT (mask 22))) n = bit (dir_ix v) n" if "n < 10" for n
    using that by (simp only: bit_drop_bit_eq comp_def bit_and_iff bit_not_iff bit_mask_iff possible_bit_word) simp
  moreover have "\<not> bit (drop_bit 22 (v AND NOT (mask 22))) n \<and> \<not> bit (dir_ix v) n" if "\<not> n < 10" for n
    using that by (simp only: bit_drop_bit_eq comp_def) (auto dest: bit_imp_le_length)
  ultimately show ?thesis unfolding m by (intro bit_word_eqI) blast
qed

lemma walk_tab: "drop_bit 12 (v AND MIDDLE_10_BITS) = tab_ix v"
proof -
  have "MIDDLE_10_BITS = push_bit 12 (mask 10)" "LAST_10_BITS = mask 10"
    by (simp_all add: mask_eq_exp_minus_1 push_bit_eq_mult)
  then show ?thesis by (simp only:) (rule bit_word_eqI, auto simp: bit_simps)
qed

lemma wf_cr3:
  assumes "wf_paging s"
  shows "al4 (cr3 s)" and "unat (cr3 s) + 4096 \<le> 0xC000000"
proof -
  have "cr3 s AND mask 12 = 0" using assms by (simp add: wf_paging_def mask_eq_exp_minus_1)
  then have "take_bit 12 (cr3 s) = 0" by (simp add: take_bit_eq_mask)
  then have "take_bit 12 (unat (cr3 s)) = 0" by (metis unsigned_take_bit_eq unsigned_0)
  then have "unat (cr3 s) mod 4096 = 0" by (simp add: take_bit_eq_mod)
  then have "4096 dvd unat (cr3 s)" by (simp add: dvd_eq_mod_eq_0)
  then show "al4 (cr3 s)" unfolding al4_def by (rule dvd_trans [rotated]) simp
  show "unat (cr3 s) + 4096 \<le> 0xC000000" using assms by (simp add: wf_paging_def)
qed

lemma unat_dslot:
  assumes "wf_paging s" and "i < 1024"
  shows "unat (cr3 s + 4 * i) = unat (cr3 s) + 4 * unat i"
proof -
  have i: "unat i < 1024" using assms(2) by (simp add: word_less_nat_alt)
  then have "unat (4 * i) = 4 * unat i" by (subst unat_word_ariths) simp
  then show ?thesis using i wf_cr3(2) [OF assms(1)] by (subst unat_word_ariths) simp
qed

lemma unat_tslot:
  assumes "i < 1024" and "j < 1024"
  shows "unat (PAGE_TABLE_STARTADDR + FOUR_KB * i + 4 * j) = 0xC000000 + 4096 * unat i + 4 * unat j"
proof -
  have i: "unat i < 1024" "unat j < 1024" using assms by (simp_all add: word_less_nat_alt)
  then have "unat (FOUR_KB * i) = 4096 * unat i" "unat (4 * j) = 4 * unat j"
    by (subst unat_word_ariths, simp)+
  then show ?thesis using i by (simp add: unat_word_ariths)
qed

lemma al4_slots:
  "wf_paging s \<Longrightarrow> al4 (cr3 s + 4 * i)" "al4 (PAGE_TABLE_STARTADDR + FOUR_KB * i + 4 * j)"
proof -
  show "wf_paging s \<Longrightarrow> al4 (cr3 s + 4 * i)" by (simp add: al4_add wf_cr3)
  have "PAGE_TABLE_STARTADDR + FOUR_KB * i + 4 * j = 4 * (0x3000000 + 0x400 * i + j)" by (simp add: algebra_simps)
  then show "al4 (PAGE_TABLE_STARTADDR + FOUR_KB * i + 4 * j)" by (simp only: al4_mult)
qed

lemma slot_eq:
  assumes "wf_paging s" and "i < 1024" and "j < 1024" and "i' < 1024" and "j' < 1024"
  shows "cr3 s + 4 * i = cr3 s + 4 * i' \<longleftrightarrow> i = i'"
    and "cr3 s + 4 * i \<noteq> PAGE_TABLE_STARTADDR + FOUR_KB * i' + 4 * j"
    and "PAGE_TABLE_STARTADDR + FOUR_KB * i + 4 * j = PAGE_TABLE_STARTADDR + FOUR_KB * i' + 4 * j' \<longleftrightarrow> i = i' \<and> j = j'"
proof -
  have b: "unat i < 1024" "unat j < 1024" "unat i' < 1024" "unat j' < 1024"
    using assms by (simp_all add: word_less_nat_alt)
  show "cr3 s + 4 * i = cr3 s + 4 * i' \<longleftrightarrow> i = i'"
    using unat_dslot [OF assms(1,2)] unat_dslot [OF assms(1,4)] by (metis add_left_cancel mult_cancel1 word_unat_eq_iff zero_neq_numeral)
  show "cr3 s + 4 * i \<noteq> PAGE_TABLE_STARTADDR + FOUR_KB * i' + 4 * j"
    using unat_dslot [OF assms(1,2)] unat_tslot [OF assms(4,3)] wf_cr3(2) [OF assms(1)] b
    by (intro notI) (drule arg_cong [of _ _ unat], simp)
  have "4096 * unat i + 4 * unat j = 4096 * unat i' + 4 * unat j' \<longleftrightarrow> unat i = unat i' \<and> unat j = unat j'"
  proof
    assume eq: "4096 * unat i + 4 * unat j = 4096 * unat i' + 4 * unat j'"
    then have "unat i = unat i'" using b by linarith
    with eq show "unat i = unat i' \<and> unat j = unat j'" by simp
  qed simp
  then show "PAGE_TABLE_STARTADDR + FOUR_KB * i + 4 * j = PAGE_TABLE_STARTADDR + FOUR_KB * i' + 4 * j' \<longleftrightarrow> i = i' \<and> j = j'"
    using unat_tslot [OF assms(2,3)] unat_tslot [OF assms(4,5)]
    by (simp only: word_unat_eq_iff [of "PAGE_TABLE_STARTADDR + FOUR_KB * i + 4 * j"] word_unat_eq_iff [of i] word_unat_eq_iff [of j]) simp
qed

subsection \<open>Stores to the directory and the tables\<close>

definition set_pde :: "u32 \<Rightarrow> u32 \<Rightarrow> kernel \<Rightarrow> kernel" where
  "set_pde d e s = upd_mem (\<lambda>m. st32 m (Phys, cr3 s + 4 * d) e) s"

definition set_pte :: "u32 \<Rightarrow> u32 \<Rightarrow> u32 \<Rightarrow> kernel \<Rightarrow> kernel" where
  "set_pte d t e s = upd_mem (\<lambda>m. st32 m (Phys, PAGE_TABLE_STARTADDR + FOUR_KB * d + 4 * t) e) s"

definition clear_table :: "u32 \<Rightarrow> kernel \<Rightarrow> kernel" where
  "clear_table d s = upd_mem (clear_entries 1024 (PAGE_TABLE_STARTADDR + FOUR_KB * d)) s"

lemma paging_store_cr3 [simp]:
  "cr3 (set_pde d e s) = cr3 s" "cr3 (set_pte d t e s) = cr3 s" "cr3 (clear_table d s) = cr3 s"
  by (simp_all add: set_pde_def set_pte_def clear_table_def)

lemma set_pde_entries:
  assumes "wf_paging s" and "d < 1024" and "i < 1024"
  shows "pde (set_pde d e s) i = (if i = d then e else pde s i)"
    and "j < 1024 \<Longrightarrow> pte (set_pde d e s) i j = pte s i j"
  using assms al4_slots(1) [OF assms(1)] al4_slots(2) slot_eq [OF assms(1)]
  by (auto simp: pde_def pte_def set_pde_def ld32_st32)

lemma set_pte_entries:
  assumes "wf_paging s" and "d < 1024" and "t < 1024" and "i < 1024"
  shows "pde (set_pte d t e s) i = pde s i"
    and "j < 1024 \<Longrightarrow> pte (set_pte d t e s) i j = (if i = d \<and> j = t then e else pte s i j)"
proof -
  show "pde (set_pte d t e s) i = pde s i"
    using al4_slots(1) [OF assms(1)] al4_slots(2) slot_eq(2) [OF assms(1,4,3,2,3)]
    by (simp add: pde_def set_pte_def ld32_st32)
  show "pte (set_pte d t e s) i j = (if i = d \<and> j = t then e else pte s i j)" if "j < 1024"
    using slot_eq(3) [OF assms(1,2,3,4) that] al4_slots(2)
    by (auto simp: pte_def set_pte_def ld32_st32)
qed

lemma clear_table_entries:
  assumes "wf_paging s" and "d < 1024" and "i < 1024"
  shows "pde (clear_table d s) i = pde s i"
    and "j < 1024 \<Longrightarrow> pte (clear_table d s) i j = (if i = d then 0 else pte s i j)"
proof -
  have nat: "unat d < 1024" "unat i < 1024" using assms by (simp_all add: word_less_nat_alt)
  let ?T = "PAGE_TABLE_STARTADDR + FOUR_KB * d"
  have T: "unat ?T = 0xC000000 + 4096 * unat d"
    using unat_tslot [OF assms(2), of 0] by simp
  have al: "al4 ?T" using al4_slots(2) [of d 0] by simp
  have lt: "unat (b - ?T) < 4096 \<longleftrightarrow> unat ?T \<le> unat b \<and> unat b < unat ?T + 4096" for b
  proof (cases "?T \<le> b")
    case True
    then show ?thesis by (auto simp: unat_sub word_le_nat_alt)
  next
    case False
    then have lt: "unat b < unat ?T" by (simp add: word_le_nat_alt)
    have "unat (b - ?T) = unat b + 2 ^ 32 - unat ?T" using False lt by (simp add: unat_sub_if' word_le_nat_alt)
    with lt T nat show ?thesis by simp
  qed
  have "\<not> unat (cr3 s + 4 * i - ?T) < 4096"
    unfolding lt using unat_dslot [OF assms(1,3)] wf_cr3(2) [OF assms(1)] T nat by linarith
  then show "pde (clear_table d s) i = pde s i"
    using al al4_slots(1) [OF assms(1)] by (simp add: pde_def clear_table_def ld32_clear_entries)
  show "pte (clear_table d s) i j = (if i = d then 0 else pte s i j)" if j: "j < 1024"
  proof -
    have uj: "unat j < 1024" using j by (simp add: word_less_nat_alt)
    have "unat (PAGE_TABLE_STARTADDR + FOUR_KB * i + 4 * j - ?T) < 4096 \<longleftrightarrow> unat i = unat d"
      unfolding lt unat_tslot [OF assms(3) j] T using uj by auto
    then show ?thesis
      using al al4_slots(2) by (simp add: pte_def clear_table_def ld32_clear_entries word_unat_eq_iff)
  qed
qed

lemma entry_page_present: "b AND ALL_BUT_LAST_12_BITS = b \<Longrightarrow>
    entry_page (b + of_bool us * US_BIT + of_bool rw * RW_BIT + PRESENT_BIT) = Some (small_page b us rw)"
  using entry_flags [of b us rw] by (simp add: entry_page_def small_page_def)

lemma entry_page_0 [simp]: "entry_page 0 = None"
  by (simp add: entry_page_def)

lemma entry_region_cong:
  assumes "\<And>j. j < 1024 \<Longrightarrow> t j = t' j"
  shows "entry_region e t = entry_region e t'"
  using assms by (auto simp: entry_region_def fun_eq_iff)

lemma abs_set_pde:
  assumes "wf_paging s" and "d < 1024"
  shows "abs_space (set_pde d e s) = (abs_space s)(d := entry_region e (pte s d))"
proof
  fix i
  show "abs_space (set_pde d e s) i = ((abs_space s)(d := entry_region e (pte s d))) i"
    using set_pde_entries [OF assms] assms(2) by (auto simp: abs_space_def intro: entry_region_cong)
qed

lemma abs_set_pte:
  assumes "wf_paging s" and "d < 1024" and "t < 1024"
    and "pde s d AND PRESENT_BIT \<noteq> 0" and "pde s d AND PAGE_SIZE_BIT = 0"
  shows "abs_space (set_pte d t e s) = (abs_space s)(d := Table (pde s d AND US_BIT \<noteq> 0) (pde s d AND RW_BIT \<noteq> 0)
    ((\<lambda>j. if j < 1024 then entry_page (pte s d j) else None)(t := entry_page e)))"
proof
  fix i
  show "abs_space (set_pte d t e s) i = ((abs_space s)(d := Table (pde s d AND US_BIT \<noteq> 0) (pde s d AND RW_BIT \<noteq> 0)
    ((\<lambda>j. if j < 1024 then entry_page (pte s d j) else None)(t := entry_page e)))) i"
  proof (cases "i = d")
    case True
    then show ?thesis
      using set_pte_entries [OF assms(1-3) assms(2)] assms(2-5)
      by (simp add: abs_space_def entry_region_def) (auto simp: fun_eq_iff)
  next
    case False
    then show ?thesis
      using set_pte_entries [OF assms(1-3)] by (auto simp: abs_space_def intro: entry_region_cong)
  qed
qed

lemma wf_set_pde:
  assumes "wf_paging s" and "d < 1024"
    and "e AND PRESENT_BIT \<noteq> 0 \<Longrightarrow> e AND PAGE_SIZE_BIT = 0 \<Longrightarrow> e AND ALL_BUT_LAST_12_BITS = PAGE_TABLE_STARTADDR + FOUR_KB * d"
  shows "wf_paging (set_pde d e s)"
  using assms set_pde_entries(1) [OF assms(1,2)] by (auto simp: wf_paging_def)

lemma wf_set_pte: "wf_paging s \<Longrightarrow> d < 1024 \<Longrightarrow> t < 1024 \<Longrightarrow> wf_paging (set_pte d t e s)"
  using set_pte_entries(1) by (auto simp: wf_paging_def)

lemma wf_clear_table: "wf_paging s \<Longrightarrow> d < 1024 \<Longrightarrow> wf_paging (clear_table d s)"
  using clear_table_entries(1) by (auto simp: wf_paging_def)

subsection \<open>The page walk and map_page\<close>

lemma resolve_lookup:
  assumes "wf_paging s"
  shows "resolve_virt_addr v s = as_lookup (abs_space s) v"
proof -
  have "pde s (dir_ix v) AND ALL_BUT_LAST_12_BITS = PAGE_TABLE_STARTADDR + FOUR_KB * dir_ix v"
    if "pde s (dir_ix v) AND PRESENT_BIT \<noteq> 0" "pde s (dir_ix v) AND PAGE_SIZE_BIT = 0"
    using assms that dir_ix_less [of v] by (simp add: wf_paging_def)
  then show ?thesis
    unfolding resolve_virt_addr_def Let_def walk_dir walk_tab pde_def [symmetric]
    using dir_ix_less [of v] tab_ix_less [of v]
    by (auto simp: as_lookup_def abs_space_def entry_region_def entry_page_def large_page_def small_page_def pte_def)
qed

text \<open>The three ways in which \<^verbatim>\<open>map_page\<close> succeeds, and when it fails.\<close>

definition page_bits :: "bool \<Rightarrow> bool \<Rightarrow> u32 \<Rightarrow> u32" where
  "page_bits us rw b = b + of_bool us * US_BIT + of_bool rw * RW_BIT + PRESENT_BIT"

lemma map_page_eq:
  fixes virt :: u32
  assumes "wf_paging s"
  defines "d \<equiv> dir_ix virt" and "t \<equiv> tab_ix virt"
  shows "map_page phys virt large us rw remap s =
    (if phys = 0 \<or> virt = 0 then (-1, s)
     else if pde s d AND PRESENT_BIT = 0 \<or> remap
     then if large then (0, set_pde d (page_bits us rw ((phys AND ALL_BUT_LAST_12_BITS) + PAGE_SIZE_BIT)) s)
          else (0, set_pte d t (page_bits us rw (phys AND ALL_BUT_LAST_12_BITS))
                     (set_pde d (page_bits us rw (PAGE_TABLE_STARTADDR + FOUR_KB * d)) (clear_table d s)))
     else if large \<or> pde s d AND PAGE_SIZE_BIT \<noteq> 0 \<or> pte s d t AND PRESENT_BIT \<noteq> 0 then (-1, s)
     else (0, set_pte d t (page_bits us rw (phys AND ALL_BUT_LAST_12_BITS)) s))"
proof -
  have "pde s d AND ALL_BUT_LAST_12_BITS = PAGE_TABLE_STARTADDR + FOUR_KB * d"
    if "pde s d AND PRESENT_BIT \<noteq> 0" "pde s d AND PAGE_SIZE_BIT = 0"
    using assms(1) that dir_ix_less [of virt] by (simp add: wf_paging_def d_def)
  then show ?thesis
    unfolding map_page_def Let_def
    by (auto simp: d_def t_def page_bits_def pde_def pte_def set_pde_def set_pte_def clear_table_def)
qed

lemma page_bits_flags:
  assumes "b AND ALL_BUT_LAST_12_BITS = b"
  shows "page_bits us rw b AND PRESENT_BIT \<noteq> 0" "page_bits us rw b AND PAGE_SIZE_BIT = 0"
    "page_bits us rw b AND US_BIT \<noteq> 0 \<longleftrightarrow> us" "page_bits us rw b AND RW_BIT \<noteq> 0 \<longleftrightarrow> rw"
    "page_bits us rw b AND ALL_BUT_LAST_12_BITS = b"
  unfolding page_bits_def using entry_flags [OF assms] by auto

lemma large_bits_flags:
  defines "e \<equiv> \<lambda>us rw phys. page_bits us rw ((phys AND ALL_BUT_LAST_12_BITS) + PAGE_SIZE_BIT)"
  shows "e us rw phys AND PRESENT_BIT \<noteq> 0" "e us rw phys AND PAGE_SIZE_BIT \<noteq> 0"
  unfolding e_def page_bits_def using large_entry_flags [of phys us rw] by auto

lemma entry_region_bits:
  "entry_region (page_bits us rw ((phys AND ALL_BUT_LAST_12_BITS) + PAGE_SIZE_BIT)) t = Large (large_page phys us rw)"
  "b AND ALL_BUT_LAST_12_BITS = b \<Longrightarrow>
     entry_region (page_bits us rw b) t = Table us rw (\<lambda>j. if j < 1024 then entry_page (t j) else None)"
  using large_entry_flags [of phys us rw] entry_flags [of b us rw]
  by (auto simp: entry_region_def large_page_def page_bits_def)

lemma entry_page_bits:
  "entry_page (page_bits us rw (phys AND ALL_BUT_LAST_12_BITS)) = Some (small_page phys us rw)"
  using entry_page_present [of "phys AND ALL_BUT_LAST_12_BITS" us rw]
  by (simp add: page_bits_def small_page_def and.assoc)

lemma map_large:
  fixes phys virt :: u32 and us rw :: bool
  assumes "wf_paging s"
  defines "s' \<equiv> set_pde (dir_ix virt) (page_bits us rw ((phys AND ALL_BUT_LAST_12_BITS) + PAGE_SIZE_BIT)) s"
  shows "abs_space s' = (abs_space s)(dir_ix virt := Large (large_page phys us rw))" and "wf_paging s'"
  using assms(1) large_bits_flags [of us rw phys]
  by (simp_all add: s'_def abs_set_pde dir_ix_less entry_region_bits wf_set_pde)

lemma map_fresh:
  fixes phys virt :: u32 and us rw :: bool
  assumes "wf_paging s"
  defines "d \<equiv> dir_ix virt"
  defines "s' \<equiv> set_pte d (tab_ix virt) (page_bits us rw (phys AND ALL_BUT_LAST_12_BITS))
    (set_pde d (page_bits us rw (PAGE_TABLE_STARTADDR + FOUR_KB * d)) (clear_table d s))"
  shows "abs_space s' = (abs_space s)(d := Table us rw (Map.empty(tab_ix virt \<mapsto> small_page phys us rw)))"
    and "wf_paging s'"
proof -
  let ?b = "PAGE_TABLE_STARTADDR + FOUR_KB * d"
  let ?c = "clear_table d s"
  let ?e = "set_pde d (page_bits us rw ?b) ?c"
  have d: "d < 1024" and t: "tab_ix virt < 1024" by (simp_all add: d_def dir_ix_less tab_ix_less)
  have wc: "wf_paging ?c" using assms(1) d by (rule wf_clear_table)
  note fl = page_bits_flags [OF table_base, of us rw d]
  have we: "wf_paging ?e" using wc d fl by (intro wf_set_pde) simp_all
  then show "wf_paging s'" unfolding s'_def using d t by (rule wf_set_pte)
  have "abs_space ?c i = abs_space s i" if "i \<noteq> d" for i
    using that clear_table_entries [OF assms(1) d] by (auto simp: abs_space_def intro: entry_region_cong)
  then have "(abs_space ?c)(d := r) = (abs_space s)(d := r)" for r by (simp add: fun_eq_iff)
  moreover have "pde ?e d = page_bits us rw ?b" "\<And>j. j < 1024 \<Longrightarrow> pte ?e d j = 0"
    using set_pde_entries [OF wc d d] clear_table_entries(2) [OF assms(1) d d] by simp_all
  moreover from this have "(\<lambda>j. if j < 1024 then entry_page (pte ?e d j) else None) = Map.empty" by auto
  ultimately show "abs_space s' = (abs_space s)(d := Table us rw (Map.empty(tab_ix virt \<mapsto> small_page phys us rw)))"
    using abs_set_pte [OF we d t] fl abs_set_pde [OF wc d, of "page_bits us rw ?b"]
    unfolding s'_def by (simp add: entry_page_bits)
qed

lemma map_existing:
  fixes phys virt :: u32 and us rw :: bool
  assumes "wf_paging s"
  defines "d \<equiv> dir_ix virt"
  assumes "pde s d AND PRESENT_BIT \<noteq> 0" and "pde s d AND PAGE_SIZE_BIT = 0"
  defines "s' \<equiv> set_pte d (tab_ix virt) (page_bits us rw (phys AND ALL_BUT_LAST_12_BITS)) s"
  shows "\<exists>us' rw' tb. abs_space s d = Table us' rw' tb
    \<and> tb (tab_ix virt) = entry_page (pte s d (tab_ix virt))
    \<and> abs_space s' = (abs_space s)(d := Table us' rw' (tb(tab_ix virt \<mapsto> small_page phys us rw)))"
    and "wf_paging s'"
proof -
  have d: "d < 1024" and t: "tab_ix virt < 1024" by (simp_all add: d_def dir_ix_less tab_ix_less)
  show "wf_paging s'" unfolding s'_def using assms(1) d t by (rule wf_set_pte)
  show "\<exists>us' rw' tb. abs_space s d = Table us' rw' tb
    \<and> tb (tab_ix virt) = entry_page (pte s d (tab_ix virt))
    \<and> abs_space s' = (abs_space s)(d := Table us' rw' (tb(tab_ix virt \<mapsto> small_page phys us rw)))"
    using abs_set_pte [OF assms(1) d t assms(3,4)] assms(3,4) d t
    by (simp add: s'_def entry_page_bits abs_space_def entry_region_def)
qed

lemma abs_space_dir:
  "abs_space s (dir_ix v) = Unmapped \<longleftrightarrow> pde s (dir_ix v) AND PRESENT_BIT = 0"
  "pde s (dir_ix v) AND PRESENT_BIT \<noteq> 0 \<Longrightarrow> pde s (dir_ix v) AND PAGE_SIZE_BIT \<noteq> 0 \<Longrightarrow> \<exists>p. abs_space s (dir_ix v) = Large p"
  using dir_ix_less [of v] by (simp_all add: abs_space_def entry_region_def)

lemma map_page_new:
  assumes "wf_paging s" and "phys \<noteq> 0" and "virt \<noteq> 0" and "pde s (dir_ix virt) AND PRESENT_BIT = 0 \<or> remap"
  shows "\<exists>s'. as_map phys virt large us rw remap (abs_space s) = Some (abs_space s')
    \<and> map_page phys virt large us rw remap s = (0, s') \<and> wf_paging s'"
proof -
  have as: "as_map phys virt large us rw remap (abs_space s) = Some ((abs_space s)(dir_ix virt :=
      if large then Large (large_page phys us rw)
      else Table us rw (Map.empty(tab_ix virt \<mapsto> small_page phys us rw))))"
    using assms abs_space_dir(1) [of s virt] by (simp only: as_map_def if_False simp_thms if_True)
  show ?thesis
  proof (cases large)
    case True
    then show ?thesis
      using map_large [OF assms(1), of virt us rw phys] assms(2-4) as
      by (simp only: map_page_eq [OF assms(1)] if_False if_True simp_thms) metis
  next
    case False
    then show ?thesis
      using map_fresh [OF assms(1), of virt us rw phys] assms(2-4) as
      by (simp only: map_page_eq [OF assms(1)] if_False if_True simp_thms) metis
  qed
qed

lemma map_page_table:
  fixes us rw :: bool and phys virt :: u32 and s :: kernel
  assumes "wf_paging s" and "phys \<noteq> 0" and "virt \<noteq> 0" and "\<not> remap"
    and "pde s (dir_ix virt) AND PRESENT_BIT \<noteq> 0" and "pde s (dir_ix virt) AND PAGE_SIZE_BIT = 0"
  defines "used \<equiv> pte s (dir_ix virt) (tab_ix virt) AND PRESENT_BIT \<noteq> 0"
  defines "s' \<equiv> set_pte (dir_ix virt) (tab_ix virt) (page_bits us rw (phys AND ALL_BUT_LAST_12_BITS)) s"
  shows "as_map phys virt large us rw remap (abs_space s) = (if large \<or> used then None else Some (abs_space s'))"
    and "map_page phys virt large us rw remap s = (if large \<or> used then (-1, s) else (0, s'))"
proof -
  obtain us' rw' tb where tb: "abs_space s (dir_ix virt) = Table us' rw' tb"
      "tb (tab_ix virt) = entry_page (pte s (dir_ix virt) (tab_ix virt))"
      "abs_space s' = (abs_space s)(dir_ix virt := Table us' rw' (tb(tab_ix virt \<mapsto> small_page phys us rw)))"
    using map_existing(1) [OF assms(1,5,6), of us rw phys] unfolding s'_def by blast
  have "tb (tab_ix virt) \<noteq> None \<longleftrightarrow> used"
    by (simp add: tb(2) used_def entry_page_def)
  then show "as_map phys virt large us rw remap (abs_space s) = (if large \<or> used then None else Some (abs_space s'))"
    using assms(2-4) tb by (auto simp: as_map_def)
  show "map_page phys virt large us rw remap s = (if large \<or> used then (-1, s) else (0, s'))"
    using assms(2-6) unfolding used_def s'_def by (simp only: map_page_eq [OF assms(1)] if_False if_True simp_thms)
qed

lemma map_page_spec:
  assumes "wf_paging s"
  shows "case as_map phys virt large us rw remap (abs_space s) of
      None \<Rightarrow> map_page phys virt large us rw remap s = (-1, s)
    | Some A \<Rightarrow> \<exists>s'. map_page phys virt large us rw remap s = (0, s') \<and> abs_space s' = A \<and> wf_paging s'"
proof -
  let ?d = "dir_ix virt"
  consider "phys = 0 \<or> virt = 0"
    | "phys \<noteq> 0" "virt \<noteq> 0" "pde s ?d AND PRESENT_BIT = 0 \<or> remap"
    | "phys \<noteq> 0" "virt \<noteq> 0" "\<not> remap" "pde s ?d AND PRESENT_BIT \<noteq> 0" "pde s ?d AND PAGE_SIZE_BIT \<noteq> 0"
    | "phys \<noteq> 0" "virt \<noteq> 0" "\<not> remap" "pde s ?d AND PRESENT_BIT \<noteq> 0" "pde s ?d AND PAGE_SIZE_BIT = 0"
    by blast
  then show ?thesis
  proof cases
    case 1
    then show ?thesis by (simp add: map_page_def as_map_def)
  next
    case 2
    from map_page_new [OF assms 2] obtain s' where
      "as_map phys virt large us rw remap (abs_space s) = Some (abs_space s')"
      "map_page phys virt large us rw remap s = (0, s')" "wf_paging s'" by blast
    then show ?thesis by simp
  next
    case 3
    then obtain p where "abs_space s ?d = Large p" using abs_space_dir(2) by blast
    then have "as_map phys virt large us rw remap (abs_space s) = None"
      using 3 by (simp add: as_map_def)
    moreover have "map_page phys virt large us rw remap s = (-1, s)"
      using 3 by (simp only: map_page_eq [OF assms] if_False if_True simp_thms)
    ultimately show ?thesis by simp
  next
    case 4
    then show ?thesis
      using map_page_table [OF assms 4, of large us rw] map_existing(2) [OF assms 4(4,5), of us rw phys]
      by (cases "large \<or> pte s ?d (tab_ix virt) AND PRESENT_BIT \<noteq> 0") auto
  qed
qed


subsection \<open>What map_page leaves alone\<close>

lemma in_range_inner:
  assumes "in_range (padd p (of_nat k)) n q" and "k + n \<le> N" and "N \<le> 2 ^ 32"
  shows "in_range p N q"
proof -
  let ?x = "snd q - (snd p + of_nat k)"
  have x: "unat ?x < n" "fst q = fst p" using assms(1) by (simp_all add: in_range_def)
  have "snd q - snd p = ?x + of_nat k" by simp
  moreover have "unat (?x + of_nat k) = unat ?x + k"
    using x assms(2,3) by (subst unat_word_ariths) simp
  ultimately have "unat (snd q - snd p) < N" using x assms(2) by simp
  then show ?thesis using x by (simp add: in_range_def)
qed

definition page_area :: "u32 \<Rightarrow> ptr \<Rightarrow> bool" where
  "page_area dir q \<longleftrightarrow> in_range (Phys, dir) 4096 q \<or> in_range (Phys, PAGE_TABLE_STARTADDR) 0x400000 q"

lemma set_pde_frame:
  assumes "d < 1024" and "\<not> page_area (cr3 s) q"
  shows "mem (set_pde d e s) q = mem s q"
proof -
  have d: "unat d < 1024" using assms(1) by (simp add: word_less_nat_alt)
  have "\<not> in_range (Phys, cr3 s + 4 * d) 4 q"
    using in_range_inner [of "(Phys, cr3 s)" "4 * unat d" 4 q 4096] d assms(2) by (auto simp: page_area_def)
  then show ?thesis by (simp add: set_pde_def st_bytes write_list_other)
qed

lemma table_area: "d < 1024 \<Longrightarrow> in_range (Phys, PAGE_TABLE_STARTADDR + FOUR_KB * d + of_nat k) n q
    \<Longrightarrow> k + n \<le> 4096 \<Longrightarrow> in_range (Phys, PAGE_TABLE_STARTADDR) 0x400000 q"
  using in_range_inner [of "(Phys, PAGE_TABLE_STARTADDR)" "4096 * unat d + k" n q "0x400000"]
  by (simp add: word_less_nat_alt add.assoc)

lemma set_pte_frame:
  assumes "d < 1024" and "t < 1024" and "\<not> page_area dir q"
  shows "mem (set_pte d t e s) q = mem s q"
proof -
  have t: "unat t < 1024" using assms(2) by (simp add: word_less_nat_alt)
  have "\<not> in_range (Phys, PAGE_TABLE_STARTADDR + FOUR_KB * d + 4 * t) 4 q"
    using table_area [OF assms(1), of "4 * unat t" 4 q] t assms(3) by (auto simp: page_area_def)
  then show ?thesis by (simp add: set_pte_def st_bytes write_list_other)
qed

lemma clear_table_frame:
  assumes "d < 1024" and "\<not> page_area dir q"
  shows "mem (clear_table d s) q = mem s q"
  using table_area [OF assms(1), of 0 4096 q] assms(2)
  by (auto simp: clear_table_def clear_entries_eq page_area_def intro!: write_list_other)

lemma map_page_frame:
  assumes "wf_paging s" and "map_page phys virt large us rw remap s = (r, s')"
  shows "s' = s\<lparr>mem := mem s'\<rparr>" and "\<not> page_area (cr3 s) q \<Longrightarrow> mem s' q = mem s q"
proof -
  note ix = dir_ix_less [of virt] tab_ix_less [of virt]
  show "s' = s\<lparr>mem := mem s'\<rparr>"
    using assms(2) unfolding map_page_def Let_def by (auto simp: upd_mem_def split: if_splits)
  show "mem s' q = mem s q" if q: "\<not> page_area (cr3 s) q"
  proof -
    have "mem (set_pde (dir_ix virt) e x) q = mem x q" if "cr3 x = cr3 s" for e x
      using set_pde_frame [OF ix(1), of x q e] q that by simp
    then show ?thesis
      using assms(2) set_pte_frame [OF ix q] clear_table_frame [OF ix(1) q]
      unfolding map_page_eq [OF assms(1)] by (auto split: if_splits)
  qed
qed

text \<open>
  C6: \<^verbatim>\<open>map_page\<close> implements the update of the address space. With well-formed page tables, for any
  addresses, page size, rights and remap flag: it returns -1 exactly when the specification has no
  result (a null address, a region or page already in use, a large page over a table) and then
  changes nothing; otherwise it returns 0, the page tables stand for the updated address space
  and are well-formed again, and no memory outside the directory and the tables has changed.
\<close>

theorem map_page_refines:
  assumes "wf_paging s"
  shows "case as_map phys virt large us rw remap (abs_space s) of
      None \<Rightarrow> map_page phys virt large us rw remap s = (-1, s)
    | Some A \<Rightarrow> \<exists>s'. map_page phys virt large us rw remap s = (0, s') \<and> abs_space s' = A \<and> wf_paging s'
        \<and> (\<forall>q. page_area (cr3 s) q \<or> mem s' q = mem s q)"
  using map_page_spec [OF assms, of phys virt large us rw remap] map_page_frame(2) [OF assms]
  by (fastforce split: option.splits)

theorem map_page_refines_witness:
  "\<exists>s'. map_page 0x800000 0x8000000 True True True True (blank_kernel (\<lambda>_. 0)) = (0, s')
    \<and> abs_space s' 32 = Large (large_page 0x800000 True True) \<and> wf_paging s'"
proof -
  have "wf_paging (blank_kernel (\<lambda>_. 0))"
    by (simp add: wf_paging_def pde_def blank_kernel_def ld32_def)
  from map_page_refines [OF this, where phys = "0x800000" and virt = "0x8000000" and large = True and us = True and rw = True and remap = True] show ?thesis
    by (auto simp: as_map_def)
qed
subsection \<open>The initial address space\<close>

text \<open>An address as region, page of the region, and offset.\<close>

lemma unat_parts:
  fixes v :: u32
  shows "unat (dir_ix v) = unat v div 4194304" and "unat (tab_ix v) = unat v div 4096 mod 1024"
    and "unat (v AND LAST_22_BITS) = unat v mod 4194304" and "unat (v AND LAST_12_BITS) = unat v mod 4096"
proof -
  have and_mask: "unat (w AND mask n) = unat w mod 2 ^ n" for w :: u32 and n
    by (metis take_bit_eq_mask take_bit_eq_mod unsigned_take_bit_eq)
  have m: "LAST_22_BITS = mask 22" "LAST_12_BITS = mask 12" "LAST_10_BITS = mask 10"
    by (simp_all add: mask_eq_exp_minus_1)
  show "unat (dir_ix v) = unat v div 4194304" by (simp add: unat_div drop_bit_eq_div)
  have "unat (drop_bit 12 v) = unat v div 4096" by (simp add: unat_div drop_bit_eq_div)
  then show "unat (tab_ix v) = unat v div 4096 mod 1024" unfolding m(3) and_mask by simp
  show "unat (v AND LAST_22_BITS) = unat v mod 4194304" unfolding m(1) and_mask by simp
  show "unat (v AND LAST_12_BITS) = unat v mod 4096" unfolding m(2) and_mask by simp
qed

lemma clear_dir:
  assumes "page_directory s AND LAST_12_BITS = 0" and "unat (page_directory s) + 4096 \<le> unat PAGE_TABLE_STARTADDR"
  defines "s' \<equiv> upd_mem (clear_entries 1024 (page_directory s)) s\<lparr>cr3 := page_directory s\<rparr>"
  shows "wf_paging s'" and "abs_space s' = (\<lambda>_. Unmapped)"
proof -
  let ?z = "blank_kernel (\<lambda>_. 0)\<lparr>cr3 := page_directory s\<rparr>"
  have z: "wf_paging ?z"
    using assms(1,2) by (simp add: wf_paging_def pde_def blank_kernel_def ld32_def)
  have "pde s' i = 0" if "i < 1024" for i
  proof -
    have "unat i < 1024" using that by (simp add: word_less_nat_alt)
    then have "unat (4 * i) = 4 * unat i" by (subst unat_word_ariths) simp
    moreover have "al4 (page_directory s)" using wf_cr3(1) [OF z] by simp
    ultimately show ?thesis
      using \<open>unat i < 1024\<close> by (simp add: pde_def s'_def ld32_clear_entries al4_add)
  qed
  then show "wf_paging s'" "abs_space s' = (\<lambda>_. Unmapped)"
    using assms(1,2) by (auto simp: wf_paging_def abs_space_def entry_region_def fun_eq_iff s'_def)
qed

lemma map_page_abs:
  assumes "wf_paging s" and "as_map phys virt large us rw remap (abs_space s) = Some A"
  shows "abs_space (snd (map_page phys virt large us rw remap s)) = A"
    and "wf_paging (snd (map_page phys virt large us rw remap s))"
  using map_page_spec [OF assms(1), of phys virt large us rw remap] assms(2) by auto

lemma map_video_4: "map_video 4 0 s =
    (let m = (\<lambda>a s. snd (map_page a a False False True False s)) in m 0xBB000 (m 0xBA000 (m 0xB9000 (m 0xB8000 s))))"
  by (simp add: numeral_eq_Suc)

definition kernel_space :: aspace where
  "kernel_space = (\<lambda>_. Unmapped)(
     0 := Table False True (Map.empty(0xB8 \<mapsto> small_page 0xB8000 False True, 0xB9 \<mapsto> small_page 0xB9000 False True,
            0xBA \<mapsto> small_page 0xBA000 False True, 0xBB \<mapsto> small_page 0xBB000 False True)),
     1 := Large (large_page KERNEL_ADDR False True),
     34 := Table True True (Map.empty(0 \<mapsto> small_page VIDEO_ADDR True True)),
     48 := Large (large_page PAGE_TABLE_STARTADDR False True))"

lemma paging_init_space:
  assumes "page_directory s AND LAST_12_BITS = 0" and "unat (page_directory s) + 4096 \<le> unat PAGE_TABLE_STARTADDR"
  shows "abs_space (paging_init s) = kernel_space" and "wf_paging (paging_init s)"
proof -
  let ?m = "\<lambda>a s. snd (map_page a a False False True False s)"
  define s0 where "s0 = upd_mem (clear_entries 1024 (page_directory s)) s\<lparr>cr3 := page_directory s\<rparr>"
  define s1 where "s1 = snd (map_page KERNEL_ADDR KERNEL_ADDR True False True False s0)"
  define s2 where "s2 = ?m 0xB8000 s1"
  define s3 where "s3 = ?m 0xB9000 s2"
  define s4 where "s4 = ?m 0xBA000 s3"
  define s5 where "s5 = ?m 0xBB000 s4"
  define s6 where "s6 = snd (map_page VIDEO_ADDR VIDMAP_VIRT_ADDR False True True False s5)"
  define s7 where "s7 = snd (map_page PAGE_TABLE_STARTADDR PAGE_TABLE_STARTADDR True False True False s6)"
  note [simp] = as_map_def
  have a0: "wf_paging s0" "abs_space s0 = (\<lambda>_. Unmapped)" unfolding s0_def by (rule clear_dir [OF assms])+
  have a1: "wf_paging s1" "abs_space s1 = (\<lambda>_. Unmapped)(1 := Large (large_page KERNEL_ADDR False True))"
    unfolding s1_def by (rule map_page_abs [OF a0(1)], simp add: a0(2))+
  let ?t = "\<lambda>t. (abs_space s1)(0 := Table False True t)"
  have a2: "wf_paging s2" "abs_space s2 = ?t (Map.empty(0xB8 \<mapsto> small_page 0xB8000 False True))"
    unfolding s2_def by (rule map_page_abs [OF a1(1)], simp add: a1(2))+
  have a3: "wf_paging s3" "abs_space s3 = ?t (Map.empty(0xB8 \<mapsto> small_page 0xB8000 False True, 0xB9 \<mapsto> small_page 0xB9000 False True))"
    unfolding s3_def by (rule map_page_abs [OF a2(1)], simp add: a2(2))+
  have a4: "wf_paging s4" "abs_space s4 = ?t (Map.empty(0xB8 \<mapsto> small_page 0xB8000 False True, 0xB9 \<mapsto> small_page 0xB9000 False True, 0xBA \<mapsto> small_page 0xBA000 False True))"
    unfolding s4_def by (rule map_page_abs [OF a3(1)], simp add: a3(2))+
  have a5: "wf_paging s5" "abs_space s5 = ?t (Map.empty(0xB8 \<mapsto> small_page 0xB8000 False True, 0xB9 \<mapsto> small_page 0xB9000 False True, 0xBA \<mapsto> small_page 0xBA000 False True, 0xBB \<mapsto> small_page 0xBB000 False True))"
    unfolding s5_def by (rule map_page_abs [OF a4(1)], simp add: a4(2))+
  have a6: "wf_paging s6" "abs_space s6 = (abs_space s5)(34 := Table True True (Map.empty(0 \<mapsto> small_page VIDEO_ADDR True True)))"
    unfolding s6_def by (rule map_page_abs [OF a5(1)], simp add: a5(2) a1(2))+
  have a7: "wf_paging s7" "abs_space s7 = (abs_space s6)(48 := Large (large_page PAGE_TABLE_STARTADDR False True))"
    unfolding s7_def by (rule map_page_abs [OF a6(1)], simp add: a6(2) a5(2) a1(2))+
  have init: "paging_init s = s7\<lparr>cr4 := cr4 s7 OR 0x90, cr0 := cr0 s7 OR 0x80000000\<rparr>"
    unfolding paging_init_def map_video_4 s7_def s6_def s5_def s4_def s3_def s2_def s1_def s0_def by (simp add: Let_def)
  have ents: "pde (x\<lparr>cr4 := a, cr0 := b\<rparr>) = pde x" "pte (x\<lparr>cr4 := a, cr0 := b\<rparr>) = pte x" for x a b
    by (simp_all add: pde_def pte_def fun_eq_iff)
  have regs: "abs_space (x\<lparr>cr4 := a, cr0 := b\<rparr>) = abs_space x" "wf_paging (x\<lparr>cr4 := a, cr0 := b\<rparr>) = wf_paging x" for x a b
    by (rule ext, simp add: abs_space_def ents) (simp add: wf_paging_def ents)
  show "wf_paging (paging_init s)" using a7(1) by (simp add: init regs)
  show "abs_space (paging_init s) = kernel_space"
    unfolding init regs by (rule ext) (simp add: a7(2) a6(2) a5(2) a1(2) kernel_space_def)
qed

lemma address_split:
  obtains d t off where "n = 4194304 * d + 4096 * t + off" and "t < 1024" and "off < (4096 :: nat)"
    and "n div 4194304 = d" and "n div 4096 mod 1024 = t" and "n mod 4194304 = 4096 * t + off" and "n mod 4096 = off"
proof
  have t: "n div 4096 = 1024 * (n div 4194304) + n div 4096 mod 1024"
    using div_mult_mod_eq [of "n div 4096" 1024] by (simp add: div_mult2_eq [symmetric])
  then show "n = 4194304 * (n div 4194304) + 4096 * (n div 4096 mod 1024) + n mod 4096"
    using div_mult_mod_eq [of n 4096] by linarith
  then show "n mod 4194304 = 4096 * (n div 4096 mod 1024) + n mod 4096"
    using div_mult_mod_eq [of n 4194304] by linarith
qed simp_all

lemma kernel_regions:
  fixes v :: u32
  shows "0x400000 \<le> v \<and> v < 0x800000 \<longleftrightarrow> dir_ix v = 1"
    and "0xB8000 \<le> v \<and> v < 0xBC000 \<longleftrightarrow> dir_ix v = 0 \<and> tab_ix v \<in> {0xB8, 0xB9, 0xBA, 0xBB}"
    and "0xC000000 \<le> v \<and> v < 0xC400000 \<longleftrightarrow> dir_ix v = 48"
    and "VIDMAP_VIRT_ADDR \<le> v \<and> v < VIDMAP_VIRT_ADDR + FOUR_KB \<longleftrightarrow> dir_ix v = 34 \<and> tab_ix v = 0"
proof -
  obtain d t off where n: "unat v = 4194304 * d + 4096 * t + off" "t < 1024" "off < (4096 :: nat)"
    and q: "unat v div 4194304 = d" "unat v div 4096 mod 1024 = t"
    by (rule address_split [of "unat v"])
  have dt: "unat (dir_ix v) = d" "unat (tab_ix v) = t" using unat_parts [of v] q by simp_all
  note nat = word_le_nat_alt word_less_nat_alt word_unat_eq_iff dt n(1)
  show "0x400000 \<le> v \<and> v < 0x800000 \<longleftrightarrow> dir_ix v = 1"
    using n(2,3) by (simp add: nat) linarith
  show "0xB8000 \<le> v \<and> v < 0xBC000 \<longleftrightarrow> dir_ix v = 0 \<and> tab_ix v \<in> {0xB8, 0xB9, 0xBA, 0xBB}"
  proof -
    have t4: "(t = 184 \<or> t = 185 \<or> t = 186 \<or> t = 187) = (184 \<le> t \<and> t \<le> 187)" by auto
    then show ?thesis using n(2,3) by (simp add: nat t4) (cases d, auto)
  qed
  show "0xC000000 \<le> v \<and> v < 0xC400000 \<longleftrightarrow> dir_ix v = 48"
    using n(2,3) by (simp add: nat) linarith
  show "VIDMAP_VIRT_ADDR \<le> v \<and> v < VIDMAP_VIRT_ADDR + FOUR_KB \<longleftrightarrow> dir_ix v = 34 \<and> tab_ix v = 0"
  proof -
    have "d = 34 \<and> t = 0" if r: "142606336 \<le> unat v" "unat v < 142610432"
    proof -
      have "d = 34" using r n by linarith
      moreover from this have "t = 0" using r n by linarith
      ultimately show ?thesis by simp
    qed
    moreover have "142606336 \<le> unat v" "unat v < 142610432" if "d = 34" "t = 0" using that n by linarith+
    ultimately show ?thesis by (simp add: nat(1-3) dt) blast
  qed
qed

lemma address_sum:
  fixes v :: u32
  shows "v = 0x400000 * dir_ix v + (v AND LAST_22_BITS)"
    and "v = 0x400000 * dir_ix v + 0x1000 * tab_ix v + (v AND LAST_12_BITS)"
proof -
  obtain d t off where n: "unat v = 4194304 * d + 4096 * t + off"
    and q: "unat v div 4194304 = d" "unat v div 4096 mod 1024 = t" "unat v mod 4194304 = 4096 * t + off" "unat v mod 4096 = off"
    by (rule address_split [of "unat v"])
  have parts: "dir_ix v = of_nat d" "tab_ix v = of_nat t" "v AND LAST_22_BITS = of_nat (4096 * t + off)" "v AND LAST_12_BITS = of_nat off"
    by (rule unat_eq_of_nat_u32, simp only: unat_parts q)+
  have v: "v = of_nat (4194304 * d + 4096 * t + off)" using n by (rule unat_eq_of_nat_u32)
  show "v = 0x400000 * dir_ix v + (v AND LAST_22_BITS)"
    "v = 0x400000 * dir_ix v + 0x1000 * tab_ix v + (v AND LAST_12_BITS)"
    unfolding parts by (subst v, simp)+
qed

lemma kernel_space_lookup:
  "as_lookup kernel_space v =
     (if 0x400000 \<le> v \<and> v < 0x800000 \<or> 0xB8000 \<le> v \<and> v < 0xBC000 \<or> 0xC000000 \<le> v \<and> v < 0xC400000 then v
      else if VIDMAP_VIRT_ADDR \<le> v \<and> v < VIDMAP_VIRT_ADDR + FOUR_KB then VIDEO_ADDR + (v - VIDMAP_VIRT_ADDR)
      else 0)"
  "as_user kernel_space v \<longleftrightarrow> VIDMAP_VIRT_ADDR \<le> v \<and> v < VIDMAP_VIRT_ADDR + FOUR_KB"
proof -
  show "as_user kernel_space v \<longleftrightarrow> VIDMAP_VIRT_ADDR \<le> v \<and> v < VIDMAP_VIRT_ADDR + FOUR_KB"
    unfolding kernel_regions by (simp add: as_user_def kernel_space_def small_page_def large_page_def)
  have "v = 0x400000 + (v AND LAST_22_BITS)" if "dir_ix v = 1"
    using address_sum(1) [of v] unfolding that by simp
  moreover have "v = 0xC000000 + (v AND LAST_22_BITS)" if "dir_ix v = 48"
    using address_sum(1) [of v] unfolding that by simp
  moreover have "v = 0x1000 * t + (v AND LAST_12_BITS)" if "dir_ix v = 0" "tab_ix v = t" for t
    using address_sum(2) [of v] unfolding that by simp
  moreover have "VIDEO_ADDR + (v - VIDMAP_VIRT_ADDR) = VIDEO_ADDR + (v AND LAST_12_BITS)" if "dir_ix v = 34" "tab_ix v = 0"
    using address_sum(2) [of v] unfolding that by (simp add: algebra_simps)
  ultimately show "as_lookup kernel_space v = (if 0x400000 \<le> v \<and> v < 0x800000 \<or> 0xB8000 \<le> v \<and> v < 0xBC000 \<or> 0xC000000 \<le> v \<and> v < 0xC400000 then v
      else if VIDMAP_VIRT_ADDR \<le> v \<and> v < VIDMAP_VIRT_ADDR + FOUR_KB then VIDEO_ADDR + (v - VIDMAP_VIRT_ADDR)
      else 0)"
    unfolding kernel_regions by (auto simp: as_lookup_def kernel_space_def small_page_def large_page_def)
qed

text \<open>
  C21: the address space the kernel starts with. If the page directory is an aligned page below the area
  of the page tables, then after \<^verbatim>\<open>paging_init\<close> paging is enabled on that directory, the page tables are
  well-formed, and the page walk maps every address exactly as documented: the kernel's 4MB, the four
  video pages and the page table area to themselves, the vidmap page to video memory, and nothing
  else; the vidmap page is the only one user code can access.
\<close>

theorem paging_init_layout:
  assumes "page_directory s AND LAST_12_BITS = 0" and "unat (page_directory s) + 4096 \<le> unat PAGE_TABLE_STARTADDR"
  shows "resolve_virt_addr v (paging_init s) =
     (if 0x400000 \<le> v \<and> v < 0x800000 \<or> 0xB8000 \<le> v \<and> v < 0xBC000 \<or> 0xC000000 \<le> v \<and> v < 0xC400000 then v
      else if VIDMAP_VIRT_ADDR \<le> v \<and> v < VIDMAP_VIRT_ADDR + FOUR_KB then VIDEO_ADDR + (v - VIDMAP_VIRT_ADDR)
      else NULL)
    \<and> as_user (abs_space (paging_init s)) v = (VIDMAP_VIRT_ADDR \<le> v \<and> v < VIDMAP_VIRT_ADDR + FOUR_KB)
    \<and> wf_paging (paging_init s) \<and> bit (cr0 (paging_init s)) 31"
proof -
  have "bit (x OR 0x80000000 :: u32) 31" for x
  proof -
    have "(0x80000000 :: u32) = 2 ^ 31" by simp
    then show ?thesis by (simp only: bit_or_iff bit_exp_iff) simp
  qed
  then have "bit (cr0 (paging_init s)) 31" by (simp add: paging_init_def Let_def)
  then show ?thesis
    using paging_init_space [OF assms] by (simp add: resolve_lookup kernel_space_lookup)
qed

theorem paging_init_layout_witness:
  "resolve_virt_addr 0xB9ABC (paging_init (blank_kernel (\<lambda>_. 0xFF))) = 0xB9ABC
    \<and> resolve_virt_addr 0x8800010 (paging_init (blank_kernel (\<lambda>_. 0xFF))) = 0xB8010
    \<and> resolve_virt_addr 0x1000 (paging_init (blank_kernel (\<lambda>_. 0xFF))) = 0"
  using paging_init_layout [of "blank_kernel (\<lambda>_. 0xFF)"] by (simp add: blank_kernel_def)

text \<open>
  a mapping can be read back. After \<^verbatim>\<open>map_page\<close> has put a large page over a region, as execution and
  the scheduler do for the program page, the page walk takes every address of the region to the same
  offset in that page, user code can access it exactly if this was asked for, and every address
  of another region resolves as before.
\<close>

theorem map_page_large_resolve:
  assumes "wf_paging s" and "phys \<noteq> 0" and "virt \<noteq> 0"
    and "map_page phys virt True us rw True s = (r, s')"
  shows "r = 0 \<and> wf_paging s'
    \<and> resolve_virt_addr v s' = (if dir_ix v = dir_ix virt then (phys AND TOP_10_BITS) + (v AND LAST_22_BITS)
        else resolve_virt_addr v s)
    \<and> as_user (abs_space s') v = (if dir_ix v = dir_ix virt then us else as_user (abs_space s) v)"
proof -
  have "as_map phys virt True us rw True (abs_space s) = Some ((abs_space s)(dir_ix virt := Large (large_page phys us rw)))"
    using assms(2,3) by (simp add: as_map_def)
  then have s': "abs_space s' = (abs_space s)(dir_ix virt := Large (large_page phys us rw))" "r = 0" "wf_paging s'"
    using map_page_spec [OF assms(1), of phys virt True us rw True] assms(4) by auto
  then show ?thesis
    using assms(1) by (simp add: resolve_lookup as_lookup_def as_user_def large_page_def)
qed

theorem map_page_large_resolve_witness:
  "\<exists>s'. map_page 0xC00000 0x8000000 True True True True (blank_kernel (\<lambda>_. 0)) = (0, s')
    \<and> resolve_virt_addr 0x8048000 s' = 0xC48000"
proof -
  let ?s = "blank_kernel (\<lambda>_. 0)"
  obtain r s' where m: "map_page 0xC00000 0x8000000 True True True True ?s = (r, s')" by (cases "map_page 0xC00000 0x8000000 True True True True ?s")
  have "wf_paging ?s" by (simp add: wf_paging_def pde_def blank_kernel_def ld32_def)
  from map_page_large_resolve [OF this _ _ m, of "0x8048000"] m show ?thesis by simp
qed

end
