(* ===== verification/FileSystem.thy ===== *)
theory FileSystem
  imports Paging
begin

text \<open>
  The read-only file system, \<^verbatim>\<open>student-distrib/file_system.c\<close>, on its image in memory: a boot block with the
  directory, one block per inode, and data blocks. The specification is the sequence of bytes of a
  file and the first directory entry of a name. The main results: \<^verbatim>\<open>read_data\<close> always returns and copies
  exactly the bytes asked for, across block boundaries; the directory lookup finds exactly the first
  entry with the name. The operations that free descriptors are with the process control blocks.
\<close>

abbreviation FILENAME_LEN :: u32 where "FILENAME_LEN \<equiv> 32"
abbreviation ENTRY_SIZE_BYTES :: u32 where "ENTRY_SIZE_BYTES \<equiv> 64"
abbreviation ENTRY_SIZE_UINTS :: u32 where "ENTRY_SIZE_UINTS \<equiv> 16"
abbreviation BLK_SIZE_BYTES :: u32 where "BLK_SIZE_BYTES \<equiv> 4096"
abbreviation BLK_SIZE_UINTS :: u32 where "BLK_SIZE_UINTS \<equiv> 1024"

subsection \<open>The code\<close>

text \<open>\<^verbatim>\<open>fs_addr[i]\<close>\<close>

definition fs_word :: "kernel \<Rightarrow> u32 \<Rightarrow> u32" where
  "fs_word s i = ld32 (mem s) (Phys, fs_addr s + 4 * i)"

text \<open>The members of a \<^verbatim>\<open>dentry_t\<close> at an address.\<close>

definition dentry_file_type :: "memory \<Rightarrow> ptr \<Rightarrow> u32" where
  "dentry_file_type m d = ld32 m (padd d 32)"

definition dentry_inode_num :: "memory \<Rightarrow> ptr \<Rightarrow> u32" where
  "dentry_inode_num m d = ld32 m (padd d 36)"

text \<open>The local \<^verbatim>\<open>poss_name\<close> of \<^verbatim>\<open>read_dentry_by_name\<close>.\<close>

abbreviation poss_name :: ptr where "poss_name \<equiv> (Local 1, 0)"

fun find_dentry :: "reader \<Rightarrow> ptr \<Rightarrow> nat \<Rightarrow> u32 \<Rightarrow> kernel \<Rightarrow> int \<times> kernel" where
  "find_dentry fname dentry 0 i s = (-1, s)"
| "find_dentry fname dentry (Suc k) i s =
     (let s = upd_mem (\<lambda>m. memset m poss_name 0 FILENAME_LEN) s;
          cur_dentry = (Phys, fs_addr s + 4 * ((i + 1) * ENTRY_SIZE_UINTS));
          s = upd_mem (\<lambda>m. strncpy m poss_name cur_dentry FILENAME_LEN) s
      in if strncmp (rdr (mem s) poss_name) fname FILENAME_LEN = 0
         then (0, upd_mem (\<lambda>m. memcpy m dentry cur_dentry ENTRY_SIZE_BYTES) s)
         else find_dentry fname dentry k (i + 1) s)"

definition read_dentry_by_name :: "reader \<Rightarrow> ptr \<Rightarrow> kernel \<Rightarrow> (int \<times> kernel) option" where
  "read_dentry_by_name fname dentry s =
     (let num_dir_entries = fs_word s 0;
          s = upd_mem (\<lambda>m. write_list m poss_name (replicate 33 0)) s
      in do {
        len \<leftarrow> strlen fname;
        if len > 32 then Some (-1, s)
        else Some (find_dentry fname dentry (unat num_dir_entries) 0 s)
      })"

definition read_dentry_by_index :: "u32 \<Rightarrow> ptr \<Rightarrow> kernel \<Rightarrow> int \<times> kernel" where
  "read_dentry_by_index index dentry s =
     (let num_inodes = fs_word s 1
      in if index \<ge> num_inodes then (-1, s)
         else let cur_dentry = (Phys, fs_addr s + 4 * ((index + 1) * ENTRY_SIZE_UINTS))
              in (0, upd_mem (\<lambda>m. memcpy m dentry cur_dentry ENTRY_SIZE_BYTES) s))"

text \<open>How much of the current block \<^verbatim>\<open>read_data\<close> copies, with the value \<^verbatim>\<open>remaining\<close> then has.\<close>

definition block_part :: "u32 \<Rightarrow> u32 \<Rightarrow> u32 \<Rightarrow> u32 \<Rightarrow> u32 \<Rightarrow> u32 \<Rightarrow> u32 \<times> u32" where
  "block_part offset nlen file_length start_offset remaining done_so_far =
     (if done_so_far = 0
      then if start_offset + remaining > BLK_SIZE_BYTES then (BLK_SIZE_BYTES - start_offset, remaining)
           else if offset = 0 \<and> nlen \<ge> file_length then (file_length, file_length)
           else (remaining, remaining)
      else if remaining \<le> BLK_SIZE_BYTES then (remaining, remaining)
      else (BLK_SIZE_BYTES, remaining))"

partial_function (option) read_blocks :: "u32 \<Rightarrow> u32 \<Rightarrow> u32 \<Rightarrow> u32 \<Rightarrow> u32 \<Rightarrow> u32 \<Rightarrow> ptr \<Rightarrow>
    u32 \<Rightarrow> u32 \<Rightarrow> u32 \<Rightarrow> u32 \<Rightarrow> kernel \<Rightarrow> (u32 \<times> kernel) option" where
  "read_blocks cur_inode num_inodes num_blocks offset nlen file_length buf
     start_offset cur_block_num remaining done_so_far s =
     (if remaining > 0
      then let b = ld32 (mem s) (Phys, cur_inode + 4 * (cur_block_num + 1))
           in if b \<ge> num_blocks then Some (done_so_far, s)
              else let cur_block = fs_addr s + (num_inodes + b + 1) * BLK_SIZE_BYTES;
                       cur_to_do = fst (block_part offset nlen file_length start_offset remaining done_so_far);
                       remaining = snd (block_part offset nlen file_length start_offset remaining done_so_far);
                       s = upd_mem (\<lambda>m. memcpy m (padd buf done_so_far) (Phys, cur_block + start_offset) cur_to_do) s
                   in read_blocks cur_inode num_inodes num_blocks offset nlen file_length buf
                        0 (cur_block_num + 1) (remaining - cur_to_do) (done_so_far + cur_to_do) s
      else Some (done_so_far, s))"

definition read_data :: "u32 \<Rightarrow> u32 \<Rightarrow> ptr \<Rightarrow> u32 \<Rightarrow> kernel \<Rightarrow> (int \<times> kernel) option" where
  "read_data ino offset buf nlen s =
     (let num_inodes = fs_word s 1;
          num_blocks = fs_word s 2;
          start_offset = offset mod BLK_SIZE_BYTES;
          cur_block_num = offset div BLK_SIZE_BYTES;
          cur_inode = fs_addr s + 4 * ((ino + 1) * BLK_SIZE_UINTS);
          file_length = ld32 (mem s) (Phys, cur_inode)
      in if ino \<ge> num_inodes then Some (-1, s)
         else if offset \<ge> file_length then Some (0, s)
         else let remaining = (if offset + nlen > file_length then file_length - offset else nlen)
              in if ld32 (mem s) (Phys, cur_inode + 4 * (cur_block_num + 1)) \<ge> num_blocks then Some (-1, s)
                 else map_option (\<lambda>(n, s). (sint n, s))
                   (read_blocks cur_inode num_inodes num_blocks offset nlen file_length buf
                      start_offset cur_block_num remaining 0 s))"

text \<open>The descriptor \<^verbatim>\<open>cur_pcb->io_files[fd]\<close>.\<close>

definition cur_fd :: "kernel \<Rightarrow> nat \<Rightarrow> fdesc_t" where
  "cur_fd s fd = io_files (pcbs s (cur_pcb s)) fd"

definition fsys_open_file :: "kernel \<Rightarrow> int \<times> kernel" where
  "fsys_open_file s = (0, s)"

definition fsys_open_dir :: "kernel \<Rightarrow> int \<times> kernel" where
  "fsys_open_dir s = (0, s)"

definition fsys_read_file :: "nat \<Rightarrow> ptr \<Rightarrow> int \<Rightarrow> kernel \<Rightarrow> (int \<times> kernel) option" where
  "fsys_read_file fd buf nbytes s =
     (let cur_file_pos = file_pos (cur_fd s fd);
          cur_file_inode = inode (cur_fd s fd);
          file_size = fs_word s ((cur_file_inode + 1) * BLK_SIZE_UINTS)
      in if cur_file_pos \<ge> file_size then Some (0, s)
         else do {
           (bytes_read, s) \<leftarrow> read_data cur_file_inode cur_file_pos buf (of_int nbytes) s;
           Some (bytes_read,
             if bytes_read > 0
             then upd_fd (cur_pcb s) fd (\<lambda>f. f\<lparr>file_pos := file_pos f + of_int bytes_read\<rparr>) s else s)
         })"

definition fsys_read_dir :: "nat \<Rightarrow> ptr \<Rightarrow> int \<Rightarrow> kernel \<Rightarrow> (int \<times> kernel) option" where
  "fsys_read_dir fd buf nbytes s =
     (let cur_dir_pos = file_pos (cur_fd s fd);
          dir_size = fs_word s 0;
          cur_dir_name = (Phys, fs_addr s + 4 * ((cur_dir_pos + 1) * ENTRY_SIZE_UINTS));
          s = upd_mem (\<lambda>m. memset m buf 0 FILENAME_LEN) s
      in if cur_dir_pos \<ge> dir_size then Some (0, s)
         else do {
           bytes_read \<leftarrow> (if mem s (padd cur_dir_name 31) \<noteq> 0 then Some 32
                          else strlen (rdr (mem s) cur_dir_name));
           let s = upd_mem (\<lambda>m. strncpy m buf cur_dir_name (of_nat bytes_read)) s;
           let s = upd_fd (cur_pcb s) fd (\<lambda>f. f\<lparr>file_pos := file_pos f + 1\<rparr>) s;
           Some (int bytes_read, s)
         })"

definition fsys_write_file :: "nat \<Rightarrow> ptr \<Rightarrow> int \<Rightarrow> kernel \<Rightarrow> int \<times> kernel" where
  "fsys_write_file fd buf nbytes s = (-1, s)"

definition fsys_write_dir :: "nat \<Rightarrow> ptr \<Rightarrow> int \<Rightarrow> kernel \<Rightarrow> int \<times> kernel" where
  "fsys_write_dir fd buf nbytes s = (-1, s)"

subsection \<open>Specification\<close>

text \<open>The image, its directory entries, and the bytes of a file.\<close>

definition num_inodes :: "kernel \<Rightarrow> nat" where
  "num_inodes s = unat (fs_word s 1)"

definition num_blocks :: "kernel \<Rightarrow> nat" where
  "num_blocks s = unat (fs_word s 2)"

definition img :: "kernel \<Rightarrow> nat \<Rightarrow> ptr" where
  "img s n = (Phys, fs_addr s + of_nat n)"

definition img_size :: "kernel \<Rightarrow> nat" where
  "img_size s = 4096 * (1 + num_inodes s + num_blocks s)"

definition file_size :: "kernel \<Rightarrow> nat \<Rightarrow> nat" where
  "file_size s ino = unat (ld32 (mem s) (img s (4096 * Suc ino)))"

definition block_no :: "kernel \<Rightarrow> nat \<Rightarrow> nat \<Rightarrow> nat" where
  "block_no s ino k = unat (ld32 (mem s) (img s (4096 * Suc ino + 4 * Suc k)))"

definition file_byte :: "kernel \<Rightarrow> nat \<Rightarrow> nat \<Rightarrow> u8" where
  "file_byte s ino j = mem s (img s (4096 * (num_inodes s + block_no s ino (j div 4096) + 1) + j mod 4096))"

definition file_bytes :: "kernel \<Rightarrow> nat \<Rightarrow> u8 list" where
  "file_bytes s ino = map (file_byte s ino) [0..<file_size s ino]"

text \<open>
  The image fits in the address space; a file's blocks are numbers of data blocks and fit in its inode.
\<close>

definition wf_image :: "kernel \<Rightarrow> bool" where
  "wf_image s \<longleftrightarrow> unat (fs_addr s) + img_size s \<le> 2 ^ 32"

definition wf_file :: "kernel \<Rightarrow> nat \<Rightarrow> bool" where
  "wf_file s ino \<longleftrightarrow> ino < num_inodes s \<and> file_size s ino \<le> 1023 * 4096
     \<and> (\<forall>k < (file_size s ino + 4095) div 4096. block_no s ino k < num_blocks s)"

definition img_separate :: "kernel \<Rightarrow> ptr \<Rightarrow> nat \<Rightarrow> bool" where
  "img_separate s p n \<longleftrightarrow> separate p n (img s 0) (img_size s)"

definition entry_name :: "kernel \<Rightarrow> nat \<Rightarrow> u8 list" where
  "entry_name s i = field_str (read_list (mem s) (img s (64 * Suc i)) 32)"

subsection \<open>Reading the image\<close>

lemma img_add: "padd (img s n) (of_nat k) = img s (n + k)"
  by (simp add: img_def padd_simps add.assoc)

lemma fs_ptrs:
  "fs_word s i = ld32 (mem s) (img s (4 * unat i))"
  "(Phys, fs_addr s + 4 * ((ino + 1) * BLK_SIZE_UINTS)) = img s (4096 * Suc (unat ino))"
  "(Phys, fs_addr s + 4 * ((ino + 1) * BLK_SIZE_UINTS) + 4 * (k + 1)) = img s (4096 * Suc (unat ino) + 4 * Suc (unat k))"
  "(Phys, fs_addr s + (ni + b + 1) * BLK_SIZE_BYTES + st) = img s (4096 * (unat ni + unat b + 1) + unat st)"
  "(Phys, fs_addr s + 4 * ((i + 1) * ENTRY_SIZE_UINTS)) = img s (64 * Suc (unat i))"
  by (simp_all add: fs_word_def img_def algebra_simps)

text \<open>Two states with the same image.\<close>

definition same_image :: "kernel \<Rightarrow> kernel \<Rightarrow> bool" where
  "same_image s0 s \<longleftrightarrow> fs_addr s = fs_addr s0 \<and> (\<forall>n < img_size s0. mem s (img s0 n) = mem s0 (img s0 n))"

lemma same_image_refl [simp]: "same_image s s"
  by (simp add: same_image_def)

lemma same_image_ld32:
  assumes "same_image s0 s" and "n + 4 \<le> img_size s0"
  shows "ld32 (mem s) (img s0 n) = ld32 (mem s0) (img s0 n)"
proof (rule ld32_cong)
  show "read_list (mem s) (img s0 n) 4 = read_list (mem s0) (img s0 n) 4"
    using assms by (intro read_list_cong) (simp add: img_add same_image_def)
qed

lemma same_image_write:
  assumes "same_image s0 s" and "img_separate s0 buf n" and "d + length xs \<le> n" and "n \<le> 2 ^ 32"
  shows "same_image s0 (upd_mem (\<lambda>m. write_list m (padd buf (of_nat d)) xs) s)"
proof -
  have "\<not> in_range (padd buf (of_nat d)) (length xs) (img s0 k)" if "k < img_size s0" for k
  proof
    assume "in_range (padd buf (of_nat d)) (length xs) (img s0 k)"
    then have "in_range buf n (img s0 k)" using assms(3,4) by (rule in_range_inner)
    then show False using assms(2) that img_add [of s0 0 k] by (auto simp: img_separate_def separate_def)
  qed
  then show ?thesis using assms(1) by (simp add: same_image_def write_list_other)
qed

lemma fwd_ok_image:
  assumes "img_separate s0 buf n" and "d < n" and "n \<le> 2 ^ 32" and "x + c \<le> img_size s0"
  shows "fwd_ok (padd buf (of_nat d)) (img s0 x) c"
proof (cases "fst buf = Phys")
  case True
  let ?e = "snd buf + of_nat d - (fs_addr s0 + of_nat x)"
  have "c \<le> unat ?e"
  proof (rule ccontr)
    assume "\<not> c \<le> unat ?e"
    then have e: "x + unat ?e < img_size s0" using assms(4) by simp
    have "img s0 (x + unat ?e) = padd buf (of_nat d)"
      using True by (simp add: img_def padd_def prod_eq_iff)
    moreover have "in_range buf n (padd buf (of_nat d))"
      using assms(2,3) by (simp add: in_range_def)
    ultimately show False
      using assms(1) e img_add [of s0 0 "x + unat ?e"] by (auto simp: img_separate_def separate_def)
  qed
  then show ?thesis by (simp add: fwd_ok_def img_def)
qed (simp add: fwd_ok_def img_def)

lemma block_index_less: "p < n \<Longrightarrow> p div 4096 < (n + 4095) div (4096 :: nat)"
proof -
  assume "p < n"
  then have "Suc (p div 4096) * 4096 \<le> n + 4095" using div_mult_mod_eq [of p 4096] by simp
  then have "Suc (p div 4096) \<le> (n + 4095) div 4096" by (subst less_eq_div_iff_mult_less_eq) simp_all
  then show ?thesis by simp
qed

lemma div_mod_inside:
  assumes "p mod 4096 + j < (4096 :: nat)"
  shows "(p + j) div 4096 = p div 4096" and "(p + j) mod 4096 = p mod 4096 + j"
proof -
  show div: "(p + j) div 4096 = p div 4096"
  proof (rule div_nat_eqI)
    show "4096 * (p div 4096) \<le> p + j" using div_mult_mod_eq [of p 4096] by linarith
    show "p + j < 4096 * Suc (p div 4096)"
      unfolding mult_Suc_right using assms div_mult_mod_eq [of p 4096] by linarith
  qed
  show "(p + j) mod 4096 = p mod 4096 + j"
    using div div_mult_mod_eq [of p 4096] div_mult_mod_eq [of "p + j" 4096] by linarith
qed

lemma block_slice:
  assumes "same_image s0 s" and "wf_image s0" and "wf_file s0 i" and "p mod 4096 + c \<le> 4096" and "p + c \<le> file_size s0 i" and "0 < c"
  defines "x \<equiv> 4096 * (num_inodes s0 + block_no s0 i (p div 4096) + 1) + p mod 4096"
  shows "read_list (mem s) (img s0 x) c = map (file_byte s0 i) [p..<p + c]" and "x + c \<le> img_size s0"
proof -
  have "p div 4096 < (file_size s0 i + 4095) div 4096" using assms(5,6) by (intro block_index_less) simp
  then have b: "block_no s0 i (p div 4096) < num_blocks s0" using assms(3) by (simp add: wf_file_def)
  then have "4096 * (num_inodes s0 + block_no s0 i (p div 4096) + 1) + 4096 \<le> img_size s0"
    by (simp add: img_size_def)
  then show x: "x + c \<le> img_size s0" using assms(4) by (simp add: x_def)
  show "read_list (mem s) (img s0 x) c = map (file_byte s0 i) [p..<p + c]"
  proof (rule nth_equalityI)
    fix j assume "j < length (read_list (mem s) (img s0 x) c)"
    then have j: "j < c" by simp
    have "(p + j) div 4096 = p div 4096" "(p + j) mod 4096 = p mod 4096 + j"
      using j assms(4) by (intro div_mod_inside; simp)+
    then show "read_list (mem s) (img s0 x) c ! j = map (file_byte s0 i) [p..<p + c] ! j"
      using j x assms(1) by (simp add: file_byte_def img_add same_image_def x_def add.assoc)
  qed simp
qed

lemma block_part_eq:
  fixes offset nlen :: u32 and n d :: nat
  defines "off \<equiv> unat offset"
  assumes "d < n" and "off + n \<le> file_len" and "file_len \<le> 1023 * 4096" and "d = 0 \<or> (off + d) mod 4096 = 0"
    and "offset = 0 \<Longrightarrow> nlen \<ge> of_nat file_len \<Longrightarrow> n = file_len"
  defines "c \<equiv> min (n - d) (4096 - (off + d) mod 4096)"
  shows "block_part offset nlen (of_nat file_len) (of_nat ((off + d) mod 4096)) (of_nat (n - d)) (of_nat d)
    = (of_nat c, of_nat (n - d))"
proof -
  let ?st = "(off + d) mod 4096"
  have st: "?st < 4096" by simp
  have r: "n - d \<le> 1023 * 4096" using assms(3,4) by simp
  have z: "(of_nat d :: u32) = 0 \<longleftrightarrow> d = 0"
    using of_nat_u32_inj [of d 0] assms(2-4) by simp
  have sum: "unat (of_nat ?st + of_nat (n - d) :: u32) = ?st + (n - d)"
    unfolding of_nat_add [symmetric] using st r by (intro unat_of_nat_u32) simp
  then have gt: "of_nat ?st + of_nat (n - d) > BLK_SIZE_BYTES \<longleftrightarrow> 4096 < ?st + (n - d)"
    by (simp add: word_less_nat_alt)
  have le: "of_nat (n - d) \<le> BLK_SIZE_BYTES \<longleftrightarrow> n - d \<le> 4096"
    using r by (simp add: word_le_nat_alt)
  have sub: "BLK_SIZE_BYTES - of_nat ?st = of_nat (4096 - ?st)"
    using st by (simp add: of_nat_diff)
  show ?thesis
  proof (cases "d = 0")
    case True
    show ?thesis
    proof (cases "4096 < ?st + (n - d)")
      case True
      then have "c = 4096 - ?st" by (simp add: c_def)
      with True \<open>d = 0\<close> gt sub show ?thesis by (simp add: block_part_def)
    next
      case False
      then have c: "c = n - d" by (simp add: c_def)
      show ?thesis
      proof (cases "offset = 0 \<and> nlen \<ge> of_nat file_len")
        case True
        then have "n = file_len" using assms(6) by blast
        with c False gt \<open>d = 0\<close> show ?thesis by (simp add: block_part_def)
      next
        case nf: False
        with c False gt \<open>d = 0\<close> show ?thesis by (auto simp: block_part_def)
      qed
    qed
  next
    case False
    then have "?st = 0" using assms(5) by simp
    with False z le show ?thesis by (simp add: block_part_def c_def min_def)
  qed
qed

text \<open>
  A request that \<^verbatim>\<open>read_data\<close> has cut down to \<open>n\<close> bytes: the file is well-formed, the bytes are in the
  file and the buffer is not in the image.
\<close>

definition slice_ok :: "kernel \<Rightarrow> u32 \<Rightarrow> u32 \<Rightarrow> u32 \<Rightarrow> ptr \<Rightarrow> nat \<Rightarrow> bool" where
  "slice_ok s0 ino offset nlen buf n \<longleftrightarrow> wf_image s0 \<and> wf_file s0 (unat ino) \<and> img_separate s0 buf n
     \<and> unat offset + n \<le> file_size s0 (unat ino)
     \<and> (offset = 0 \<and> nlen \<ge> of_nat (file_size s0 (unat ino)) \<longrightarrow> n = file_size s0 (unat ino))"

abbreviation loop_at :: "kernel \<Rightarrow> u32 \<Rightarrow> u32 \<Rightarrow> u32 \<Rightarrow> ptr \<Rightarrow> nat \<Rightarrow> nat \<Rightarrow> nat \<Rightarrow> nat \<Rightarrow> kernel \<Rightarrow> (u32 \<times> kernel) option" where
  "loop_at s0 ino offset nlen buf st k rem d s \<equiv>
     read_blocks (fs_addr s0 + 4 * ((ino + 1) * BLK_SIZE_UINTS)) (fs_word s0 1) (fs_word s0 2) offset nlen
       (of_nat (file_size s0 (unat ino))) buf (of_nat st) (of_nat k) (of_nat rem) (of_nat d) s"

lemma slice_block:
  assumes "slice_ok s0 ino offset nlen buf n" and "same_image s0 s" and "d < n"
  defines "p \<equiv> unat offset + d"
  defines "c \<equiv> min (n - d) (4096 - p mod 4096)"
  shows "ld32 (mem s) (img s0 (4096 * Suc (unat ino) + 4 * Suc (p div 4096))) = of_nat (block_no s0 (unat ino) (p div 4096))"
    and "block_no s0 (unat ino) (p div 4096) < num_blocks s0"
    and "memcpy (mem s) (padd buf (of_nat d)) (img s0 (4096 * (num_inodes s0 + block_no s0 (unat ino) (p div 4096) + 1) + p mod 4096)) (of_nat c)
       = write_list (mem s) (padd buf (of_nat d)) (map (file_byte s0 (unat ino)) [p..<p + c])"
    and "p div 4096 < 1023" and "n \<le> 1023 * 4096"
proof -
  let ?i = "unat ino"
  have "c \<le> n - d" by (simp add: c_def)
  then have f: "wf_image s0" "wf_file s0 ?i" "img_separate s0 buf n" "p < file_size s0 ?i" "p + c \<le> file_size s0 ?i"
    using assms(1,3) unfolding slice_ok_def p_def by (simp, simp, simp, simp, linarith)
  have flen: "file_size s0 ?i \<le> 1023 * 4096" and i: "?i < num_inodes s0" using f(2) by (simp_all add: wf_file_def)
  show n: "n \<le> 1023 * 4096" using assms(1) flen by (simp add: slice_ok_def)
  have c: "0 < c" "c \<le> n - d" "p mod 4096 + c \<le> 4096" using assms(3) by (simp_all add: c_def)
  show k: "p div 4096 < 1023" using f(4) flen by simp
  show "block_no s0 ?i (p div 4096) < num_blocks s0"
    using f(2,4) by (simp add: wf_file_def block_index_less)
  have "4096 * Suc ?i + 4 * Suc (p div 4096) + 4 \<le> img_size s0" using i k by (simp add: img_size_def)
  then show "ld32 (mem s) (img s0 (4096 * Suc ?i + 4 * Suc (p div 4096))) = of_nat (block_no s0 ?i (p div 4096))"
    using same_image_ld32 [OF assms(2)] by (simp add: block_no_def)
  note sl = block_slice [OF assms(2) f(1,2) c(3) f(5) c(1)]
  have "n \<le> 2 ^ 32" "c < 2 ^ 32" using n c by simp_all
  from memcpy_eq [of _ _ "of_nat c"] fwd_ok_image [OF f(3) assms(3) this(1) sl(2)] sl(1) this(2)
  show "memcpy (mem s) (padd buf (of_nat d)) (img s0 (4096 * (num_inodes s0 + block_no s0 ?i (p div 4096) + 1) + p mod 4096)) (of_nat c)
       = write_list (mem s) (padd buf (of_nat d)) (map (file_byte s0 ?i) [p..<p + c])"
    by simp
qed

lemma read_blocks_step:
  assumes "slice_ok s0 ino offset nlen buf n" and "same_image s0 s" and "d < n"
  defines "p \<equiv> unat offset + d"
  assumes "d = 0 \<or> p mod 4096 = 0"
  defines "c \<equiv> min (n - d) (4096 - p mod 4096)"
  shows "loop_at s0 ino offset nlen buf (p mod 4096) (p div 4096) (n - d) d s =
    loop_at s0 ino offset nlen buf 0 (Suc (p div 4096)) (n - (d + c)) (d + c)
      (upd_mem (\<lambda>m. write_list m (padd buf (of_nat d)) (map (file_byte s0 (unat ino)) [p..<p + c])) s)"
proof -
  let ?i = "unat ino" and ?k = "p div 4096" and ?st = "p mod 4096"
  note sb = slice_block [OF assms(1-3), folded p_def, folded c_def]
  have part: "block_part offset nlen (of_nat (file_size s0 ?i)) (of_nat ?st) (of_nat (n - d)) (of_nat d) = (of_nat c, of_nat (n - d))"
    unfolding c_def p_def using assms(1,3,5) by (intro block_part_eq) (auto simp: slice_ok_def wf_file_def p_def)
  have pos: "(of_nat (n - d) :: u32) > 0"
    using assms(3) sb(5) unat_of_nat_u32 [of "n - d"] by (simp add: word_less_nat_alt del: of_nat_diff)
  have fs: "fs_addr s = fs_addr s0" using assms(2) by (simp add: same_image_def)
  have b: "unat (of_nat (block_no s0 ?i ?k) :: u32) = block_no s0 ?i ?k" by (simp add: block_no_def)
  have nb: "\<not> of_nat (block_no s0 ?i ?k) \<ge> fs_word s0 2"
    using sb(2) b by (simp add: num_blocks_def word_le_nat_alt)
  have inode_ptr: "(Phys, fs_addr s0 + 4 * ((ino + 1) * BLK_SIZE_UINTS) + 4 * (of_nat ?k + 1)) = img s0 (4096 * Suc ?i + 4 * Suc ?k)"
    unfolding fs_ptrs(3) using sb(4) by simp
  have blk_ptr: "(Phys, fs_addr s0 + (fs_word s0 1 + of_nat (block_no s0 ?i ?k) + 1) * BLK_SIZE_BYTES + of_nat ?st)
      = img s0 (4096 * (num_inodes s0 + block_no s0 ?i ?k + 1) + ?st)"
    unfolding fs_ptrs(4) b by (simp add: num_inodes_def)
  have rem: "(of_nat (n - d) - of_nat c :: u32) = of_nat (n - (d + c))"
    using diff_diff_left [of n d c] of_nat_diff [of c "n - d", where 'a = u32] by (simp add: c_def)
  have k_suc: "(of_nat (Suc ?k) :: u32) = of_nat ?k + 1" by simp
  show ?thesis
    using pos nb
    by (subst read_blocks.simps)
      (simp only: Let_def inode_ptr sb(1) simp_thms if_True if_False part fst_conv snd_conv fs blk_ptr upd_mem_def sb(3) rem k_suc of_nat_add semiring_1_class.of_nat_0)
qed

text \<open>The loop of \<^verbatim>\<open>read_data\<close> copies the rest of the slice and ends.\<close>

lemma slice_next:
  fixes p d n :: nat
  assumes "d < n" and "c = min (n - d) (4096 - p mod 4096)"
  shows "d + c = n \<or> (p + c) mod 4096 = 0 \<and> (p + c) div 4096 = Suc (p div 4096)" and "0 < c" and "d + c \<le> n"
proof -
  show "0 < c" and "d + c \<le> n" using assms by auto
  show "d + c = n \<or> (p + c) mod 4096 = 0 \<and> (p + c) div 4096 = Suc (p div 4096)"
  proof (cases "n - d \<le> 4096 - p mod 4096")
    case True
    then show ?thesis using assms by simp
  next
    case False
    then have "p + c = 4096 * Suc (p div 4096)"
      using assms(2) div_mult_mod_eq [of p 4096] mod_less_divisor [of 4096 p] unfolding min_def by (simp del: div_mult_mod_eq mod_less_divisor, linarith)
    then show ?thesis by simp
  qed
qed

lemma read_blocks_slice:
  assumes ok: "slice_ok s0 ino offset nlen buf n" and "same_image s0 s" and "d \<le> n"
    and "d < n \<longrightarrow> (d = 0 \<or> (unat offset + d) mod 4096 = 0) \<and> x = (unat offset + d) mod 4096 \<and> y = (unat offset + d) div 4096"
  shows "loop_at s0 ino offset nlen buf x y (n - d) d s =
    Some (of_nat n, upd_mem (\<lambda>m. write_list m (padd buf (of_nat d))
      (map (file_byte s0 (unat ino)) [unat offset + d..<unat offset + n])) s)"
  using assms(2-4)
proof (induction "n - d" arbitrary: d s x y rule: less_induct)
  case less
  show ?case
  proof (cases "d < n")
    case False
    then show ?thesis using less.prems(2) by (subst read_blocks.simps) simp
  next
    case True
    let ?p = "unat offset + d"
    define c where "c = min (n - d) (4096 - ?p mod 4096)"
    let ?s = "upd_mem (\<lambda>m. write_list m (padd buf (of_nat d)) (map (file_byte s0 (unat ino)) [?p..<?p + c])) s"
    note nx = slice_next [OF True c_def]
    have n: "n \<le> 2 ^ 32" using slice_block(5) [OF ok less.prems(1) True] by simp
    have sep: "img_separate s0 buf n" using ok by (simp add: slice_ok_def)
    have same: "same_image s0 ?s" using same_image_write [OF less.prems(1) sep _ n] nx(3) by simp
    have "loop_at s0 ino offset nlen buf x y (n - d) d s = loop_at s0 ino offset nlen buf 0 (Suc (?p div 4096)) (n - (d + c)) (d + c) ?s"
      using read_blocks_step [OF ok less.prems(1) True, folded c_def] less.prems(3) True by simp
    also have "\<dots> = Some (of_nat n, upd_mem (\<lambda>m. write_list m (padd buf (of_nat (d + c)))
        (map (file_byte s0 (unat ino)) [unat offset + (d + c)..<unat offset + n])) ?s)"
      using nx True by (intro less.hyps same) (auto simp: add.assoc)
    also have "\<dots> = Some (of_nat n, upd_mem (\<lambda>m. write_list m (padd buf (of_nat d))
        (map (file_byte s0 (unat ino)) [?p..<unat offset + n])) s)"
    proof -
      have "[?p..<unat offset + n] = [?p..<?p + c] @ [?p + c..<unat offset + n]"
        using nx(3) upt_add_eq_append [of ?p "?p + c" "n - (d + c)"] by simp
      then show ?thesis by (simp add: upd_mem_def write_list_append add.assoc)
    qed
    finally show ?thesis .
  qed
qed

subsection \<open>read_data returns the bytes asked for\<close>

text \<open>The bytes a read of at most \<open>k\<close> bytes at \<open>off\<close> delivers.\<close>

definition read_slice :: "kernel \<Rightarrow> nat \<Rightarrow> nat \<Rightarrow> nat \<Rightarrow> u8 list" where
  "read_slice s ino off k = take k (drop off (file_bytes s ino))"

lemma length_read_slice [simp]: "length (read_slice s ino off k) = min k (file_size s ino - off)"
  by (simp add: read_slice_def file_bytes_def min.commute)

lemma read_slice_upt:
  "off + n \<le> file_size s ino \<Longrightarrow> map (file_byte s ino) [off..<off + n] = read_slice s ino off n"
  by (rule nth_equalityI) (simp_all add: read_slice_def file_bytes_def)

lemma read_slice_min: "read_slice s ino off (min k (file_size s ino - off)) = read_slice s ino off k"
  by (simp add: read_slice_def file_bytes_def min_def)

lemma inode_size: "ld32 (mem s) (Phys, fs_addr s + 4 * ((ino + 1) * BLK_SIZE_UINTS)) = of_nat (file_size s (unat ino))"
  unfolding fs_ptrs(2) by (simp add: file_size_def)

lemma unat_file_size [simp]: "unat (of_nat (file_size s i) :: u32) = file_size s i"
  by (simp add: file_size_def)

lemma sint_of_nat_u32: "n < 2 ^ 31 \<Longrightarrow> sint (of_nat n :: u32) = int n"
  by (simp add: signed_of_nat signed_take_bit_int_eq_self)

lemma wf_file_bounds:
  fixes offset :: u32
  assumes "wf_file s (unat ino)"
  shows "file_size s (unat ino) \<le> 1023 * 4096" and "\<not> ino \<ge> fs_word s 1"
    and "offset \<ge> of_nat (file_size s (unat ino)) \<longleftrightarrow> unat offset \<ge> file_size s (unat ino)"
proof -
  show flen: "file_size s (unat ino) \<le> 1023 * 4096" using assms by (simp add: wf_file_def)
  show "\<not> ino \<ge> fs_word s 1" using assms by (simp add: wf_file_def num_inodes_def word_le_nat_alt)
  show "offset \<ge> of_nat (file_size s (unat ino)) \<longleftrightarrow> unat offset \<ge> file_size s (unat ino)"
    by (simp add: word_le_nat_alt)
qed

lemma read_data_past_end:
  assumes "wf_file s (unat ino)" and "file_size s (unat ino) \<le> unat offset"
  shows "read_data ino offset buf nlen s = Some (0, s)"
  using wf_file_bounds(2) [OF assms(1)] wf_file_bounds(3) [OF assms(1), of offset] assms(2)
  by (simp only: read_data_def Let_def inode_size if_True if_False simp_thms)

text \<open>Inside the file the call is its loop, on the request cut down to the end of the file.\<close>

lemma read_data_loop:
  assumes "wf_file s (unat ino)" and "unat offset < file_size s (unat ino)" and "unat offset + unat nlen < 2 ^ 32"
  defines "n \<equiv> min (unat nlen) (file_size s (unat ino) - unat offset)"
  shows "read_data ino offset buf nlen s = map_option (\<lambda>(n, s). (sint n, s))
        (loop_at s ino offset nlen buf (unat offset mod 4096) (unat offset div 4096) n 0 s)"
proof -
  let ?i = "unat ino" and ?o = "unat offset" and ?f = "file_size s (unat ino)"
  note b = wf_file_bounds [OF assms(1)]
  have start: "offset mod BLK_SIZE_BYTES = of_nat (?o mod 4096)" "offset div BLK_SIZE_BYTES = of_nat (?o div 4096)"
    by (simp_all add: word_arith_nat_div word_arith_nat_mod)
  have rem: "(if offset + nlen > of_nat ?f then of_nat ?f - offset else nlen) = of_nat n"
  proof -
    have "offset + nlen > of_nat ?f \<longleftrightarrow> ?o + unat nlen > ?f"
      using b(1) assms(3) by (simp add: word_less_nat_alt unat_word_ariths)
    moreover have "(of_nat ?f - offset :: u32) = of_nat (?f - ?o)" using assms(2) by simp
    ultimately show ?thesis using assms(2) by (auto simp: n_def min_def)
  qed
  have "?o div 4096 < 1023" using assms(2) b(1) by simp
  then have ptr: "(Phys, fs_addr s + 4 * ((ino + 1) * BLK_SIZE_UINTS) + 4 * (of_nat (?o div 4096) + 1)) = img s (4096 * Suc ?i + 4 * Suc (?o div 4096))"
    unfolding fs_ptrs(3) by simp
  have first: "\<not> ld32 (mem s) (Phys, fs_addr s + 4 * ((ino + 1) * BLK_SIZE_UINTS) + 4 * (of_nat (?o div 4096) + 1)) \<ge> fs_word s 2"
    using assms(1,2) unfolding ptr by (simp add: wf_file_def block_index_less num_blocks_def block_no_def word_le_nat_alt not_le)
  have "\<not> offset \<ge> of_nat ?f" using assms(2) by (simp add: b(3))
  then show ?thesis using b(2) first
    by (simp only: read_data_def Let_def inode_size start rem if_False simp_thms semiring_1_class.of_nat_0)
qed

lemma read_data_spec:
  assumes "wf_image s" and "wf_file s (unat ino)" and "unat offset + unat nlen < 2 ^ 32"
    and "img_separate s buf (min (unat nlen) (file_size s (unat ino) - unat offset))"
  shows "read_data ino offset buf nlen s =
    Some (int (min (unat nlen) (file_size s (unat ino) - unat offset)),
          upd_mem (\<lambda>m. write_list m buf (read_slice s (unat ino) (unat offset) (unat nlen))) s)"
proof -
  let ?i = "unat ino" and ?o = "unat offset" and ?f = "file_size s (unat ino)"
  define n where "n = min (unat nlen) (?f - ?o)"
  note b = wf_file_bounds [OF assms(2)]
  show ?thesis
  proof (cases "?o < ?f")
    case False
    then have z: "read_slice s ?i ?o (unat nlen) = []" by (simp flip: length_0_conv)
    show ?thesis using False read_data_past_end [OF assms(2)] unfolding z by (simp add: upd_mem_def)
  next
    case True
    have ok: "slice_ok s ino offset nlen buf n"
      using assms(1,2,4) True b(1) by (auto simp: slice_ok_def n_def word_le_nat_alt)
    note rb = read_blocks_slice [OF ok same_image_refl, of 0 "?o mod 4096" "?o div 4096"]
    have nle: "?o + n \<le> ?f" using True by (simp add: n_def)
    moreover have "n < 2 ^ 31" using b(1) by (simp add: n_def)
    ultimately have "read_data ino offset buf nlen s = Some (int n, upd_mem (\<lambda>m. write_list m buf (read_slice s ?i ?o n)) s)"
      using rb read_slice_upt [OF nle] read_data_loop [OF assms(2) True assms(3), folded n_def]
      by (simp add: sint_of_nat_u32)
    then show ?thesis unfolding n_def read_slice_min .
  qed
qed
subsection \<open>The directory lookup\<close>

text \<open>
  The entries are those of the boot block; an entry is its 64 bytes. The lookup is the first entry
  with the name.
\<close>

definition num_entries :: "kernel \<Rightarrow> nat" where
  "num_entries s = unat (fs_word s 0)"

definition wf_dir :: "kernel \<Rightarrow> bool" where
  "wf_dir s \<longleftrightarrow> wf_image s \<and> num_entries s \<le> 63"

definition entry_bytes :: "kernel \<Rightarrow> nat \<Rightarrow> u8 list" where
  "entry_bytes s i = read_list (mem s) (img s (64 * Suc i)) 64"

definition dir_lookup :: "kernel \<Rightarrow> u8 list \<Rightarrow> nat option" where
  "dir_lookup s name = find (\<lambda>i. entry_name s i = name) [0..<num_entries s]"

lemma length_entry_bytes [simp]: "length (entry_bytes s i) = 64"
  by (simp add: entry_bytes_def)

lemma length_entry_name: "length (entry_name s i) \<le> 32"
  using length_field_str [of "read_list (mem s) (img s (64 * Suc i)) 32"] by (simp add: entry_name_def)

lemma entry_name_nz: "0 \<notin> set (entry_name s i)"
  by (auto simp: entry_name_def field_str_def dest: set_takeWhileD)

lemma length_pad0: "length bs \<le> n \<Longrightarrow> length (pad0 n bs) = n"
  by (simp add: pad0_def)

lemma same_image_read_list:
  assumes "same_image s0 s" and "n + k \<le> img_size s0"
  shows "read_list (mem s) (img s0 n) k = read_list (mem s0) (img s0 n) k"
  using assms by (intro read_list_cong) (simp add: same_image_def img_add)

lemma cstr_pad0:
  assumes "0 \<notin> set bs" and "length bs \<le> n" and "n < 2 ^ 32" and "m (padd p (of_nat n)) = 0"
  shows "cstr (rdr (write_list m p (pad0 n bs)) p) bs"
proof -
  have "rdr (write_list m p (pad0 n bs)) p i = (if i < length bs then bs ! i else 0)" if "i \<le> length bs" for i
  proof (cases "i < n")
    case True
    then show ?thesis using assms that unfolding rdr_def
      by (subst write_list_padd) (auto simp: pad0_def nth_append)
  next
    case False
    then have "i = n" "i = length bs" using that assms(2) by auto
    then show ?thesis using assms unfolding rdr_def
      by (subst write_list_other) (auto simp: in_range_def length_pad0)
  qed
  then show ?thesis using assms(1) by (auto simp: cstr_def)
qed

lemma find_dentry_step:
  assumes "same_image s0 s" and "64 * Suc i + 64 \<le> img_size s0" and "i < 2 ^ 31"
    and "cstr fname name" and "fst dentry \<noteq> Phys" and "mem s (padd poss_name 32) = 0"
  defines "s1 \<equiv> upd_mem (\<lambda>m. write_list m poss_name (pad0 32 (entry_name s0 i))) s"
  shows "find_dentry fname dentry (Suc k) (of_nat i) s =
    (if entry_name s0 i = take 32 name then (0, upd_mem (\<lambda>m. write_list m dentry (entry_bytes s0 i)) s1)
     else find_dentry fname dentry k (of_nat (Suc i)) s1)"
proof -
  define e where "e = 64 * Suc i"
  let ?src = "img s0 e"
  have ptr: "(Phys, fs_addr s + 4 * (of_nat (Suc i) * ENTRY_SIZE_UINTS)) = ?src"
    using assms(1) by (simp add: same_image_def img_def e_def algebra_simps)
  have name: "field_str (read_list (mem s) ?src 32) = entry_name s0 i"
    using same_image_read_list [OF assms(1), of e 32] assms(2) by (simp add: entry_name_def e_def)
  have bytes: "read_list (mem s) ?src 64 = entry_bytes s0 i"
    using same_image_read_list [OF assms(1,2)] by (simp add: entry_bytes_def e_def)
  have blk: "fst poss_name \<noteq> fst ?src" by (simp add: img_def)
  have mem1: "strncpy (memset (mem s) poss_name 0 FILENAME_LEN) poss_name ?src FILENAME_LEN = mem s1"
    using length_entry_name [of s0 i] blk
    by (simp add: s1_def upd_mem_def memset_eq strncpy_eq separate_blocks read_list_write_list_separate name
        write_list_overwrite length_pad0)
  have cmp: "strncmp (rdr (mem s1) poss_name) fname FILENAME_LEN = 0 \<longleftrightarrow> entry_name s0 i = take 32 name"
    using strncmp_0_iff [OF cstr_pad0 assms(4)] length_entry_name [of s0 i] entry_name_nz assms(6)
    by (simp add: s1_def upd_mem_def)
  have cpy: "memcpy (mem s1) dentry ?src ENTRY_SIZE_BYTES = write_list (mem s1) dentry (entry_bytes s0 i)"
    using blk assms(5) bytes
    by (simp add: memcpy_eq fwd_ok_def img_def s1_def upd_mem_def read_list_write_list_separate separate_blocks)
  have s1: "s1 = s\<lparr>mem := mem s1\<rparr>" by (simp add: s1_def upd_mem_def)
  have step: "upd_mem (\<lambda>m. strncpy m poss_name ?src FILENAME_LEN) (upd_mem (\<lambda>m. memset m poss_name 0 FILENAME_LEN) s) = s1"
    using mem1 by (subst s1) (simp add: upd_mem_def)
  have step2: "upd_mem (\<lambda>m. memcpy m dentry ?src ENTRY_SIZE_BYTES) s1 = upd_mem (\<lambda>m. write_list m dentry (entry_bytes s0 i)) s1"
    using cpy by (simp add: upd_mem_def)
  have suc: "(of_nat i + 1 :: u32) = of_nat (Suc i)" by simp
  show ?thesis
    by (simp only: find_dentry.simps Let_def upd_mem_fields suc ptr step step2 cmp)
qed

lemma find_dentry_spec:
  assumes "same_image s0 s" and "\<forall>j < k. 64 * Suc (i + j) + 64 \<le> img_size s0" and "i + k < 2 ^ 31"
    and "cstr fname name" and "fst dentry \<noteq> Phys" and "mem s (padd poss_name 32) = 0"
  shows "\<exists>m. (\<forall>q. fst q \<noteq> Local 1 \<longrightarrow> m q = mem s q) \<and>
    find_dentry fname dentry k (of_nat i) s = (case find (\<lambda>i. entry_name s0 i = take 32 name) [i..<i + k] of
      None \<Rightarrow> (-1, s\<lparr>mem := m\<rparr>) | Some j \<Rightarrow> (0, s\<lparr>mem := write_list m dentry (entry_bytes s0 j)\<rparr>))"
  using assms(1-3,6)
proof (induction k arbitrary: i s)
  case 0
  then show ?case by (intro exI [of _ "mem s"]) simp
next
  case (Suc k)
  let ?s1 = "upd_mem (\<lambda>m. write_list m poss_name (pad0 32 (entry_name s0 i))) s"
  have len: "length (pad0 32 (entry_name s0 i)) = 32" by (rule length_pad0 [OF length_entry_name])
  have out: "mem ?s1 q = mem s q" if "q = padd poss_name 32 \<or> fst q \<noteq> Local 1" for q
    using that len by (auto simp: upd_mem_def write_list_other in_range_def)
  have same: "same_image s0 ?s1"
    using Suc.prems(1) out by (auto simp: same_image_def img_def)
  have upt: "[i..<i + Suc k] = i # [Suc i..<Suc i + k]" by (simp add: upt_rec)
  have bound: "64 * Suc i + 64 \<le> img_size s0" "i < 2 ^ 31" using Suc.prems(2,3) by auto
  note step = find_dentry_step [OF Suc.prems(1) bound assms(4,5) Suc.prems(4), of k]
  show ?case
  proof (cases "entry_name s0 i = take 32 name")
    case True
    then show ?thesis using out unfolding step upt
      by (intro exI [of _ "mem ?s1"]) (simp add: upd_mem_def)
  next
    case False
    have "\<forall>j < k. 64 * Suc (Suc i + j) + 64 \<le> img_size s0"
      using Suc.prems(2) [rule_format, of "Suc _"] by simp
    moreover have "Suc i + k < 2 ^ 31" "mem ?s1 (padd poss_name 32) = 0" using Suc.prems(3,4) out by auto
    ultimately obtain m where m: "\<forall>q. fst q \<noteq> Local 1 \<longrightarrow> m q = mem ?s1 q"
      "find_dentry fname dentry k (of_nat (Suc i)) ?s1 = (case find (\<lambda>i. entry_name s0 i = take 32 name) [Suc i..<Suc i + k] of
        None \<Rightarrow> (-1, ?s1\<lparr>mem := m\<rparr>) | Some j \<Rightarrow> (0, ?s1\<lparr>mem := write_list m dentry (entry_bytes s0 j)\<rparr>))"
      using Suc.IH [OF same, of "Suc i"] by blast
    then show ?thesis using out False unfolding step upt
      by (intro exI [of _ m]) (simp add: upd_mem_def split: option.split)
  qed
qed

lemma read_dentry_by_name_spec:
  assumes "wf_dir s" and "cstr fname name" and "fst dentry \<noteq> Phys" and "fst dentry \<noteq> Local 1"
  shows "\<exists>m. (\<forall>q. fst q \<noteq> Local 1 \<longrightarrow> m q = mem s q) \<and>
    read_dentry_by_name fname dentry s = Some (case dir_lookup s name of
      None \<Rightarrow> (-1, s\<lparr>mem := m\<rparr>) | Some j \<Rightarrow> (0, s\<lparr>mem := write_list m dentry (entry_bytes s j)\<rparr>))"
proof -
  let ?s = "upd_mem (\<lambda>m. write_list m poss_name (replicate 33 0)) s"
  have out: "mem ?s q = mem s q" if "fst q \<noteq> Local 1" for q
    using that by (auto simp: upd_mem_def write_list_other in_range_def)
  show ?thesis
  proof (cases "length name > 32")
    case True
    then have "entry_name s i \<noteq> name" for i using length_entry_name [of s i] by auto
    then have "dir_lookup s name = None" by (simp add: dir_lookup_def find_None_iff)
    then show ?thesis using True out cstr_strlen [OF assms(2)]
      by (intro exI [of _ "mem ?s"]) (simp add: read_dentry_by_name_def upd_mem_def)
  next
    case False
    have same: "same_image s ?s" using out by (simp add: same_image_def img_def)
    have zero: "mem ?s (padd poss_name 32) = 0"
      using write_list_padd [of "replicate 33 0" 32 "mem s" poss_name] by (simp add: upd_mem_def)
    have size: "\<forall>j < num_entries s. 64 * Suc (0 + j) + 64 \<le> img_size s" "0 + num_entries s < 2 ^ 31"
      using assms(1) by (auto simp: wf_dir_def img_size_def)
    obtain m where "\<forall>q. fst q \<noteq> Local 1 \<longrightarrow> m q = mem ?s q"
      "find_dentry fname dentry (num_entries s) (of_nat 0) ?s = (case find (\<lambda>i. entry_name s i = take 32 name) [0..<0 + num_entries s] of
        None \<Rightarrow> (-1, ?s\<lparr>mem := m\<rparr>) | Some j \<Rightarrow> (0, ?s\<lparr>mem := write_list m dentry (entry_bytes s j)\<rparr>))"
      using find_dentry_spec [OF same size assms(2,3) zero] by blast
    then show ?thesis using False out cstr_strlen [OF assms(2)]
      by (intro exI [of _ m]) (simp add: read_dentry_by_name_def dir_lookup_def num_entries_def upd_mem_def split: option.split)
  qed
qed

subsection \<open>Sequential reading of a file and of the directory\<close>

lemma same_image_counts:
  assumes "same_image s0 s"
  shows "num_inodes s = num_inodes s0" and "num_blocks s = num_blocks s0" and "num_entries s = num_entries s0"
    and "img s n = img s0 n" and "img_size s = img_size s0"
proof -
  have fs: "fs_addr s = fs_addr s0" using assms by (simp add: same_image_def)
  have word: "fs_word s (of_nat i) = fs_word s0 (of_nat i)" if "i < 3" for i
    using same_image_ld32 [OF assms, of "4 * i"] that by (simp add: fs_word_def fs img_def img_size_def)
  show "num_inodes s = num_inodes s0" "num_blocks s = num_blocks s0" "num_entries s = num_entries s0"
    using word [of 0] word [of 1] word [of 2] by (simp_all add: num_inodes_def num_blocks_def num_entries_def)
  then show "img s n = img s0 n" "img_size s = img_size s0" by (simp_all add: img_def fs img_size_def)
qed

lemma same_image_file:
  assumes "same_image s0 s" and "wf_image s0" and "wf_file s0 ino"
  shows "file_size s ino = file_size s0 ino" and "file_bytes s ino = file_bytes s0 ino"
    and "wf_image s" and "wf_file s ino"
proof -
  note c = same_image_counts [OF assms(1)]
  have ino: "ino < num_inodes s0" "file_size s0 ino \<le> 1023 * 4096" using assms(3) by (simp_all add: wf_file_def)
  have blk: "block_no s ino k = block_no s0 ino k" if "k < 1023" for k
    using same_image_ld32 [OF assms(1), of "4096 * Suc ino + 4 * Suc k"] ino(1) that by (simp add: block_no_def c img_size_def)
  show size: "file_size s ino = file_size s0 ino"
    using same_image_ld32 [OF assms(1), of "4096 * Suc ino"] ino(1) by (simp add: file_size_def c img_size_def)
  have byte: "file_byte s ino j = file_byte s0 ino j" if "j < file_size s0 ino" for j
  proof -
    have "j div 4096 < 1023" using that ino(2) by simp
    then have "file_byte s ino j = mem s (img s0 (4096 * (num_inodes s0 + block_no s0 ino (j div 4096) + 1) + j mod 4096))"
      by (simp add: file_byte_def c blk)
    then show ?thesis
      using block_slice [OF assms, of j 1] that mod_less_divisor [of 4096 j] by (simp add: read_list_Suc)
  qed
  show "file_bytes s ino = file_bytes s0 ino" by (simp add: file_bytes_def size byte)
  show "wf_image s" using assms(1,2) by (simp add: wf_image_def c same_image_def)
  show "wf_file s ino" using assms(3) by (auto simp: wf_file_def c size blk)
qed

fun chunks :: "nat \<Rightarrow> nat \<Rightarrow> 'a list \<Rightarrow> 'a list list" where
  "chunks k 0 xs = []"
| "chunks k (Suc n) xs = (if xs = [] then [] else take k xs # chunks k n (drop k xs))"

lemma concat_chunks: "0 < k \<Longrightarrow> length xs \<le> n \<Longrightarrow> concat (chunks k n xs) = xs"
  by (induction k n xs rule: chunks.induct) auto

lemma chunks_fuel: "0 < k \<Longrightarrow> length xs \<le> n \<Longrightarrow> length xs \<le> n' \<Longrightarrow> chunks k n xs = chunks k n' xs"
proof (induction n arbitrary: n' xs)
  case 0
  then show ?case by (cases n') auto
next
  case (Suc n)
  then show ?case by (cases n') auto
qed

lemma length_chunks: "length (chunks k n xs) \<le> n"
  by (induction k n xs rule: chunks.induct) auto

text \<open>
  The client's view of a descriptor of a regular file: a \<^verbatim>\<open>read\<close> of \<open>k\<close> bytes into \<open>buf\<close>, and the bytes
  it finds there, or the end of the file when \<^verbatim>\<open>read\<close> returns 0.
\<close>

definition file_next :: "nat \<Rightarrow> ptr \<Rightarrow> nat \<Rightarrow> kernel \<Rightarrow> (u8 list option \<times> kernel) option" where
  "file_next fd buf k s = do {
     (n, s) \<leftarrow> fsys_read_file fd buf (int k) s;
     Some (if n = 0 then None else Some (read_list (mem s) buf (nat n)), s)
   }"

definition fd_ino :: "nat \<Rightarrow> kernel \<Rightarrow> nat" where "fd_ino fd s = unat (inode (cur_fd s fd))"

definition fd_off :: "nat \<Rightarrow> kernel \<Rightarrow> nat" where "fd_off fd s = unat (file_pos (cur_fd s fd))"

definition file_inv :: "nat \<Rightarrow> ptr \<Rightarrow> nat \<Rightarrow> kernel \<Rightarrow> bool" where
  "file_inv fd buf k s \<longleftrightarrow> wf_image s \<and> wf_file s (fd_ino fd s) \<and> img_separate s buf k
     \<and> fd_off fd s \<le> file_size s (fd_ino fd s) \<and> 0 < k \<and> k < 2 ^ 31"

definition file_items :: "nat \<Rightarrow> nat \<Rightarrow> kernel \<Rightarrow> u8 list list" where
  "file_items fd k s = chunks k (file_size s (fd_ino fd s)) (drop (fd_off fd s) (file_bytes s (fd_ino fd s)))"

lemma img_separate_le: "img_separate s p n \<Longrightarrow> k \<le> n \<Longrightarrow> img_separate s p k"
  unfolding img_separate_def separate_def in_range_def by auto

text \<open>A read of a regular file delivers the next bytes and moves the position past them.\<close>

lemma fsys_read_file_spec:
  assumes "file_inv fd buf k s"
  defines "xs \<equiv> read_slice s (fd_ino fd s) (fd_off fd s) k"
  shows "fsys_read_file fd buf (int k) s = Some (int (length xs),
    if xs = [] then s
    else upd_fd (cur_pcb s) fd (\<lambda>f. f\<lparr>file_pos := file_pos f + of_nat (length xs)\<rparr>) (upd_mem (\<lambda>m. write_list m buf xs) s))"
proof -
  let ?ino = "inode (cur_fd s fd)" and ?pos = "file_pos (cur_fd s fd)"
  have wf: "wf_image s" "wf_file s (unat ?ino)" "img_separate s buf k" "unat ?pos \<le> file_size s (unat ?ino)" "k < 2 ^ 31"
    using assms(1) by (simp_all add: file_inv_def fd_ino_def fd_off_def)
  note b = wf_file_bounds [OF wf(2)]
  have size: "fs_word s ((?ino + 1) * BLK_SIZE_UINTS) = of_nat (file_size s (unat ?ino))"
    unfolding fs_word_def by (rule inode_size)
  have k: "unat (of_int (int k) :: u32) = k" using wf(5) by simp
  have rd: "read_data ?ino ?pos buf (of_int (int k)) s = Some (int (length xs), upd_mem (\<lambda>m. write_list m buf xs) s)"
    using read_data_spec [OF wf(1,2), of ?pos "of_int (int k)" buf] wf(4,5) b(1) img_separate_le [OF wf(3)] k
    by (simp add: xs_def fd_ino_def fd_off_def)
  show ?thesis
  proof (cases "unat ?pos = file_size s (unat ?ino)")
    case True
    then have "xs = []" by (simp add: xs_def fd_ino_def fd_off_def flip: length_0_conv)
    then show ?thesis using True b(3) [of ?pos] by (simp only: fsys_read_file_def Let_def size) simp
  next
    case False
    then have "\<not> ?pos \<ge> of_nat (file_size s (unat ?ino))" using b(3) wf(4) by simp
    moreover have "xs \<noteq> []" using False wf(4) assms(1)
      by (simp add: xs_def fd_ino_def fd_off_def file_inv_def flip: length_0_conv)
    ultimately show ?thesis using rd by (simp only: fsys_read_file_def Let_def size) simp
  qed
qed

lemma file_inv_step:
  assumes "file_inv fd buf k s"
  defines "xs \<equiv> read_slice s (fd_ino fd s) (fd_off fd s) k"
  defines "s' \<equiv> upd_fd (cur_pcb s) fd (\<lambda>f. f\<lparr>file_pos := file_pos f + of_nat (length xs)\<rparr>) (upd_mem (\<lambda>m. write_list m buf xs) s)"
  shows "fd_ino fd s' = fd_ino fd s" and "fd_off fd s' = fd_off fd s + length xs"
    and "file_bytes s' (fd_ino fd s) = file_bytes s (fd_ino fd s)" and "file_inv fd buf k s'"
    and "file_size s' (fd_ino fd s) = file_size s (fd_ino fd s)"
proof -
  have wf: "wf_image s" "wf_file s (fd_ino fd s)" "img_separate s buf k" "fd_off fd s \<le> file_size s (fd_ino fd s)" "0 < k" "k < 2 ^ 31"
    using assms(1) by (simp_all add: file_inv_def)
  have len: "length xs \<le> k" "fd_off fd s + length xs \<le> file_size s (fd_ino fd s)" using wf(4) by (simp_all add: xs_def)
  have flen: "file_size s (fd_ino fd s) \<le> 1023 * 4096" using wf(2) by (simp add: wf_file_def)
  have "same_image s (upd_mem (\<lambda>m. write_list m buf xs) s)"
    using same_image_write [of s s buf k 0 xs] wf(3,6) len(1) by simp
  then have same: "same_image s s'" by (simp add: same_image_def s'_def)
  note f = same_image_file [OF same wf(1,2)]
  show ino: "fd_ino fd s' = fd_ino fd s" by (simp add: fd_ino_def cur_fd_def s'_def)
  have "unat (file_pos (cur_fd s fd) + of_nat (length xs)) = fd_off fd s + length xs"
    using len flen by (simp add: fd_off_def unat_word_ariths)
  then show off: "fd_off fd s' = fd_off fd s + length xs" by (simp add: fd_off_def cur_fd_def s'_def)
  show "file_bytes s' (fd_ino fd s) = file_bytes s (fd_ino fd s)" "file_size s' (fd_ino fd s) = file_size s (fd_ino fd s)"
    using f(1,2) by simp_all
  have "img_separate s' buf k" using wf(3) by (simp add: img_separate_def same_image_counts [OF same])
  then show "file_inv fd buf k s'" using f wf len off ino by (simp add: file_inv_def)
qed

lemma file_items_Cons:
  assumes "file_inv fd buf k s" and "file_items fd k s = x # xs"
  shows "x = read_slice s (fd_ino fd s) (fd_off fd s) k" and "x \<noteq> []"
    and "xs = chunks k (file_size s (fd_ino fd s)) (drop (fd_off fd s + k) (file_bytes s (fd_ino fd s)))"
proof -
  let ?ys = "drop (fd_off fd s) (file_bytes s (fd_ino fd s))"
  have k: "0 < k" using assms(1) by (simp add: file_inv_def)
  have eq: "file_items fd k s = chunks k (Suc (file_size s (fd_ino fd s))) ?ys"
    unfolding file_items_def using k by (intro chunks_fuel) (auto simp: file_bytes_def)
  then have "?ys \<noteq> []" using assms(2) by auto
  then have *: "file_items fd k s = take k ?ys # chunks k (file_size s (fd_ino fd s)) (drop k ?ys)" using eq by simp
  then show "x = read_slice s (fd_ino fd s) (fd_off fd s) k" using assms(2) by (simp add: read_slice_def)
  show "x \<noteq> []" using * assms(2) k \<open>?ys \<noteq> []\<close> by auto
  show "xs = chunks k (file_size s (fd_ino fd s)) (drop (fd_off fd s + k) (file_bytes s (fd_ino fd s)))"
    using * assms(2) by (simp add: add.commute)
qed

interpretation rf: cursor "file_inv fd buf k" "file_items fd k" "file_next fd buf k" for fd buf k
proof
  fix s assume inv: "file_inv fd buf k s" and nil: "file_items fd k s = []"
  let ?ys = "drop (fd_off fd s) (file_bytes s (fd_ino fd s))"
  have "0 < k" using inv by (simp add: file_inv_def)
  then have "concat (file_items fd k s) = ?ys"
    unfolding file_items_def by (intro concat_chunks) (simp_all add: file_bytes_def)
  then have "read_slice s (fd_ino fd s) (fd_off fd s) k = []" using nil by (simp add: read_slice_def)
  then show "\<exists>s'. file_next fd buf k s = Some (None, s')"
    by (simp add: file_next_def fsys_read_file_spec [OF inv])
next
  fix s x xs assume inv: "file_inv fd buf k s" and cons: "file_items fd k s = x # xs"
  note c = file_items_Cons [OF inv cons]
  let ?s = "upd_fd (cur_pcb s) fd (\<lambda>f. f\<lparr>file_pos := file_pos f + of_nat (length x)\<rparr>) (upd_mem (\<lambda>m. write_list m buf x) s)"
  note st = file_inv_step [OF inv, folded c(1)]
  have len: "length x = min k (file_size s (fd_ino fd s) - fd_off fd s)" using c(1) by simp
  have "length x < 2 ^ 31" using len inv by (auto simp: file_inv_def min_def)
  then have rd: "read_list (mem ?s) buf (length x) = x" by (simp add: upd_mem_def read_list_write_list)
  have "drop (fd_off fd s + length x) (file_bytes s (fd_ino fd s)) = drop (fd_off fd s + k) (file_bytes s (fd_ino fd s))"
    using len inv by (cases "k \<le> file_size s (fd_ino fd s) - fd_off fd s") (simp_all add: file_bytes_def file_inv_def)
  then have "file_items fd k ?s = xs" by (simp add: file_items_def st c(3))
  then show "\<exists>s'. file_next fd buf k s = Some (Some x, s') \<and> file_inv fd buf k s' \<and> file_items fd k s' = xs"
    using st(4) c(2) rd by (simp add: file_next_def fsys_read_file_spec [OF inv] flip: c(1))
qed

text \<open>The directory: each read delivers one name.\<close>

definition dir_next :: "nat \<Rightarrow> ptr \<Rightarrow> int \<Rightarrow> kernel \<Rightarrow> (u8 list option \<times> kernel) option" where
  "dir_next fd buf nbytes s = do {
     (n, s) \<leftarrow> fsys_read_dir fd buf nbytes s;
     Some (if n = 0 then None else Some (read_list (mem s) buf (nat n)), s)
   }"

definition wf_entry :: "kernel \<Rightarrow> nat \<Rightarrow> bool" where
  "wf_entry s i \<longleftrightarrow> entry_name s i \<noteq> [] \<and> read_list (mem s) (img s (64 * Suc i)) 32 = pad0 32 (entry_name s i)"

definition dir_inv :: "nat \<Rightarrow> ptr \<Rightarrow> kernel \<Rightarrow> bool" where
  "dir_inv fd buf s \<longleftrightarrow> wf_dir s \<and> img_separate s buf 32 \<and> (\<forall>i < num_entries s. wf_entry s i)"

definition dir_items :: "nat \<Rightarrow> kernel \<Rightarrow> u8 list list" where
  "dir_items fd s = map (entry_name s) [fd_off fd s..<num_entries s]"

lemma same_image_entry:
  assumes "same_image s0 s" and "wf_dir s0" and "i < num_entries s0"
  shows "entry_name s i = entry_name s0 i" and "wf_entry s i = wf_entry s0 i"
proof -
  have "64 * Suc i + 32 \<le> img_size s0" using assms(2,3) by (simp add: wf_dir_def img_size_def)
  note rl = same_image_read_list [OF assms(1) this]
  then show n: "entry_name s i = entry_name s0 i"
    by (simp add: entry_name_def same_image_counts [OF assms(1)])
  then show "wf_entry s i = wf_entry s0 i"
    using rl by (simp add: wf_entry_def same_image_counts [OF assms(1)])
qed

text \<open>The length \<^verbatim>\<open>fsys_read_dir\<close> finds for a well-formed entry.\<close>

lemma entry_len:
  assumes "wf_entry s i" and "same_image s s1" and "64 * Suc i + 32 \<le> img_size s"
  shows "(if mem s1 (padd (img s (64 * Suc i)) 31) \<noteq> 0 then Some 32 else strlen (rdr (mem s1) (img s (64 * Suc i))))
    = Some (length (entry_name s i))"
proof -
  let ?n = "entry_name s i"
  have rl: "read_list (mem s1) (img s (64 * Suc i)) 32 = pad0 32 ?n"
    using same_image_read_list [OF assms(2,3)] assms(1) by (simp add: wf_entry_def)
  have byte: "mem s1 (padd (img s (64 * Suc i)) (of_nat j)) = (if j < length ?n then ?n ! j else 0)" if "j < 32" for j
    using arg_cong [OF rl, of "\<lambda>l. l ! j"] that by (auto simp: pad0_def nth_append)
  show ?thesis
  proof (cases "length ?n = 32")
    case True
    then have "?n ! 31 \<in> set ?n" by simp
    then have "?n ! 31 \<noteq> 0" using entry_name_nz [of s i] by metis
    then show ?thesis using byte [of 31] True by simp
  next
    case False
    then have l: "length ?n < 32" using length_entry_name [of s i] by simp
    have "cstr (rdr (mem s1) (img s (64 * Suc i))) ?n"
      using byte l entry_name_nz [of s i] by (simp add: cstr_def rdr_def)
    then show ?thesis using byte [of 31] l by (simp add: cstr_strlen)
  qed
qed

lemma separate_mono:
  assumes "separate p n q k" and "n' \<le> n" and "i + k' \<le> k"
  shows "separate p n' (padd q (of_nat i)) k'"
  unfolding separate_def
proof (intro allI impI)
  fix j assume "j < k'"
  then have "\<not> in_range p n (padd q (of_nat (i + j)))" 
    using assms(1) [unfolded separate_def, rule_format, of "i + j"] assms(3) by simp
  then show "\<not> in_range p n' (padd (padd q (of_nat i)) (of_nat j))" using assms(2) by (auto simp: in_range_def)
qed

lemma field_str_id: "0 \<notin> set bs \<Longrightarrow> field_str bs = bs"
  by (auto simp: field_str_def takeWhile_eq_all_conv)

lemma write_zeros_name:
  assumes "length bs \<le> 32"
  shows "write_list (write_list m p (replicate 32 0)) p bs = write_list m p (pad0 32 bs)"
proof -
  have "replicate 32 (0 :: u8) = replicate (length bs) 0 @ replicate (32 - length bs) 0"
    using assms by (simp flip: replicate_add)
  then show ?thesis using assms
    by (intro ext) (auto simp: write_list_apply in_range_def pad0_def nth_append)
qed

lemma fsys_read_dir_spec:
  assumes "dir_inv fd buf s" and "fd_off fd s < num_entries s"
  shows "fsys_read_dir fd buf nbytes s = Some (int (length (entry_name s (fd_off fd s))),
    upd_fd (cur_pcb s) fd (\<lambda>f. f\<lparr>file_pos := file_pos f + 1\<rparr>)
      (upd_mem (\<lambda>m. write_list m buf (pad0 32 (entry_name s (fd_off fd s)))) s))"
proof -
  define i where "i = fd_off fd s"
  let ?n = "entry_name s i" and ?src = "img s (64 * Suc i)"
  let ?s1 = "upd_mem (\<lambda>m. memset m buf 0 FILENAME_LEN) s"
  have wf: "wf_dir s" "img_separate s buf 32" "wf_entry s i" using assms by (simp_all add: dir_inv_def i_def)
  have sz: "64 * Suc i + 32 \<le> img_size s" using wf(1) assms(2) by (simp add: wf_dir_def img_size_def i_def)
  have pos: "file_pos (cur_fd s fd) = of_nat i" by (simp add: i_def fd_off_def)
  have lt: "\<not> file_pos (cur_fd s fd) \<ge> fs_word s 0" using assms(2) by (simp add: fd_off_def num_entries_def word_le_nat_alt)
  have ptr: "(Phys, fs_addr s + 4 * ((file_pos (cur_fd s fd) + 1) * ENTRY_SIZE_UINTS)) = ?src"
    by (simp add: pos img_def algebra_simps)
  have zeros: "memset (mem s) buf 0 FILENAME_LEN = write_list (mem s) buf (replicate 32 0)" by (simp add: memset_eq)
  have same: "same_image s ?s1"
    using same_image_write [of s s buf 32 0 "replicate 32 0"] wf(2) by (simp add: upd_mem_def zeros)
  have nlen: "length ?n \<le> 32" by (rule length_entry_name)
  have "read_list (mem s) ?src (length ?n) = take (length ?n) (read_list (mem s) ?src 32)"
    using nlen by (intro nth_equalityI) simp_all
  then have "read_list (mem s) ?src (length ?n) = ?n" using wf(3) by (simp add: wf_entry_def pad0_def)
  then have rl: "read_list (mem ?s1) ?src (length ?n) = ?n"
    using same_image_read_list [OF same, of "64 * Suc i" "length ?n"] sz nlen by simp
  have "64 * Suc i + length ?n \<le> img_size s" using sz nlen by linarith
  from separate_mono [OF wf(2) [unfolded img_separate_def] nlen this]
  have sep: "separate buf (length ?n) ?src (length ?n)" by (simp only: img_add add_0_left)
  have cpy: "strncpy (mem ?s1) buf ?src (of_nat (length ?n)) = write_list (mem s) buf (pad0 32 ?n)"
    using strncpy_eq [of buf "of_nat (length ?n)" ?src "mem ?s1"] sep rl nlen entry_name_nz [of s i] write_zeros_name [OF nlen]
    by (simp add: field_str_id pad0_def [of "length ?n"] upd_mem_def zeros del: mult_Suc_right)
  show ?thesis
    using lt entry_len [OF wf(3) same sz] cpy unfolding fsys_read_dir_def Let_def ptr upd_mem_fields i_def [symmetric]
    by (simp add: upd_mem_def del: mult_Suc_right)
qed
lemma dir_inv_step:
  assumes "dir_inv fd buf s" and "fd_off fd s < num_entries s"
  defines "s' \<equiv> upd_fd (cur_pcb s) fd (\<lambda>f. f\<lparr>file_pos := file_pos f + 1\<rparr>)
      (upd_mem (\<lambda>m. write_list m buf (pad0 32 (entry_name s (fd_off fd s)))) s)"
  shows "dir_inv fd buf s'" and "dir_items fd s = entry_name s (fd_off fd s) # dir_items fd s'"
proof -
  have wf: "wf_dir s" "img_separate s buf 32" using assms(1) by (simp_all add: dir_inv_def)
  have len: "length (pad0 32 (entry_name s (fd_off fd s))) = 32" by (rule length_pad0 [OF length_entry_name])
  have "same_image s (upd_mem (\<lambda>m. write_list m buf (pad0 32 (entry_name s (fd_off fd s)))) s)"
    using same_image_write [of s s buf 32 0 "pad0 32 (entry_name s (fd_off fd s))"] wf(2) len by simp
  then have same: "same_image s s'" by (simp add: same_image_def s'_def)
  note c = same_image_counts [OF same] and e = same_image_entry [OF same wf(1)]
  show "dir_inv fd buf s'"
    using assms(1) same by (auto simp: dir_inv_def wf_dir_def wf_image_def img_separate_def same_image_def c e)
  have "unat (file_pos (cur_fd s fd) + 1) = fd_off fd s + 1"
    using assms(2) wf(1) by (simp add: fd_off_def unat_word_ariths wf_dir_def)
  then have "fd_off fd s' = Suc (fd_off fd s)" by (simp add: fd_off_def cur_fd_def s'_def)
  then show "dir_items fd s = entry_name s (fd_off fd s) # dir_items fd s'"
    using assms(2) by (simp add: dir_items_def c e upt_conv_Cons)
qed

interpretation rd: cursor "dir_inv fd buf" "dir_items fd" "dir_next fd buf nbytes" for fd buf nbytes
proof
  fix s assume "dir_inv fd buf s" and "dir_items fd s = []"
  then have "file_pos (cur_fd s fd) \<ge> fs_word s 0" by (auto simp: dir_items_def fd_off_def num_entries_def word_le_nat_alt)
  then show "\<exists>s'. dir_next fd buf nbytes s = Some (None, s')" by (simp add: dir_next_def fsys_read_dir_def Let_def)
next
  fix s x xs assume inv: "dir_inv fd buf s" and cons: "dir_items fd s = x # xs"
  then have lt: "fd_off fd s < num_entries s" by (cases "fd_off fd s < num_entries s") (simp_all add: dir_items_def)
  then have "wf_entry s (fd_off fd s)" using inv by (simp add: dir_inv_def)
  then have ne: "entry_name s (fd_off fd s) \<noteq> []" by (simp add: wf_entry_def)
  note st = dir_inv_step [OF inv lt]
  have x: "x = entry_name s (fd_off fd s)" using st(2) cons by simp
  have "length x \<le> 32" using x by (simp add: length_entry_name)
  then have "read_list (write_list (mem s) buf (pad0 32 x)) buf (length x) = x"
    by (subst read_list_write_list) (simp_all add: length_pad0, simp add: pad0_def)
  then show "\<exists>s'. dir_next fd buf nbytes s = Some (Some x, s') \<and> dir_inv fd buf s' \<and> dir_items fd s' = xs"
    using st cons ne fsys_read_dir_spec [OF inv lt, of nbytes] x by (simp add: dir_next_def upd_mem_def)
qed

subsection \<open>Refused reads\<close>

text \<open>The result of a read that copies nothing: no such inode, end of file, or a bad first block.\<close>

definition read_refusal :: "kernel \<Rightarrow> nat \<Rightarrow> nat \<Rightarrow> int option" where
  "read_refusal s ino off =
     (if num_inodes s \<le> ino then Some (-1)
      else if file_size s ino \<le> off then Some 0
      else if num_blocks s \<le> block_no s ino (off div 4096) then Some (-1)
      else None)"

lemma read_data_refused:
  assumes "read_refusal s (unat ino) (unat offset) = Some r"
  shows "read_data ino offset buf nlen s = Some (r, s)"
proof -
  have ino: "ino \<ge> fs_word s 1 \<longleftrightarrow> num_inodes s \<le> unat ino" by (simp add: num_inodes_def word_le_nat_alt)
  have off: "offset \<ge> of_nat (file_size s (unat ino)) \<longleftrightarrow> file_size s (unat ino) \<le> unat offset" by (simp add: word_le_nat_alt)
  have blk: "ld32 (mem s) (Phys, fs_addr s + 4 * ((ino + 1) * BLK_SIZE_UINTS) + 4 * (offset div BLK_SIZE_BYTES + 1)) \<ge> fs_word s 2
      \<longleftrightarrow> num_blocks s \<le> block_no s (unat ino) (unat offset div 4096)"
    unfolding fs_ptrs(3) by (simp add: num_blocks_def block_no_def word_le_nat_alt unat_div)
  show ?thesis using assms
    by (simp only: read_data_def Let_def inode_size ino off blk read_refusal_def split: if_splits) simp_all
qed

subsection \<open>A small image\<close>

text \<open>One file \<^verbatim>\<open>a\<close> of three bytes: one directory entry, one inode, one data block.\<close>

definition sample_image :: memory where
  "sample_image q = (if fst q = Phys
     then (case map_of [(0, 1), (4, 1), (8, 1), (64, 0x61), (96, 2), (4096, 3), (8192, 0x68), (8193, 0x69), (8194, 0x21)]
             (snd q - 0x410000) of None \<Rightarrow> 0 | Some b \<Rightarrow> b)
     else 0)"

abbreviation sample_fs :: kernel where "sample_fs \<equiv> blank_kernel sample_image"

lemma sample_counts [simp]:
  "fs_addr sample_fs = 0x410000" "num_entries sample_fs = 1" "num_inodes sample_fs = 1" "num_blocks sample_fs = 1"
  "img_size sample_fs = 12288" "mem sample_fs = sample_image"
  by (simp_all add: blank_kernel_def num_entries_def num_inodes_def num_blocks_def img_size_def fs_word_def ld32_def sample_image_def)

lemma sample_file:
  "file_size sample_fs 0 = 3" "block_no sample_fs 0 0 = 0" "file_bytes sample_fs 0 = [0x68, 0x69, 0x21]"
  "entry_name sample_fs 0 = [0x61]" "wf_entry sample_fs 0"
proof -
  show *: "file_size sample_fs 0 = 3" "block_no sample_fs 0 0 = 0"
    by (simp_all add: file_size_def block_no_def img_def ld32_def sample_image_def)
  show "file_bytes sample_fs 0 = [0x68, 0x69, 0x21]"
    by (simp add: file_bytes_def file_byte_def * img_def sample_image_def upt_rec)
  show n: "entry_name sample_fs 0 = [0x61]"
    by (simp add: entry_name_def field_str_def img_def read_list_def rdr_def sample_image_def upt_rec)
  show "wf_entry sample_fs 0"
    by (simp add: wf_entry_def n pad0_def img_def read_list_def rdr_def sample_image_def upt_rec) (simp add: eval_nat_numeral)
qed

lemma sample_wf [simp]: "wf_image sample_fs" "wf_dir sample_fs" "wf_file sample_fs 0"
  by (simp_all add: wf_image_def wf_dir_def wf_file_def sample_file)

lemma sample_separate [simp]: "img_separate sample_fs (Local i, a) n"
  by (simp add: img_separate_def separate_blocks img_def)

subsection \<open>Properties\<close>

text \<open>
  C7: On a well-formed file, \<^verbatim>\<open>read_data\<close> always returns: it copies the bytes of the file from \<^verbatim>\<open>offset\<close> on,
  at most \<^verbatim>\<open>length\<close> of them and none past the end of the file, to the buffer, across any number of data
  blocks, returns their number, and changes nothing else.\<close>

theorem read_data_correct:
  assumes "wf_image s" and "wf_file s (unat ino)" and "unat offset + unat nlen < 2 ^ 32"
    and "img_separate s buf (min (unat nlen) (file_size s (unat ino) - unat offset))"
  shows "read_data ino offset buf nlen s =
    Some (int (min (unat nlen) (file_size s (unat ino) - unat offset)),
          s\<lparr>mem := write_list (mem s) buf (take (unat nlen) (drop (unat offset) (file_bytes s (unat ino))))\<rparr>)"
  using read_data_spec [OF assms] by (simp add: upd_mem_def read_slice_def)

theorem read_data_correct_witness:
  "read_data 0 1 (Local 3, 0) 100 sample_fs = Some (2, sample_fs\<lparr>mem := write_list sample_image (Local 3, 0) [0x69, 0x21]\<rparr>)"
  using read_data_correct [of sample_fs 0 1 100 "(Local 3, 0)"] by (simp add: sample_file)

text \<open>
  C30: \<^verbatim>\<open>read_data\<close> refuses an inode number that the image does not have, and a first block that is not a data
  block of the image, with -1; at or past the end of the file it returns 0; in each case nothing is
  copied, whatever the length and the buffer.\<close>

theorem read_data_errors:
  assumes "read_refusal s (unat ino) (unat offset) = Some r"
  shows "read_data ino offset buf nlen s = Some (r, s)"
  using assms by (rule read_data_refused)

theorem read_data_errors_witness:
  "read_data 1 0 (Local 3, 0) 8 sample_fs = Some (-1, sample_fs)"
  using read_data_errors [of sample_fs 1 0 "-1" "(Local 3, 0)" 8] by (simp add: read_refusal_def)

text \<open>
  C29: \<^verbatim>\<open>read_dentry_by_name\<close> copies the 64 bytes of the first directory entry with exactly the given name to
  the caller's \<^verbatim>\<open>dentry_t\<close> and returns 0, or returns -1 and leaves it alone when no entry has the name (in
  particular for a name of more than 32 characters); only its own local array changes besides.\<close>

theorem read_dentry_by_name_first:
  assumes "wf_dir s" and "cstr fname name" and "fst dentry \<noteq> Phys" and "fst dentry \<noteq> Local 1"
  shows "\<exists>m. (\<forall>q. fst q \<noteq> Local 1 \<longrightarrow> m q = mem s q) \<and>
    read_dentry_by_name fname dentry s = Some (case dir_lookup s name of
      None \<Rightarrow> (-1, s\<lparr>mem := m\<rparr>) | Some j \<Rightarrow> (0, s\<lparr>mem := write_list m dentry (entry_bytes s j)\<rparr>))"
  using assms by (rule read_dentry_by_name_spec)

theorem read_dentry_by_name_first_witness:
  "\<exists>m. read_dentry_by_name (\<lambda>i. if i = 0 then 0x61 else 0) (Local 2, 0) sample_fs
     = Some (0, sample_fs\<lparr>mem := write_list m (Local 2, 0) (entry_bytes sample_fs 0)\<rparr>)"
proof -
  have "dir_lookup sample_fs [0x61] = Some 0" by (simp add: dir_lookup_def sample_file)
  moreover have "cstr (\<lambda>i. if i = 0 then 0x61 else 0) [0x61]" by (simp add: cstr_def)
  ultimately show ?thesis
    using read_dentry_by_name_first [of sample_fs "\<lambda>i. if i = 0 then 0x61 else 0" "[0x61]" "(Local 2, 0)"] by auto
qed

text \<open>
  C27: A client that calls \<^verbatim>\<open>read\<close> on a regular file with a buffer of any positive size until it returns 0 gets,
  piece after piece, exactly the rest of the file, whatever the position it starts from.\<close>

theorem fsys_read_file_all:
  assumes "file_inv fd buf k s"
  shows "\<exists>xs s'. drain (file_next fd buf k) (Suc (file_size s (fd_ino fd s))) s = Some (xs, s')
    \<and> concat xs = drop (fd_off fd s) (file_bytes s (fd_ino fd s))"
proof -
  have "length (file_items fd k s) < Suc (file_size s (fd_ino fd s))"
    by (simp add: file_items_def length_chunks less_Suc_eq_le)
  from rf.drain_items [OF assms this] obtain s' where
    "drain (file_next fd buf k) (Suc (file_size s (fd_ino fd s))) s = Some (file_items fd k s, s')" by blast
  moreover have "concat (file_items fd k s) = drop (fd_off fd s) (file_bytes s (fd_ino fd s))"
    unfolding file_items_def using assms by (intro concat_chunks) (simp_all add: file_inv_def file_bytes_def)
  ultimately show ?thesis by blast
qed

theorem fsys_read_file_all_witness:
  "\<exists>xs s'. drain (file_next 2 (Local 3, 0) 2) 4 sample_fs = Some (xs, s') \<and> concat xs = [0x68, 0x69, 0x21]"
proof -
  have "cur_fd sample_fs 2 = blank_fdesc" by (simp add: cur_fd_def blank_kernel_def blank_pcb_def)
  then have "fd_ino 2 sample_fs = 0" "fd_off 2 sample_fs = 0" by (simp_all add: fd_ino_def fd_off_def blank_fdesc_def)
  then show ?thesis
    using fsys_read_file_all [of 2 "(Local 3, 0)" 2 sample_fs] by (simp add: file_inv_def sample_file)
qed

text \<open>
  C28: A client that calls \<^verbatim>\<open>read\<close> on the directory until it returns 0 gets the names of all the entries from
  the position on, one per call and in order.\<close>

theorem fsys_read_dir_all:
  assumes "dir_inv fd buf s"
  shows "\<exists>s'. drain (dir_next fd buf nbytes) (Suc (num_entries s)) s = Some (map (entry_name s) [fd_off fd s..<num_entries s], s')"
  using rd.drain_items [OF assms, of "Suc (num_entries s)" nbytes] by (simp add: dir_items_def)

theorem fsys_read_dir_all_witness:
  "\<exists>s'. drain (dir_next 2 (Local 3, 0) 32) 2 sample_fs = Some ([[0x61]], s')"
proof -
  have "cur_fd sample_fs 2 = blank_fdesc" by (simp add: cur_fd_def blank_kernel_def blank_pcb_def)
  then have "fd_off 2 sample_fs = 0" by (simp add: fd_off_def blank_fdesc_def)
  then show ?thesis
    using fsys_read_dir_all [of 2 "(Local 3, 0)" sample_fs 32] by (simp add: dir_inv_def sample_file numeral_2_eq_2)
qed

end
