(* ===== verification/Pcb.thy ===== *)
theory Pcb
  imports FileSystem
begin

text \<open>
  Process control blocks and file descriptors, \<^verbatim>\<open>student-distrib/pcb.c\<close>, with the operations of the device
  drivers that free a descriptor. The main results: the bit count is the number of bits set; a new block
  is the lowest free slot of the bitmap, at an address of its own; opening takes the lowest free
  descriptor and closing gives it back; closing a process leaves it with no descriptor in use.
\<close>

subsection \<open>The code\<close>

function find_slot :: "u32 \<Rightarrow> u32 \<Rightarrow> u32" where
  "find_slot temp_pcb_status offset =
     (if temp_pcb_status AND 1 \<noteq> 0 then find_slot (drop_bit 1 temp_pcb_status) (offset + 1) else offset)"
  by pat_completeness auto
termination
proof (relation "measure (\<lambda>(t, _). unat t)")
  fix t p :: u32
  assume "t AND 1 \<noteq> 0"
  then have "0 < unat t" by (cases "t = 0") (simp_all add: unat_gt_0)
  then show "((drop_bit 1 t, p + 1), (t, p)) \<in> measure (\<lambda>(t, _). unat t)"
    by (simp add: unat_div drop_bit_eq_div)
qed simp

declare find_slot.simps [simp del]

text \<open>
  All 32 bits set would make the shift undefined; the bitmap has at most \<^verbatim>\<open>MAX_PROCESSES\<close> of them.
\<close>

definition find_empty_pcb :: "kernel \<Rightarrow> u32 \<times> kernel" where
  "find_empty_pcb s =
     (let offset = find_slot (pcb_status s) 0
      in (offset, s\<lparr>pcb_status := pcb_status s OR push_bit (unat offset) 1\<rparr>))"

fun clear_fds :: "nat \<Rightarrow> u32 \<Rightarrow> kernel \<Rightarrow> kernel" where
  "clear_fds 0 blk s = s"
| "clear_fds (Suc k) blk s =
     clear_fds k blk (upd_fd blk (MAX_DESC - Suc k) (\<lambda>f. f\<lparr>flags := NOT_USED, file_ops := empty_f_ops_tab\<rparr>) s)"

definition init_pcb :: "kernel \<Rightarrow> u32 \<times> kernel" where
  "init_pcb s =
     (let (offset, s) = find_empty_pcb s;
          newBlk = END_OF_KERNEL_PAGE - PCB_PLUS_STACK * (offset + 1);
          s = upd_pcb newBlk (\<lambda>b. b\<lparr>pcb_num := offset\<rparr>) s;
          s = clear_fds MAX_DESC newBlk s;
          s = upd_mem (\<lambda>m. memset m (PcbArg newBlk, 0) 0 (of_nat KEY_BUF_SIZE)) s
      in (newBlk, s))"

definition close_file_desc :: "u32 \<Rightarrow> u32 \<Rightarrow> kernel \<Rightarrow> int \<times> kernel" where
  "close_file_desc blk fd s =
     (if 8 \<le> fd \<or> blk = NULL then (-1, s)
      else let s = upd_fd (cur_pcb s) (unat fd) (\<lambda>f. f\<lparr>file_ops := empty_f_ops_tab\<rparr>) s
           in (0, upd_fd blk (unat fd) (\<lambda>f. f\<lparr>flags := NOT_USED\<rparr>) s))"

definition rtc_close :: "u32 \<Rightarrow> kernel \<Rightarrow> int \<times> kernel" where
  "rtc_close fd s = close_file_desc (cur_pcb s) fd s"

definition fsys_close_file :: "u32 \<Rightarrow> kernel \<Rightarrow> int \<times> kernel" where
  "fsys_close_file fd s = close_file_desc (cur_pcb s) fd s"

definition fsys_close_dir :: "u32 \<Rightarrow> kernel \<Rightarrow> int \<times> kernel" where
  "fsys_close_dir fd s = close_file_desc (cur_pcb s) fd s"

text \<open>
  The members \<^verbatim>\<open>open\<close> and \<^verbatim>\<open>close\<close> of the jump tables; \<open>None\<close> is the null pointer.
\<close>

fun op_open :: "f_ops_table \<Rightarrow> (kernel \<Rightarrow> int \<times> kernel) option" where
  "op_open rtc_jt = Some rtc_open"
| "op_open dir_jt = Some fsys_open_dir"
| "op_open regf_jt = Some fsys_open_file"
| "op_open _ = None"

fun op_close :: "f_ops_table \<Rightarrow> (u32 \<Rightarrow> kernel \<Rightarrow> int \<times> kernel) option" where
  "op_close rtc_jt = Some rtc_close"
| "op_close dir_jt = Some fsys_close_dir"
| "op_close regf_jt = Some fsys_close_file"
| "op_close _ = None"

fun close_fds :: "nat \<Rightarrow> kernel \<Rightarrow> kernel" where
  "close_fds 0 s = s"
| "close_fds (Suc k) s =
     (let i = MAX_DESC - Suc k;
          s = (case op_close (file_ops (cur_fd s i)) of None \<Rightarrow> s | Some f \<Rightarrow> snd (f (of_nat i) s));
          s = snd (close_file_desc (cur_pcb s) (of_nat i) s)
      in close_fds k s)"

definition close_pcb :: "u32 \<Rightarrow> kernel \<Rightarrow> int \<times> kernel" where
  "close_pcb blk s = (if blk = NULL then (-1, s) else (0, close_fds MAX_DESC s))"

text \<open>The array \<^verbatim>\<open>tableaux\<close>; an index past its end is undefined.\<close>

definition tableaux :: "u32 \<Rightarrow> f_ops_table option" where
  "tableaux i = (if i = 0 then Some rtc_jt else if i = 1 then Some dir_jt else if i = 2 then Some regf_jt else None)"

text \<open>The local \<^verbatim>\<open>temp_dentry\<close> of \<^verbatim>\<open>open_file_desc\<close>.\<close>

abbreviation temp_dentry :: ptr where "temp_dentry \<equiv> (Local 2, 0)"

definition open_slot :: "nat \<Rightarrow> u32 \<Rightarrow> reader \<Rightarrow> kernel \<Rightarrow> (int \<times> kernel) option" where
  "open_slot idx blk filename s =
     (let s = upd_fd blk idx (\<lambda>f. f\<lparr>file_pos := 0, flags := IN_USE\<rparr>) s
      in if strncmp filename (lit ''stdin'') 5 \<noteq> 0 \<and> strncmp filename (lit ''stdout'') 6 \<noteq> 0
         then do {
           (_, s) \<leftarrow> read_dentry_by_name filename temp_dentry s;
           let s = upd_fd blk idx (\<lambda>f. f\<lparr>inode := dentry_inode_num (mem s) temp_dentry\<rparr>) s;
           ops \<leftarrow> tableaux (dentry_file_type (mem s) temp_dentry);
           let s = upd_fd blk idx (\<lambda>f. f\<lparr>file_ops := ops\<rparr>) s;
           op \<leftarrow> op_open ops;
           Some (int idx, snd (op s))
         }
         else let ops = (if strncmp filename (lit ''stdin'') 5 = 0 then stdin else stdout)
              in Some (int idx, upd_fd blk idx (\<lambda>f. f\<lparr>file_ops := ops, inode := 0\<rparr>) s))"

fun open_loop :: "nat \<Rightarrow> u32 \<Rightarrow> reader \<Rightarrow> kernel \<Rightarrow> (int \<times> kernel) option" where
  "open_loop 0 blk filename s = Some (-1, s)"
| "open_loop (Suc k) blk filename s =
     (let idx = MAX_DESC - Suc k
      in if flags (io_files (pcbs s blk) idx) \<noteq> NOT_USED then open_loop k blk filename s
         else open_slot idx blk filename s)"

definition open_file_desc :: "u32 \<Rightarrow> reader \<Rightarrow> kernel \<Rightarrow> (int \<times> kernel) option" where
  "open_file_desc blk filename s = (if blk = NULL then Some (-1, s) else open_loop MAX_DESC blk filename s)"

definition our_popcount :: "u32 \<Rightarrow> u32" where
  "our_popcount v =
     (let result = v - (drop_bit 1 v AND 0x55555555);
          result = (result AND 0x33333333) + (drop_bit 2 result AND 0x33333333)
      in drop_bit 24 (((result + drop_bit 4 result) AND 0x0F0F0F0F) * 0x01010101))"

subsection \<open>The bit count\<close>

text \<open>
  Numbers as lists of digits, lowest first. The count adds neighbouring digits three times, in bases 2, 4
  and 16, and then sums four bytes by a multiplication.
\<close>

fun dval :: "nat \<Rightarrow> nat list \<Rightarrow> nat" where
  "dval B [] = 0"
| "dval B (d # ds) = d + B * dval B ds"

fun evens :: "nat list \<Rightarrow> nat list" where
  "evens (x # y # r) = x # evens r"
| "evens [x] = [x]"
| "evens [] = []"

fun psum :: "nat list \<Rightarrow> nat list" where
  "psum (x # y # r) = (x + y) # psum r"
| "psum [x] = [x]"
| "psum [] = []"

fun alt_mask :: "nat \<Rightarrow> nat \<Rightarrow> nat list" where
  "alt_mask B (Suc (Suc n)) = (B - 1) # 0 # alt_mask B n"
| "alt_mask B (Suc 0) = [B - 1]"
| "alt_mask B 0 = []"

definition shift :: "nat list \<Rightarrow> nat list" where
  "shift ds = tl ds @ [0]"

lemma and_digit:
  assumes "d < 2 ^ k" and "m < 2 ^ k"
  shows "(d + 2 ^ k * r) AND (m + 2 ^ k * q) = (d AND m) + 2 ^ k * (r AND q :: nat)"
proof -
  have low: "take_bit k (d + 2 ^ k * r) = d" "take_bit k (m + 2 ^ k * q) = m"
    using assms by (simp_all add: take_bit_eq_mod)
  have high: "drop_bit k (d + 2 ^ k * r) = r" "drop_bit k (m + 2 ^ k * q) = q"
    using assms by (simp_all add: drop_bit_eq_div)
  have "(d + 2 ^ k * r) AND (m + 2 ^ k * q) = push_bit k (r AND q) + (d AND m)"
    by (subst bits_ident [of k, symmetric]) (simp only: drop_bit_and take_bit_and low high)
  then show ?thesis by (simp add: push_bit_eq_mult mult.commute add.commute)
qed

lemma and_full: "x < 2 ^ k \<Longrightarrow> x AND (2 ^ k - 1) = (x :: nat)"
  using take_bit_eq_mask [of k x] take_bit_nat_eq_self [of x k] by (simp add: mask_eq_exp_minus_1)

lemma dval_less: "\<forall>d \<in> set ds. d < B \<Longrightarrow> dval B ds < B ^ length ds"
proof (induction ds)
  case (Cons d ds)
  then have "d < B" "Suc (dval B ds) \<le> B ^ length ds" by (auto simp: Suc_le_eq)
  then have "d + B * dval B ds < B * Suc (dval B ds)" "B * Suc (dval B ds) \<le> B * B ^ length ds"
    by (simp, intro mult_le_mono2)
  then show ?case by simp
qed simp

lemma evens_and:
  "\<forall>d \<in> set ds. d < 2 ^ k \<Longrightarrow> dval (2 ^ k) ds AND dval (2 ^ k) (alt_mask (2 ^ k) (length ds)) = dval (2 ^ k * 2 ^ k) (evens ds)"
proof (induction ds rule: evens.induct)
  case (1 x y r)
  have m: "(2 ^ k - 1 :: nat) < 2 ^ k" by simp
  have xy: "x < 2 ^ k" "y < 2 ^ k" using 1 by simp_all
  show ?case using 1 and_full [OF xy(1)] and_digit [OF xy(1) m] and_digit [OF xy(2), of 0] by (simp add: mult.assoc)
next
  case (2 x)
  then show ?case using and_full [of x k] by simp
qed simp

lemma dval_shift: "\<forall>d \<in> set ds. d < B \<Longrightarrow> dval B ds div B = dval B (shift ds)"
proof (cases ds)
  case (Cons d r)
  have "dval B (r @ [0]) = dval B r" by (induction r) simp_all
  then show "\<forall>d \<in> set ds. d < B \<Longrightarrow> ?thesis" using Cons by (simp add: shift_def)
qed (simp add: shift_def)

lemma shift_simps:
  "length (shift (x # r)) = length (x # r)" "set (shift ds) \<subseteq> insert 0 (set ds)"
  by (auto simp: shift_def dest: list.set_sel(2) [rotated]) (metis list.set_sel(2) list.sel(2))

lemma evens_shift_Cons: "r \<noteq> [] \<Longrightarrow> evens (shift (x # y # r)) = y # evens (shift r)"
  by (cases r) (simp_all add: shift_def)

lemma evens_shift:
  "even (length ds) \<Longrightarrow> dval B (evens ds) + dval B (evens (shift ds)) = dval B (psum ds)"
proof (induction ds rule: psum.induct)
  case (1 x y r)
  then have "dval B (psum r) = dval B (evens r) + dval B (evens (shift r))" by simp
  then show ?case by (cases "r = []") (simp add: shift_def, simp add: evens_shift_Cons algebra_simps)
qed (simp_all add: shift_def)

lemma evens_split:
  "even (length ds) \<Longrightarrow> dval B ds = dval (B * B) (evens ds) + B * dval (B * B) (evens (shift ds))"
proof (induction ds rule: psum.induct)
  case (1 x y r)
  show ?case
  proof (cases r)
    case (Cons z zs)
    then show ?thesis using 1 by (cases zs) (auto simp: shift_def algebra_simps)
  qed (simp add: shift_def)
qed (simp_all add: shift_def)

lemma psum_props:
  "even (length ds) \<Longrightarrow> length (psum ds) = length ds div 2"
  "sum_list (psum ds) = sum_list ds"
  "\<forall>d \<in> set ds. d \<le> n \<Longrightarrow> \<forall>d \<in> set (psum ds). d \<le> 2 * n"
  by (induction ds rule: psum.induct) auto

text \<open>One step of the count on a word: neighbouring digits are added.\<close>

lemma popcount_step:
  fixes v :: u32
  assumes "unat v = dval (2 ^ k) ds" and "\<forall>d \<in> set ds. d < 2 ^ k" and "length ds * k = 32" and "even (length ds)"
    and "unat m = dval (2 ^ k) (alt_mask (2 ^ k) (length ds))"
  shows "unat (v AND m) = dval (2 ^ k * 2 ^ k) (evens ds)" and "unat (drop_bit k v AND m) = dval (2 ^ k * 2 ^ k) (evens (shift ds))"
proof -
  show "unat (v AND m) = dval (2 ^ k * 2 ^ k) (evens ds)"
    using assms(1,5) evens_and [OF assms(2)] by (simp add: unsigned_and_eq)
  have "ds \<noteq> []" using assms(3) by auto
  then have "length (shift ds) = length ds" "\<forall>d \<in> set (shift ds). d < 2 ^ k"
    using shift_simps(1) [of "hd ds" "tl ds"] shift_simps(2) [of ds] assms(2) by (simp, force)
  moreover have "take_bit 32 (unat v) = unat v" by (simp add: take_bit_nat_eq_self)
  then have "unat (drop_bit k v) = dval (2 ^ k) (shift ds)"
    using assms(1) dval_shift [OF assms(2)] drop_bit_eq_div [of k "unat v"] by (simp add: unsigned_drop_bit_eq)
  ultimately show "unat (drop_bit k v AND m) = dval (2 ^ k * 2 ^ k) (evens (shift ds))"
    using assms(5) evens_and [of "shift ds" k] by (simp add: unsigned_and_eq)
qed

lemma popcount_bytes:
  assumes "a \<le> 8" and "b \<le> 8" and "c \<le> 8" and "d \<le> 8" and "unat (x :: u32) = dval 256 [a, b, c, d]"
  shows "unat (drop_bit 24 (x * 0x01010101)) = a + b + c + d"
proof -
  define low where "low = a + 256 * (a + b) + 65536 * (a + b + c)"
  define q where "q = b + c + d + 256 * (c + d) + 65536 * d"
  have "low < 16777216" using assms(1-4) by (simp add: low_def)
  then have low: "low + 16777216 * (a + b + c + d) < 4294967296" using assms(1-4) by simp
  have "unat (x * 0x01010101) = unat x * 0x01010101 mod 4294967296" by (simp add: unat_word_ariths)
  also have "unat x * 0x01010101 = (low + 16777216 * (a + b + c + d)) + 4294967296 * q"
    using assms(5) by (simp add: low_def q_def)
  also have "\<dots> mod 4294967296 = low + 16777216 * (a + b + c + d)"
    unfolding mod_mult_self2 using low by (rule mod_less)
  finally have "unat (x * 0x01010101) div 16777216 = a + b + c + d"
    using \<open>low < 16777216\<close> by simp
  then show ?thesis by (simp add: unsigned_drop_bit_eq drop_bit_eq_div unat_div)
qed

text \<open>The bits of a word as digits in base 2.\<close>

lemma bits_dval: "(n :: nat) < 2 ^ k \<Longrightarrow> n = dval 2 (map (\<lambda>i. of_bool (bit n i)) [0..<k])"
proof (induction k arbitrary: n)
  case (Suc k)
  have "map (\<lambda>i. of_bool (bit n i) :: nat) [0..<Suc k] = of_bool (odd n) # map (\<lambda>i. of_bool (bit (n div 2) i)) [0..<k] "
    by (simp add: upt_conv_Cons map_Suc_upt [symmetric] bit_Suc bit_0 comp_def del: upt_Suc)
  moreover have "n div 2 < 2 ^ k" using Suc.prems by simp
  then have "dval 2 (map (\<lambda>i. of_bool (bit (n div 2) i)) [0..<k]) = n div 2" using Suc.IH [of "n div 2"] by simp
  moreover have "of_bool (odd n) + 2 * (n div 2) = n" by simp
  ultimately show ?case by (simp only: dval.simps)
qed simp

lemma sum_list_bits: "sum_list (map (\<lambda>i. of_bool (P i) :: nat) [0..<k]) = card {i. i < k \<and> P i}"
proof -
  have "{i. i < k \<and> P i} = {i \<in> {0..<k}. P i}" by auto
  then show ?thesis by (simp add: interv_sum_list_conv_sum_set_nat sum.inter_filter [symmetric] of_bool_def flip: sum.If_cases)
qed

lemma dval_map2: "length xs = length ys \<Longrightarrow> dval B (map2 (+) xs ys) = dval B xs + dval B ys"
  by (induction xs ys rule: list_induct2) (simp_all add: algebra_simps)

lemma evens_map2: "even (length ds) \<Longrightarrow> evens (map2 (+) ds (shift ds)) = psum ds"
proof (induction ds rule: psum.induct)
  case (1 x y r)
  then show ?case by (cases r) (simp_all add: shift_def)
qed (simp_all add: shift_def)

lemma alt_mask_rec:
  "alt_mask B n = (if n = 0 then [] else if n = 1 then [B - 1] else (B - 1) # 0 # alt_mask B (n - 2))"
  by (induction B n rule: alt_mask.induct) simp_all

lemma popcount_masks:
  "dval 2 (alt_mask 2 32) = 0x55555555" "dval 4 (alt_mask 4 16) = 0x33333333" "dval 16 (alt_mask 16 8) = 0x0F0F0F0F"
  by (simp_all add: alt_mask_rec)

lemma popcount_2:
  fixes v :: u32
  assumes "unat v = dval 2 ds" and "length ds = 32" and "\<forall>d \<in> set ds. d \<le> 1"
  shows "unat (v - (drop_bit 1 v AND 0x55555555)) = dval 4 (psum ds)"
proof -
  have m: "unat (0x55555555 :: u32) = dval 2 (alt_mask 2 32)" by (simp add: popcount_masks)
  have lt: "\<forall>d \<in> set ds. d < 2" using assms(3) by auto
  have o: "unat (drop_bit 1 v AND 0x55555555) = dval 4 (evens (shift ds))"
    using popcount_step(2) [of v 1 ds "0x55555555"] assms(1,2) lt m by simp
  have v: "unat v = dval 4 (evens ds) + 2 * dval 4 (evens (shift ds))"
    using evens_split [of ds 2] assms(1,2) by simp
  then have "unat (v - (drop_bit 1 v AND 0x55555555)) = unat v - unat (drop_bit 1 v AND 0x55555555)"
    using o by (intro unat_sub) (simp add: word_le_nat_alt)
  then show ?thesis using v o evens_shift [of ds 4] assms(2) by simp
qed

lemma popcount_4:
  fixes v :: u32
  assumes "unat v = dval 4 ds" and "length ds = 16" and "\<forall>d \<in> set ds. d \<le> 2"
  shows "unat ((v AND 0x33333333) + (drop_bit 2 v AND 0x33333333)) = dval 16 (psum ds)"
proof -
  have m: "unat (0x33333333 :: u32) = dval 4 (alt_mask 4 16)" by (simp add: popcount_masks)
  have lt: "\<forall>d \<in> set ds. d < 4" using assms(3) by auto
  have eo: "unat (v AND 0x33333333) = dval 16 (evens ds)" "unat (drop_bit 2 v AND 0x33333333) = dval 16 (evens (shift ds))"
    using popcount_step [of v 2 ds "0x33333333"] assms(1,2) lt m by simp_all
  have p: "length (psum ds) = 8" "\<forall>d \<in> set (psum ds). d \<le> 4" using psum_props(1,3) [of ds] assms(2,3) by (simp, force)
  then have "\<forall>d \<in> set (psum ds). d < 16" by auto
  then have "dval 16 (psum ds) < 16 ^ 8" using dval_less [of "psum ds" 16] p(1) by simp
  then show ?thesis using eo evens_shift [of ds 16] assms(2) by (simp add: unat_word_ariths)
qed

lemma popcount_16:
  fixes v :: u32
  assumes "unat v = dval 16 ds" and "length ds = 8" and "\<forall>d \<in> set ds. d \<le> 4"
  shows "unat ((v + drop_bit 4 v) AND 0x0F0F0F0F) = dval 256 (psum ds)"
proof -
  let ?es = "map2 (+) ds (shift ds)"
  have m: "unat (0x0F0F0F0F :: u32) = dval 16 (alt_mask 16 8)" by (simp add: popcount_masks)
  have sh: "length (shift ds) = 8" "\<forall>d \<in> set (shift ds). d \<le> 4"
    using assms(2,3) shift_simps(2) [of ds] by (simp add: shift_def, force)
  have lt: "\<forall>d \<in> set ds. d < 16" using assms(3) by auto
  have es: "length ?es = 8" using assms(2) sh by simp
  have "ds ! i + shift ds ! i \<le> 4 + 4" if "i < 8" for i
    using that assms(2,3) sh by (intro add_mono) simp_all
  then have es_lt: "\<forall>d \<in> set ?es. d < 16"
    using assms(2) sh(1) by (fastforce simp: in_set_conv_nth)
  have "dval 16 ?es < 16 ^ 8" using dval_less [OF es_lt] es by simp
  moreover have "take_bit 32 (unat v) = unat v" by (simp add: take_bit_nat_eq_self)
  then have "unat (drop_bit 4 v) = dval 16 (shift ds)"
    using assms(1) dval_shift [OF lt] drop_bit_eq_div [of 4 "unat v"] by (simp add: unsigned_drop_bit_eq)
  ultimately have "unat (v + drop_bit 4 v) = dval 16 ?es"
    using assms(1,2) sh(1) by (simp add: unat_word_ariths dval_map2)
  then show ?thesis
    using popcount_step(1) [of "v + drop_bit 4 v" 4 ?es "0x0F0F0F0F"] es es_lt m evens_map2 [of ds] assms(2) by simp
qed

lemma our_popcount_spec: "unat (our_popcount v) = card {i. i < 32 \<and> bit v i}"
proof -
  define bs :: "nat list" where "bs = map (\<lambda>i. of_bool (bit v i)) [0..<32]"
  let ?p = "psum (psum (psum bs))"
  have bs: "length bs = 32" "\<forall>d \<in> set bs. d \<le> 1" by (auto simp: bs_def)
  have v: "unat v = dval 2 bs"
    using bits_dval [of "unat v" 32] by (simp add: bs_def bit_unsigned_iff cong: map_cong)
  have p1: "length (psum bs) = 16" "\<forall>d \<in> set (psum bs). d \<le> 2" using psum_props(1,3) [of bs] bs by (simp, force)
  have p2: "length (psum (psum bs)) = 8" "\<forall>d \<in> set (psum (psum bs)). d \<le> 4"
    using psum_props(1,3) [of "psum bs"] p1 by (simp, force)
  have p3: "length ?p = 4" "\<forall>d \<in> set ?p. d \<le> 8" using psum_props(1,3) [of "psum (psum bs)"] p2 by (simp, force)
  then obtain a b c d where abcd: "?p = [a, b, c, d]" by (auto simp: eval_nat_numeral length_Suc_conv)
  note x = popcount_16 [OF popcount_4 [OF popcount_2 [OF v bs] p1] p2]
  have "unat (our_popcount v) = sum_list ?p"
    using popcount_bytes [of a b c d] x p3(2) unfolding our_popcount_def Let_def abcd by simp
  also have "\<dots> = sum_list bs" by (simp add: psum_props(2))
  finally show ?thesis by (simp add: bs_def sum_list_bits)
qed

subsection \<open>The process table\<close>

text \<open>The slots in use, and the slot and address of a control block.\<close>

definition used_slots :: "kernel \<Rightarrow> nat set" where
  "used_slots s = {i. i < 32 \<and> bit (pcb_status s) i}"

definition pcb_addr :: "nat \<Rightarrow> u32" where
  "pcb_addr k = END_OF_KERNEL_PAGE - PCB_PLUS_STACK * (of_nat k + 1)"

definition take_pcb :: "kernel \<Rightarrow> nat \<times> kernel" where
  "take_pcb s = map_prod unat id (find_empty_pcb s)"

definition release_pcb :: "nat \<Rightarrow> kernel \<Rightarrow> kernel" where
  "release_pcb k s = s\<lparr>pcb_status := pcb_status s AND NOT (push_bit k 1)\<rparr>"

lemma popcount_used: "unat (our_popcount (pcb_status s)) = card (used_slots s)"
  by (simp add: our_popcount_spec used_slots_def)

lemma low_bit: "(t :: u32) AND 1 \<noteq> 0 \<longleftrightarrow> bit t 0"
  by (simp add: and_one_eq bit_0 mod2_eq_if)

lemma find_slot_least:
  "n < 32 \<Longrightarrow> \<not> bit t n \<Longrightarrow> \<forall>j < n. bit t j \<Longrightarrow> find_slot t p = p + of_nat n"
proof (induction n arbitrary: t p)
  case 0
  then show ?case by (subst find_slot.simps) (simp only: low_bit if_False, simp)
next
  case (Suc n)
  have "bit t 0" using Suc.prems(3) by blast
  moreover have "find_slot (drop_bit 1 t) (p + 1) = (p + 1) + of_nat n"
    using Suc.prems by (intro Suc.IH) (auto simp: bit_drop_bit_eq)
  ultimately show ?case by (subst find_slot.simps) (simp only: low_bit if_True, simp add: algebra_simps)
qed

lemma find_empty_pcb_spec:
  assumes "used_slots s \<noteq> {..<32}"
  shows "\<exists>n. n < 32 \<and> n \<notin> used_slots s \<and> (\<forall>j < n. j \<in> used_slots s)
    \<and> find_empty_pcb s = (of_nat n, s\<lparr>pcb_status := pcb_status s OR push_bit n 1\<rparr>)"
proof -
  from assms have ex: "\<exists>n. n < 32 \<and> \<not> bit (pcb_status s) n" by (auto simp: used_slots_def)
  define n where "n = (LEAST n. n < 32 \<and> \<not> bit (pcb_status s) n)"
  have n: "n < 32" "\<not> bit (pcb_status s) n" using LeastI_ex [OF ex] by (simp_all add: n_def)
  have least: "bit (pcb_status s) j" if "j < n" for j
    using not_less_Least [of j "\<lambda>n. n < 32 \<and> \<not> bit (pcb_status s) n"] that n(1) by (simp add: n_def)
  have "find_slot (pcb_status s) 0 = of_nat n" using find_slot_least [OF n] least by simp
  then show ?thesis using n least by (intro exI [of _ n]) (simp add: used_slots_def find_empty_pcb_def)
qed

lemma used_slots_set: "n < 32 \<Longrightarrow> used_slots (s\<lparr>pcb_status := pcb_status s OR push_bit n 1\<rparr>) = insert n (used_slots s)"
  by (auto simp: used_slots_def bit_simps)

interpretation proc: slots used_slots take_pcb release_pcb 32
proof
  fix s :: kernel and k j
  show "used_slots s \<subseteq> {..<32}" by (auto simp: used_slots_def)
  show "used_slots (release_pcb k s) = used_slots s - {k}" by (auto simp: used_slots_def release_pcb_def bit_simps)
  assume "used_slots s \<noteq> {..<32}"
  from find_empty_pcb_spec [OF this] obtain n where n: "n < 32" "n \<notin> used_slots s" "\<forall>j < n. j \<in> used_slots s"
    "find_empty_pcb s = (of_nat n, s\<lparr>pcb_status := pcb_status s OR push_bit n 1\<rparr>)" by blast
  then have "take_pcb s = (n, s\<lparr>pcb_status := pcb_status s OR push_bit n 1\<rparr>)" by (simp add: take_pcb_def)
  then show "fst (take_pcb s) \<notin> used_slots s" "j < fst (take_pcb s) \<Longrightarrow> j \<in> used_slots s"
    "used_slots (snd (take_pcb s)) = insert (fst (take_pcb s)) (used_slots s)"
    using n used_slots_set [of n s] by simp_all
qed

lemma unat_pcb_addr: "k < 32 \<Longrightarrow> unat (pcb_addr k) = 0x800000 - 0x2000 * (k + 1)"
proof -
  assume k: "k < 32"
  then have "pcb_addr k = of_nat (0x800000 - 0x2000 * (k + 1))"
    by (simp add: pcb_addr_def of_nat_diff algebra_simps)
  then show ?thesis by (simp only:) (rule unat_of_nat_u32, simp)
qed

lemma pcb_addr_inj: "i < 32 \<Longrightarrow> j < 32 \<Longrightarrow> pcb_addr i = pcb_addr j \<longleftrightarrow> i = j"
  using unat_pcb_addr [of i] unat_pcb_addr [of j] by auto

lemma pcb_addr_nonzero: "k < 32 \<Longrightarrow> pcb_addr k \<noteq> 0"
  using unat_pcb_addr [of k] by auto

lemma upd_pcb_upd_pcb: "upd_pcb p f (upd_pcb p g s) = upd_pcb p (\<lambda>b. f (g b)) s"
  by (simp add: upd_pcb_def)

text \<open>The descriptors of a block after \<^verbatim>\<open>init_pcb\<close>, and after \<^verbatim>\<open>close_pcb\<close>.\<close>

definition free_from :: "nat \<Rightarrow> (nat \<Rightarrow> fdesc_t) \<Rightarrow> nat \<Rightarrow> fdesc_t" where
  "free_from k io i = (if k \<le> i \<and> i < 8 then (io i)\<lparr>flags := NOT_USED, file_ops := empty_f_ops_tab\<rparr> else io i)"

lemma free_from_step:
  "k < 8 \<Longrightarrow> free_from (Suc k) (io(k := (io k)\<lparr>flags := NOT_USED, file_ops := empty_f_ops_tab\<rparr>)) = free_from k io"
  by (rule ext) (auto simp: free_from_def)

lemma clear_fds_eq: "k \<le> 8 \<Longrightarrow> clear_fds k p s = upd_pcb p (\<lambda>b. b\<lparr>io_files := free_from (8 - k) (io_files b)\<rparr>) s"
proof (induction k arbitrary: s)
  case 0
  have "free_from 8 io = io" for io by (rule ext) (auto simp: free_from_def)
  then show ?case by (simp add: upd_pcb_def)
next
  case (Suc k)
  then have "8 - k = Suc (8 - Suc k)" "8 - Suc k < 8" by simp_all
  then show ?case using Suc by (simp add: upd_fd_def upd_pcb_upd_pcb free_from_step)
qed

text \<open>A new control block: the lowest free slot, at its own address, with no descriptor in use.\<close>

lemma init_pcb_spec:
  assumes "card (used_slots s) < 32"
  defines "n \<equiv> fst (take_pcb s)"
  shows "init_pcb s = (pcb_addr n,
     upd_mem (\<lambda>m. write_list m (PcbArg (pcb_addr n), 0) (replicate 129 0))
       (upd_pcb (pcb_addr n) (\<lambda>b. b\<lparr>pcb_num := of_nat n, io_files := free_from 0 (io_files b)\<rparr>) (snd (take_pcb s))))"
proof -
  obtain k where k: "k < 32" "find_empty_pcb s = (of_nat k, s\<lparr>pcb_status := pcb_status s OR push_bit k 1\<rparr>)"
    using find_empty_pcb_spec [OF proc.not_full [OF assms(1)]] by blast
  then have t: "take_pcb s = (k, s\<lparr>pcb_status := pcb_status s OR push_bit k 1\<rparr>)" by (simp add: take_pcb_def)
  have a: "END_OF_KERNEL_PAGE - PCB_PLUS_STACK * (of_nat k + 1) = pcb_addr k" by (simp only: pcb_addr_def)
  have c: "unat (of_nat KEY_BUF_SIZE :: u32) = 129" by simp
  show ?thesis
    unfolding n_def init_pcb_def Let_def k(2) t prod.case a fst_conv snd_conv clear_fds_eq [OF order_refl] upd_pcb_upd_pcb memset_eq c
    by simp
qed

subsection \<open>Descriptors\<close>

lemma upd_fd_upd_fd: "upd_fd p i f (upd_fd p i g s) = upd_fd p i (\<lambda>d. f (g d)) s"
  by (simp add: upd_fd_def upd_pcb_upd_pcb)

lemma close_file_desc_cur:
  assumes "i < 8" and "cur_pcb s \<noteq> 0"
  shows "close_file_desc (cur_pcb s) (of_nat i) s = (0, upd_fd (cur_pcb s) i (\<lambda>f. f\<lparr>flags := NOT_USED, file_ops := empty_f_ops_tab\<rparr>) s)"
proof -
  have "\<not> 8 \<le> (of_nat i :: u32)" using assms(1) by (simp add: word_le_nat_alt)
  moreover have "(\<lambda>d. d\<lparr>file_ops := empty_f_ops_tab, flags := NOT_USED\<rparr>)
      = (\<lambda>f :: fdesc_t. f\<lparr>flags := NOT_USED, file_ops := empty_f_ops_tab\<rparr>)" by (rule ext) simp
  ultimately show ?thesis using assms by (simp add: close_file_desc_def upd_fd_upd_fd)
qed

lemma op_close_cases: "op_close t = None \<or> op_close t = Some (\<lambda>fd s. close_file_desc (cur_pcb s) fd s)"
  by (cases t) (auto simp: rtc_close_def fsys_close_file_def fsys_close_dir_def fun_eq_iff)

lemma close_fds_eq:
  "k \<le> 8 \<Longrightarrow> cur_pcb s \<noteq> 0 \<Longrightarrow>
   close_fds k s = upd_pcb (cur_pcb s) (\<lambda>b. b\<lparr>io_files := free_from (8 - k) (io_files b)\<rparr>) s"
proof (induction k arbitrary: s)
  case 0
  have "free_from 8 io = io" for io by (rule ext) (auto simp: free_from_def)
  then show ?case by (simp add: upd_pcb_def)
next
  case (Suc k)
  define i where "i = 8 - Suc k"
  have i: "8 - k = Suc i" "i < 8" "7 - k = i" using Suc.prems by (simp_all add: i_def)
  let ?s = "upd_fd (cur_pcb s) i (\<lambda>f. f\<lparr>flags := NOT_USED, file_ops := empty_f_ops_tab\<rparr>) s"
  note cl = close_file_desc_cur [OF i(2)]
  have "close_fds (Suc k) s = close_fds k ?s"
    using op_close_cases [of "file_ops (cur_fd s i)"] Suc.prems(2) cl [of s] cl [of ?s]
    by (auto simp: Let_def upd_fd_upd_fd i(3))
  also have "\<dots> = upd_pcb (cur_pcb s) (\<lambda>b. b\<lparr>io_files := free_from (8 - Suc k) (io_files b)\<rparr>) s"
    using Suc.IH [of ?s] Suc.prems i(2) unfolding i(1)
    by (simp add: upd_fd_def upd_pcb_upd_pcb free_from_step i(3))
  finally show ?case .
qed

lemma close_pcb_spec:
  "cur_pcb s \<noteq> 0 \<Longrightarrow> close_pcb (cur_pcb s) s =
     (0, upd_pcb (cur_pcb s) (\<lambda>b. b\<lparr>io_files := free_from 0 (io_files b)\<rparr>) s)"
  using close_fds_eq [of 8 s] by (simp add: close_pcb_def)

text \<open>The descriptor that \<^verbatim>\<open>open_file_desc\<close> takes.\<close>

definition first_free :: "(nat \<Rightarrow> fdesc_t) \<Rightarrow> nat option" where
  "first_free io = find (\<lambda>i. flags (io i) = NOT_USED) [0..<8]"

lemma open_file_desc_eq:
  "open_file_desc blk filename s =
     (if blk = 0 then Some (-1, s)
      else case first_free (io_files (pcbs s blk)) of None \<Rightarrow> Some (-1, s) | Some i \<Rightarrow> open_slot i blk filename s)"
proof -
  have "open_loop k blk filename s =
    (case find (\<lambda>i. flags (io_files (pcbs s blk) i) = NOT_USED) [8 - k..<8] of
       None \<Rightarrow> Some (-1, s) | Some i \<Rightarrow> open_slot i blk filename s)" if "k \<le> 8" for k
    using that
  proof (induction k)
    case (Suc k)
    then have "[8 - Suc k..<8] = (8 - Suc k) # [8 - k..<8]" by (metis Suc_diff_Suc diff_less less_eq_Suc_le upt_conv_Cons zero_less_Suc zero_less_numeral)
    then show ?case using Suc by (simp add: Let_def)
  qed simp
  then show ?thesis by (simp add: open_file_desc_def first_free_def)
qed

lemma cstr_lit: "0 \<notin> set (bytes_of str) \<Longrightarrow> cstr (lit str) (bytes_of str)"
  by (auto simp: cstr_def lit_def bytes_of_def)

text \<open>The file type and the inode number of a directory entry.\<close>

definition entry_type :: "kernel \<Rightarrow> nat \<Rightarrow> u32" where
  "entry_type s j = ld32 (mem s) (img s (64 * Suc j + 32))"

definition entry_ino :: "kernel \<Rightarrow> nat \<Rightarrow> u32" where
  "entry_ino s j = ld32 (mem s) (img s (64 * Suc j + 36))"

lemma ld32_entry:
  assumes "k + 4 \<le> 64"
  shows "ld32 (write_list m d (entry_bytes s j)) (padd d (of_nat k)) = ld32 (mem s) (img s (64 * Suc j + k))"
proof (rule ld32_cong)
  have "write_list m d (entry_bytes s j) (padd (padd d (of_nat k)) (of_nat i)) = mem s (padd (img s (64 * Suc j + k)) (of_nat i))"
    if "i < 4" for i
    using that assms write_list_padd [of "entry_bytes s j" "k + i" m d] img_add [of s "64 * Suc j" "k + i"]
    by (simp add: img_add entry_bytes_def add.assoc del: mult_Suc_right)
  then show "read_list (write_list m d (entry_bytes s j)) (padd d (of_nat k)) 4 = read_list (mem s) (img s (64 * Suc j + k)) 4"
    by (intro nth_equalityI) simp_all
qed

lemma dentry_entry:
  "dentry_file_type (write_list m d (entry_bytes s j)) d = entry_type s j"
  "dentry_inode_num (write_list m d (entry_bytes s j)) d = entry_ino s j"
  using ld32_entry [of 32 m d s j] ld32_entry [of 36 m d s j]
  by (simp_all add: dentry_file_type_def dentry_inode_num_def entry_type_def entry_ino_def)

text \<open>The jump table that opening a name attaches to the descriptor, with the inode number.\<close>

definition device_name :: "u8 list \<Rightarrow> bool" where
  "device_name name \<longleftrightarrow> take 5 name = bytes_of ''stdin'' \<or> take 6 name = bytes_of ''stdout''"

lemma device_name_strncmp:
  assumes "cstr fname name"
  shows "strncmp fname (lit ''stdin'') 5 = 0 \<longleftrightarrow> take 5 name = bytes_of ''stdin''"
    and "strncmp fname (lit ''stdout'') 6 = 0 \<longleftrightarrow> take 6 name = bytes_of ''stdout''"
  using strncmp_0_iff [OF assms cstr_lit, of "''stdin''" 5] strncmp_0_iff [OF assms cstr_lit, of "''stdout''" 6]
  by (simp_all add: of_char_eq_iff)

lemma upd_fd_mem: "(upd_fd p i f s)\<lparr>mem := m\<rparr> = upd_fd p i f (s\<lparr>mem := m\<rparr>)"
  by (simp add: upd_fd_def upd_pcb_def)

lemma open_slot_file:
  assumes "wf_dir s" and "cstr fname name" and "\<not> device_name name" and "dir_lookup s name = Some j"
    and ops: "tableaux (entry_type s j) = Some ops" and op: "op_open ops = Some f"
  shows "\<exists>m. (\<forall>q. fst q \<noteq> Local 1 \<and> fst q \<noteq> Local 2 \<longrightarrow> m q = mem s q) \<and>
    open_slot i blk fname s = Some (int i, snd (f (upd_fd blk i
      (\<lambda>d. d\<lparr>file_pos := 0, flags := IN_USE, inode := entry_ino s j, file_ops := ops\<rparr>) (s\<lparr>mem := m\<rparr>))))"
proof -
  let ?s = "upd_fd blk i (\<lambda>f. f\<lparr>file_pos := 0, flags := IN_USE\<rparr>) s"
  have same: "same_image s ?s" by (simp add: same_image_def)
  note c = same_image_counts [OF same]
  have wf: "wf_dir ?s" using assms(1) by (simp add: wf_dir_def wf_image_def c)
  have lk: "dir_lookup ?s name = Some j" and eb: "entry_bytes ?s j = entry_bytes s j"
    using assms(4) by (simp_all add: dir_lookup_def entry_name_def entry_bytes_def c)
  obtain m where m: "\<forall>q. fst q \<noteq> Local 1 \<longrightarrow> m q = mem ?s q"
    "read_dentry_by_name fname temp_dentry ?s = Some (0, ?s\<lparr>mem := write_list m temp_dentry (entry_bytes s j)\<rparr>)"
    using read_dentry_by_name_spec [OF wf assms(2), of temp_dentry] by (auto simp: lk eb)
  let ?m = "write_list m temp_dentry (entry_bytes s j)"
  have "\<forall>q. fst q \<noteq> Local 1 \<and> fst q \<noteq> Local 2 \<longrightarrow> ?m q = mem s q"
    using m(1) by (auto simp: write_list_other in_range_def)
  moreover have "open_slot i blk fname s = Some (int i, snd (f (upd_fd blk i
      (\<lambda>d. d\<lparr>file_pos := 0, flags := IN_USE, inode := entry_ino s j, file_ops := ops\<rparr>) (s\<lparr>mem := ?m\<rparr>))))"
    using assms(3) device_name_strncmp [OF assms(2)] m(2) ops op
    by (simp add: open_slot_def device_name_def dentry_entry upd_fd_mem upd_fd_upd_fd)
  ultimately show ?thesis by blast
qed

text \<open>A name that begins like a standard stream is opened as that stream, whatever file has it.\<close>

definition stream_ops :: "u8 list \<Rightarrow> f_ops_table" where
  "stream_ops name = (if take 5 name = bytes_of ''stdin'' then stdin else stdout)"

lemma open_slot_stream:
  assumes "cstr fname name" and "device_name name"
  shows "open_slot i blk fname s = Some (int i, upd_fd blk i (\<lambda>d. d\<lparr>file_pos := 0, flags := IN_USE, file_ops := stream_ops name, inode := 0\<rparr>) s)"
proof -
  have "\<not> (strncmp fname (lit ''stdin'') 5 \<noteq> 0 \<and> strncmp fname (lit ''stdout'') 6 \<noteq> 0)"
    using assms(2) unfolding device_name_strncmp [OF assms(1)] device_name_def by blast
  moreover have "(if strncmp fname (lit ''stdin'') 5 = 0 then stdin else stdout) = stream_ops name"
    unfolding device_name_strncmp [OF assms(1)] stream_ops_def by (rule refl)
  ultimately have "open_slot i blk fname s = Some (int i, upd_fd blk i (\<lambda>f. f\<lparr>file_ops := stream_ops name, inode := 0\<rparr>)
      (upd_fd blk i (\<lambda>f. f\<lparr>file_pos := 0, flags := IN_USE\<rparr>) s))"
    unfolding open_slot_def Let_def by (simp only: if_False)
  then show ?thesis by (simp add: upd_fd_upd_fd)
qed

subsection \<open>Properties\<close>

text \<open>
  C39: The bit-parallel \<^verbatim>\<open>our_popcount\<close> gives the number of bits that are set, for every 32-bit word.\<close>

theorem our_popcount_bits: "unat (our_popcount v) = card {i. i < 32 \<and> bit v i}"
  by (rule our_popcount_spec)

text \<open>
  C31: As long as a slot is free, \<^verbatim>\<open>init_pcb\<close> takes the lowest free one and marks it, and only it, as used; the
  block is at the slot's own address, 8 KB below the one before it from the end of the kernel page
  down; none of its descriptors is in use, its argument is empty, and no other block changes.\<close>

theorem init_pcb_fresh:
  assumes "card (used_slots s) < 32" and "init_pcb s = (blk, s')"
  shows "\<exists>n < 32. n \<notin> used_slots s \<and> (\<forall>j < n. j \<in> used_slots s) \<and> used_slots s' = insert n (used_slots s)
    \<and> unat blk = 0x800000 - 0x2000 * (n + 1) \<and> (\<forall>i < 8. flags (io_files (pcbs s' blk) i) = NOT_USED)
    \<and> mem s' (PcbArg blk, 0) = 0 \<and> (\<forall>p. p \<noteq> blk \<longrightarrow> pcbs s' p = pcbs s p)"
proof -
  note free = proc.not_full [OF assms(1)]
  have take: "snd (take_pcb s) = s\<lparr>pcb_status := pcb_status (snd (take_pcb s))\<rparr>"
    by (simp add: take_pcb_def find_empty_pcb_def Let_def)
  have n: "fst (take_pcb s) < 32" using proc.take_bound [OF assms(1)] assms(1) by simp
  have "pcbs (snd (take_pcb s)) = pcbs s" by (subst take) simp
  moreover have "used_slots s' = used_slots (snd (take_pcb s))"
    using assms(2) unfolding init_pcb_spec [OF assms(1)] by (auto simp: used_slots_def)
  ultimately show ?thesis
    using assms(2) proc.take_free [OF free] proc.take_least [OF free] proc.take_used [OF free] n unat_pcb_addr [OF n]
    unfolding init_pcb_spec [OF assms(1)]
    by (intro exI [of _ "fst (take_pcb s)"]) (auto simp: free_from_def write_list_apply in_range_def)
qed

theorem init_pcb_fresh_witness:
  "\<exists>n < 32. n \<notin> used_slots sample_fs \<and> unat (fst (init_pcb sample_fs)) = 0x800000 - 0x2000 * (n + 1)"
proof -
  have "used_slots sample_fs = {}" by (simp add: used_slots_def blank_kernel_def)
  then show ?thesis
    using init_pcb_fresh [of sample_fs "fst (init_pcb sample_fs)" "snd (init_pcb sample_fs)"] by auto
qed

text \<open>
  C32: \<^verbatim>\<open>close_pcb\<close> on the current process frees all eight of its descriptors, whatever was open, through the
  device's close operation and then itself: each is marked unused and has no operations. The rest of the
  process control block (the parent, the saved stacks, the page, the arguments), every other block, memory and
  all other state are as before.\<close>

theorem close_pcb_frees_all:
  assumes "cur_pcb s \<noteq> 0"
  shows "close_pcb (cur_pcb s) s = (0, s\<lparr>pcbs := (pcbs s)(cur_pcb s := (pcbs s (cur_pcb s))
    \<lparr>io_files := \<lambda>i. if i < 8 then (cur_fd s i)\<lparr>flags := NOT_USED, file_ops := empty_f_ops_tab\<rparr> else cur_fd s i\<rparr>)\<rparr>)"
proof -
  have "free_from 0 (io_files (pcbs s (cur_pcb s))) = (\<lambda>i. if i < 8 then (cur_fd s i)\<lparr>flags := NOT_USED, file_ops := empty_f_ops_tab\<rparr> else cur_fd s i)"
    by (simp add: free_from_def cur_fd_def fun_eq_iff)
  then show ?thesis by (simp add: close_pcb_spec [OF assms] upd_pcb_def)
qed

theorem close_pcb_frees_all_witness:
  "let b = blank_pcb\<lparr>parent_task := 0x7FC000, io_files := (io_files blank_pcb)(2 := \<lparr>file_ops = regf_jt, inode = 5, file_pos = 7, flags = IN_USE\<rparr>, 3 := \<lparr>file_ops = rtc_jt, inode = 0, file_pos = 0, flags = IN_USE\<rparr>)\<rparr>;
       s' = snd (close_pcb 0x7FE000 (sample_fs\<lparr>cur_pcb := 0x7FE000, pcbs := \<lambda>_. b\<rparr>))
   in flags (cur_fd s' 2) = NOT_USED \<and> file_ops (cur_fd s' 2) = empty_f_ops_tab \<and> flags (cur_fd s' 3) = NOT_USED
     \<and> parent_task (pcbs s' 0x7FE000) = 0x7FC000 \<and> flags (io_files (pcbs s' 0x7FC000) 2) = IN_USE"
  using close_pcb_frees_all [of "sample_fs\<lparr>cur_pcb := 0x7FE000, pcbs := \<lambda>_. blank_pcb\<lparr>parent_task := 0x7FC000, io_files := (io_files blank_pcb)(2 := \<lparr>file_ops = regf_jt, inode = 5, file_pos = 7, flags = IN_USE\<rparr>, 3 := \<lparr>file_ops = rtc_jt, inode = 0, file_pos = 0, flags = IN_USE\<rparr>)\<rparr>\<rparr>"]
  by (simp add: Let_def cur_fd_def)

end
