(* ===== verification/MultiTerm.thy ===== *)
theory MultiTerm
  imports Pcb
begin

text \<open>
  The three terminals, \<^verbatim>\<open>student-distrib/multi_term.c\<close>. Each terminal has a page of its own after video
  memory, in which its screen is kept while it is not visible. The main result: switching keeps the
  screen of every terminal, and what is in video memory is the screen of the visible one.
\<close>

abbreviation MAX_PROCESSES :: u32 where "MAX_PROCESSES \<equiv> 6"

subsection \<open>The code\<close>

definition init_term :: "int \<Rightarrow> term_t \<Rightarrow> term_t" where
  "init_term i t = t\<lparr>term_id := of_int i, vid_mem := (if i = 0 then VIDEO_ADDR else VIDEO_ADDR + (of_int i + 1) * FOUR_KB),
     scrn_c := 0, scrn_r := 0, curs_r := 0, curs_c := 0, key_buf_index := 0, t_esp := 0, t_ebp := 0, cur_task := NULL\<rparr>"

definition multi_term_init :: "kernel \<Rightarrow> kernel" where
  "multi_term_init s =
     (let s = upd_term 0 (init_term 0) s;
          s = upd_term 1 (init_term 1) s;
          s = upd_term 2 (init_term 2) s
      in s\<lparr>cur_pcb := cur_task (terminals s 0)\<rparr>)"

definition switch_keyboard_and_cursor_pos :: "int \<Rightarrow> kernel \<Rightarrow> kernel" where
  "switch_keyboard_and_cursor_pos new_term_id s =
     (let s = set_keyboard_pos new_term_id (uint (scrn_r (terminals s new_term_id))) (uint (scrn_c (terminals s new_term_id))) s
      in set_cursor_pos new_term_id (uint (curs_r (terminals s new_term_id))) (uint (curs_c (terminals s new_term_id))) s)"

text \<open>The loop that exchanges the screens, byte by byte.\<close>

fun swap_screen :: "nat \<Rightarrow> int \<Rightarrow> kernel \<Rightarrow> kernel" where
  "swap_screen 0 new_term_id s = s"
| "swap_screen (Suc k) new_term_id s =
     (let i = of_nat (4000 - Suc k);
          s = st8 (Phys, vid_mem (terminals s (vis_term_id s)) + i) (mem s (Phys, VIDEO_ADDR + i)) s;
          s = st8 (Phys, VIDEO_ADDR + i) (mem s (Phys, vid_mem (terminals s new_term_id) + i)) s
      in swap_screen k new_term_id s)"

definition switch_screen :: "int \<Rightarrow> kernel \<Rightarrow> kernel" where
  "switch_screen new_term_id s =
     (let s = upd_term (vis_term_id s) (\<lambda>t. t\<lparr>vid_mem := VIDEO_ADDR + (of_int (vis_term_id s) + 1) * FOUR_KB\<rparr>) s;
          s = swap_screen 4000 new_term_id s
      in upd_term new_term_id (\<lambda>t. t\<lparr>vid_mem := VIDEO_ADDR\<rparr>) s)"

definition switch_terminal :: "int \<Rightarrow> kernel \<Rightarrow> kernel" where
  "switch_terminal new_term_id s =
     (if new_term_id < 0 \<or> new_term_id \<ge> MAX_TERM_NUM \<or> our_popcount (pcb_status s) > MAX_PROCESSES then s
      else let s = cli s;
               s = switch_screen new_term_id s;
               s = s\<lparr>vis_term_id := new_term_id\<rparr>;
               s = switch_keyboard_and_cursor_pos new_term_id s
           in sti s)"

subsection \<open>Screens\<close>

text \<open>
  The page that keeps the screen of a terminal while it is not visible, the invariant of the addresses,
  and the screen of a terminal.
\<close>

definition back_page :: "int \<Rightarrow> u32" where
  "back_page i = VIDEO_ADDR + (of_int i + 1) * FOUR_KB"

definition terms_ok :: "kernel \<Rightarrow> bool" where
  "terms_ok s \<longleftrightarrow> vis_term_id s \<in> {0..<3}
     \<and> (\<forall>i \<in> {0..<3}. vid_mem (terminals s i) = (if i = vis_term_id s then VIDEO_ADDR else back_page i))"

definition screen_of :: "kernel \<Rightarrow> int \<Rightarrow> u8 list" where
  "screen_of s i = read_list (mem s) (Phys, vid_mem (terminals s i)) 4000"

definition screen_page :: "u32 \<Rightarrow> bool" where
  "screen_page a \<longleftrightarrow> a \<in> {0xB8000, 0xB9000, 0xBA000, 0xBB000}"

lemma screen_page_video [simp]: "screen_page VIDEO_ADDR"
  by (simp add: screen_page_def)

lemma page_cells:
  assumes "screen_page a" and "screen_page b" and "i < 4000" and "j < 4000"
  shows "a + of_nat i = b + of_nat j \<longleftrightarrow> a = b \<and> i = j"
proof
  assume eq: "a + of_nat i = b + of_nat j"
  have u: "unat (c + of_nat k) = unat c + k" if "k < 4000" "c \<in> {0xB8000, 0xB9000, 0xBA000, 0xBB000}" for c :: u32 and k
    using that by (subst unat_plus_simple [THEN iffD1]) (auto simp: no_olen_add_nat)
  have "unat a + i = unat b + j" using arg_cong [OF eq, of unat] u [of i a] u [of j b] assms by (simp add: screen_page_def)
  then show "a = b \<and> i = j" using assms by (auto simp: screen_page_def)
qed simp

lemma page_index: "i < 4000 \<Longrightarrow> j < 4000 \<Longrightarrow> (of_nat i :: u32) = of_nat j \<longleftrightarrow> i = j"
  using page_cells [of "0xB8000" "0xB8000" i j] by (simp add: screen_page_def)

text \<open>One pass of the loop, from position \<open>4000 - k\<close> on.\<close>

lemma swap_screen_spec:
  assumes a: "a = vid_mem (terminals s (vis_term_id s))" "screen_page a" "a \<noteq> VIDEO_ADDR"
    and b: "b = vid_mem (terminals s new)" "screen_page b" "b \<noteq> VIDEO_ADDR" and k: "k \<le> 4000"
  shows "\<exists>m. swap_screen k new s = s\<lparr>mem := m\<rparr>
    \<and> (\<forall>i < 4000. m (Phys, a + of_nat i) = (if i < 4000 - k then mem s (Phys, a + of_nat i) else mem s (Phys, VIDEO_ADDR + of_nat i)))
    \<and> (\<forall>i < 4000. m (Phys, VIDEO_ADDR + of_nat i) = (if i < 4000 - k \<or> a = b then mem s (Phys, VIDEO_ADDR + of_nat i) else mem s (Phys, b + of_nat i)))
    \<and> (\<forall>q. (\<forall>i < 4000. q \<noteq> (Phys, a + of_nat i) \<and> q \<noteq> (Phys, VIDEO_ADDR + of_nat i)) \<longrightarrow> m q = mem s q)"
  using assms
proof (induction k arbitrary: s)
  case 0
  then show ?case by (intro exI [of _ "mem s"]) simp
next
  case (Suc k)
  define i where "i = 4000 - Suc k"
  have i: "4000 - k = Suc i" "i < 4000" using Suc.prems by (simp_all add: i_def)
  let ?V = "VIDEO_ADDR"
  let ?s1 = "st8 (Phys, a + of_nat i) (mem s (Phys, ?V + of_nat i)) s"
  let ?s = "st8 (Phys, ?V + of_nat i) (mem ?s1 (Phys, b + of_nat i)) ?s1"
  have step: "swap_screen (Suc k) new s = swap_screen k new ?s"
    using Suc.prems(1,4) by (simp add: Let_def i_def)
  have pages: "screen_page a" "screen_page b" "screen_page ?V" "a \<noteq> ?V" "b \<noteq> ?V"
    using Suc.prems by (simp_all add: screen_page_def)
  have IH: "\<exists>m. swap_screen k new ?s = ?s\<lparr>mem := m\<rparr>
    \<and> (\<forall>j < 4000. m (Phys, a + of_nat j) = (if j < Suc i then mem ?s (Phys, a + of_nat j) else mem ?s (Phys, ?V + of_nat j)))
    \<and> (\<forall>j < 4000. m (Phys, ?V + of_nat j) = (if j < Suc i \<or> a = b then mem ?s (Phys, ?V + of_nat j) else mem ?s (Phys, b + of_nat j)))
    \<and> (\<forall>q. (\<forall>j < 4000. q \<noteq> (Phys, a + of_nat j) \<and> q \<noteq> (Phys, ?V + of_nat j)) \<longrightarrow> m q = mem ?s q)"
    using Suc.IH [of ?s] Suc.prems unfolding i(1) by simp
  have m: "mem ?s q = (if q = (Phys, ?V + of_nat i) then if a = b then mem s (Phys, ?V + of_nat i) else mem s (Phys, b + of_nat i)
      else if q = (Phys, a + of_nat i) then mem s (Phys, ?V + of_nat i) else mem s q)" for q
    using pages i(2) by (auto simp: st8_def page_cells)
  from IH obtain m where m': "swap_screen k new ?s = ?s\<lparr>mem := m\<rparr>"
    "j < 4000 \<Longrightarrow> m (Phys, a + of_nat j) = (if j < Suc i then mem ?s (Phys, a + of_nat j) else mem ?s (Phys, ?V + of_nat j))"
    "j < 4000 \<Longrightarrow> m (Phys, ?V + of_nat j) = (if j < Suc i \<or> a = b then mem ?s (Phys, ?V + of_nat j) else mem ?s (Phys, b + of_nat j))"
    "\<forall>j < 4000. q \<noteq> (Phys, a + of_nat j) \<and> q \<noteq> (Phys, ?V + of_nat j) \<Longrightarrow> m q = mem ?s q" for j q
    by auto
  show ?case unfolding step m'(1) i_def [symmetric]
    using pages i(2) by (intro exI [of _ m]) (auto simp: m' m page_cells page_index less_Suc_eq st8_def)
qed

lemma term_set: "i \<in> {0..<3} \<longleftrightarrow> i = 0 \<or> i = 1 \<or> i = (2 :: int)"
  by auto

lemma back_page_cases: "i \<in> {0..<3} \<Longrightarrow> screen_page (back_page i) \<and> back_page i \<noteq> VIDEO_ADDR"
  unfolding term_set by (auto simp: back_page_def screen_page_def)

lemma back_page_inj: "i \<in> {0..<3} \<Longrightarrow> j \<in> {0..<3} \<Longrightarrow> back_page i = back_page j \<longleftrightarrow> i = j"
  unfolding term_set by (auto simp: back_page_def)

text \<open>What a switch keeps of the terminals: their screens and everything but the cursor.\<close>

lemma switch_screen_spec:
  assumes "terms_ok s" and new: "new \<in> {0..<3}"
  shows "\<exists>m. switch_screen new s = upd_term new (\<lambda>t. t\<lparr>vid_mem := VIDEO_ADDR\<rparr>)
      (upd_term (vis_term_id s) (\<lambda>t. t\<lparr>vid_mem := back_page (vis_term_id s)\<rparr>) s)\<lparr>mem := m\<rparr>
    \<and> (\<forall>b a. b \<noteq> Phys \<longrightarrow> m (b, a) = mem s (b, a))
    \<and> (\<forall>i < 4000. m (Phys, VIDEO_ADDR + of_nat i) = mem s (Phys, vid_mem (terminals s new) + of_nat i))
    \<and> (\<forall>j \<in> {0..<3}. j \<noteq> new \<longrightarrow> (\<forall>i < 4000. m (Phys, back_page j + of_nat i) = mem s (Phys, vid_mem (terminals s j) + of_nat i)))"
proof -
  let ?v = "vis_term_id s"
  have v: "?v \<in> {0..<3}" using assms(1) by (simp add: terms_ok_def)
  define s1 where "s1 = upd_term ?v (\<lambda>t. t\<lparr>vid_mem := back_page ?v\<rparr>) s"
  have s1: "vis_term_id s1 = ?v" "mem s1 = mem s" "j \<in> {0..<3} \<Longrightarrow> vid_mem (terminals s1 j) = back_page j" for j
    using assms(1) by (auto simp: s1_def terms_ok_def)
  obtain m where m: "swap_screen 4000 new s1 = s1\<lparr>mem := m\<rparr>"
    "i < 4000 \<Longrightarrow> m (Phys, back_page ?v + of_nat i) = mem s (Phys, VIDEO_ADDR + of_nat i)"
    "i < 4000 \<Longrightarrow> m (Phys, VIDEO_ADDR + of_nat i) = (if ?v = new then mem s (Phys, VIDEO_ADDR + of_nat i) else mem s (Phys, back_page new + of_nat i))"
    "\<forall>i < 4000. q \<noteq> (Phys, back_page ?v + of_nat i) \<and> q \<noteq> (Phys, VIDEO_ADDR + of_nat i) \<Longrightarrow> m q = mem s q" for i q
    using swap_screen_spec [of "back_page ?v" s1 "back_page new" new 4000] back_page_cases [OF v] back_page_cases [OF new]
    by (auto simp: s1(1,2) s1(3) [OF v] s1(3) [OF new] back_page_inj [OF v new])
  have "m (Phys, back_page j + of_nat i) = mem s (Phys, vid_mem (terminals s j) + of_nat i)"
    if "j \<in> {0..<3}" "j \<noteq> new" "i < 4000" for i j
  proof (cases "j = ?v")
    case True
    then show ?thesis using m(2) that assms(1) by (simp add: terms_ok_def)
  next
    case False
    then have "m (Phys, back_page j + of_nat i) = mem s (Phys, back_page j + of_nat i)"
      using that back_page_cases [OF v] back_page_cases [OF that(1)] back_page_inj [OF v that(1)]
      by (intro m(4)) (auto simp: page_cells)
    then show ?thesis using that False assms(1) by (simp add: terms_ok_def)
  qed
  moreover have "switch_screen new s = upd_term new (\<lambda>t. t\<lparr>vid_mem := VIDEO_ADDR\<rparr>) s1\<lparr>mem := m\<rparr>"
    using m(1) by (simp add: switch_screen_def Let_def back_page_def s1_def)
  ultimately show ?thesis using m(3,4) new assms(1) unfolding s1_def
    by (intro exI [of _ m]) (auto simp: terms_ok_def)
qed

lemma screen_eqI:
  "(\<And>k. k < 4000 \<Longrightarrow> mem s' (Phys, vid_mem (terminals s' i) + of_nat k) = mem s (Phys, vid_mem (terminals s i) + of_nat k))
   \<Longrightarrow> screen_of s' i = screen_of s i"
  by (auto simp: screen_of_def intro!: nth_equalityI)

lemma switch_terminal_eq:
  assumes "new \<in> {0..<3}" and "our_popcount (pcb_status s) \<le> 6"
  shows "switch_terminal new s = sti (switch_keyboard_and_cursor_pos new ((switch_screen new (cli s))\<lparr>vis_term_id := new\<rparr>))"
  using assms by (simp add: switch_terminal_def Let_def not_less)

lemma switch_terminal_spec:
  assumes ok: "terms_ok s" and new: "new \<in> {0..<3}" and "our_popcount (pcb_status s) \<le> 6"
  defines "s' \<equiv> switch_terminal new s"
  shows "terms_ok s'" and "vis_term_id s' = new" and "\<forall>i \<in> {0..<3}. screen_of s' i = screen_of s i"
    and "\<forall>b a. b \<noteq> Phys \<longrightarrow> mem s' (b, a) = mem s (b, a)"
    and "\<forall>i. terminals s' i = (terminals s i)\<lparr>vid_mem := vid_mem (terminals s' i)\<rparr>"
    and "pcb_status s' = pcb_status s"
proof -
  have ok': "terms_ok (cli s)" using ok by (simp add: terms_ok_def)
  obtain m where m: "switch_screen new (cli s) = upd_term new (\<lambda>t. t\<lparr>vid_mem := VIDEO_ADDR\<rparr>)
      (upd_term (vis_term_id s) (\<lambda>t. t\<lparr>vid_mem := back_page (vis_term_id s)\<rparr>) (cli s))\<lparr>mem := m\<rparr>"
    "\<forall>b a. b \<noteq> Phys \<longrightarrow> m (b, a) = mem s (b, a)"
    "\<forall>i < 4000. m (Phys, VIDEO_ADDR + of_nat i) = mem s (Phys, vid_mem (terminals s new) + of_nat i)"
    "\<forall>j \<in> {0..<3}. j \<noteq> new \<longrightarrow> (\<forall>i < 4000. m (Phys, back_page j + of_nat i) = mem s (Phys, vid_mem (terminals s j) + of_nat i))"
    using switch_screen_spec [OF ok' new] by auto
  let ?t = "(terminals s)(vis_term_id s := (terminals s (vis_term_id s))\<lparr>vid_mem := back_page (vis_term_id s)\<rparr>)"
  have t: "terminals s' = ?t(new := (?t new)\<lparr>vid_mem := VIDEO_ADDR\<rparr>)"
    unfolding s'_def switch_terminal_eq [OF assms(2,3)] m(1) by (auto simp: switch_keyboard_and_cursor_pos_def Let_def fun_eq_iff)
  have mem: "mem s' = m" and v: "vis_term_id s' = new"
    unfolding s'_def switch_terminal_eq [OF assms(2,3)] m(1) by (simp_all add: switch_keyboard_and_cursor_pos_def Let_def)
  have vm: "vid_mem (terminals s' i) = (if i = new then VIDEO_ADDR else back_page i)" if "i \<in> {0..<3}" for i
    using ok that by (auto simp: t terms_ok_def)
  show "terms_ok s'" using new vm v by (simp add: terms_ok_def)
  show "vis_term_id s' = new" by (rule v)
  show "\<forall>i \<in> {0..<3}. screen_of s' i = screen_of s i"
    using m(3,4) by (intro ballI screen_eqI) (auto simp: mem vm)
  show "\<forall>b a. b \<noteq> Phys \<longrightarrow> mem s' (b, a) = mem s (b, a)" using m(2) by (simp add: mem)
  show "\<forall>i. terminals s' i = (terminals s i)\<lparr>vid_mem := vid_mem (terminals s' i)\<rparr>" by (simp add: t)
  show "pcb_status s' = pcb_status s"
    unfolding s'_def switch_terminal_eq [OF assms(2,3)] m(1)
    by (simp add: switch_keyboard_and_cursor_pos_def Let_def set_cursor_pos_def set_keyboard_pos_def)
qed

lemma switch_terminal_refused: "\<not> (new \<in> {0..<3} \<and> our_popcount (pcb_status s) \<le> 6) \<Longrightarrow> switch_terminal new s = s"
  by (auto simp: switch_terminal_def not_le)

text \<open>What a user sees: the number of the visible terminal and the three screens.\<close>

definition displays :: "kernel \<Rightarrow> int \<times> u8 list list" where
  "displays s = (vis_term_id s, map (screen_of s) [0, 1, 2])"

definition show_term :: "int \<times> u8 list list \<Rightarrow> int \<Rightarrow> int \<times> u8 list list" where
  "show_term d i = (if i \<in> {0..<3} then i else fst d, snd d)"

definition terms_inv :: "kernel \<Rightarrow> bool" where
  "terms_inv s \<longleftrightarrow> terms_ok s \<and> our_popcount (pcb_status s) \<le> 6"

lemma run_show_term: "run show_term d is = (last (fst d # filter (\<lambda>i. i \<in> {0..<3}) is), snd d)"
  by (induction "is" arbitrary: d) (auto simp: show_term_def)

interpretation sw: simulation "\<lambda>s i. switch_terminal i s" terms_inv displays show_term
proof
  fix s i assume inv: "terms_inv s"
  then show "terms_inv (switch_terminal i s)"
    using switch_terminal_spec [of s i] switch_terminal_refused [of i s] by (cases "i \<in> {0..<3}") (auto simp: terms_inv_def)
  show "displays (switch_terminal i s) = show_term (displays s) i"
    using inv switch_terminal_spec [of s i] switch_terminal_refused [of i s]
    by (cases "i \<in> {0..<3}") (auto simp: displays_def show_term_def terms_inv_def)
qed

text \<open>The terminals after initialisation.\<close>

lemma multi_term_init_ok:
  assumes "vis_term_id s = 0" and "our_popcount (pcb_status s) \<le> 6"
  shows "terms_inv (multi_term_init s)"
proof -
  have "i = 0 \<or> i = 1 \<or> i = 2" if "0 \<le> i" "i < 3" for i :: int using that by auto
  then have "vid_mem (terminals (multi_term_init s) i) = (if i = 0 then VIDEO_ADDR else back_page i)" if "i \<in> {0..<3}" for i
    using that by (fastforce simp: multi_term_init_def init_term_def back_page_def)
  then show ?thesis using assms by (auto simp: terms_inv_def terms_ok_def multi_term_init_def)
qed

subsection \<open>Properties\<close>

text \<open>
  C12: From a state in which the visible terminal is in video memory and the others are in their own pages, as
  after initialisation, every sequence of switch requests, valid or not, keeps the three screens byte for
  byte, and makes the last validly requested terminal the visible one.\<close>

theorem switch_terminal_keeps_screens:
  assumes "terms_inv s" and "s' = run (\<lambda>s i. switch_terminal i s) s is"
  shows "terms_inv s' \<and> vis_term_id s' = last (vis_term_id s # filter (\<lambda>i. i \<in> {0..<3}) is)
    \<and> map (screen_of s') [0, 1, 2] = map (screen_of s) [0, 1, 2]"
  using sw.inv_run [OF assms(1), of "is"] sw.abs_run [OF assms(1), of "is"] assms(2)
  by (simp add: run_show_term displays_def)

theorem switch_terminal_keeps_screens_witness:
  "let s = multi_term_init (blank_kernel (\<lambda>_. 7)); s' = run (\<lambda>s i. switch_terminal i s) s [2, 7, 1, -1]
   in vis_term_id s' = 1 \<and> map (screen_of s') [0, 1, 2] = map (screen_of s) [0, 1, 2]"
proof -
  have "terms_inv (multi_term_init (blank_kernel (\<lambda>_. 7)))"
    by (rule multi_term_init_ok) (simp_all add: blank_kernel_def our_popcount_def)
  from switch_terminal_keeps_screens [OF this refl, of "[2, 7, 1, -1]"] show ?thesis by (simp add: Let_def)
qed

end
