(* ===== verification/Keyboard.thy ===== *)
theory Keyboard
  imports MultiTerm
begin

text \<open>
  The keyboard driver, \<^verbatim>\<open>student-distrib/keyboard.c\<close>, with the key maps of \<^verbatim>\<open>student-distrib/key_maps.c\<close>. The main
  results: the driver implements a line editor, so the characters typed before Enter are the line that is handed over;
  the line and history buffers stay within their bounds and terminated as long as an arrow key is pressed only where the
  history has the elements it reads, and nothing else can leave them.
\<close>

subsection \<open>Key maps\<close>

text \<open>An array of 128 bytes given by its first elements; the rest is zero.\<close>

definition key_map :: "u8 list \<Rightarrow> u8 \<Rightarrow> u8" where
  "key_map ks c = (if unat c < length ks then ks ! unat c else 0)"

definition reg_key_map :: "u8 list" where
  "reg_key_map = [0, 0] @ bytes_of ''1234567890-='' @ [8, 0] @ bytes_of ''qwertyuiop[]'' @ [10, 0]
     @ bytes_of ''asdfghjkl;'' @ [39, 96, 0, 92] @ bytes_of ''zxcvbnm,./'' @ [0] @ bytes_of ''*'' @ [0] @ bytes_of '' ''
     @ replicate 16 0 @ bytes_of ''-'' @ replicate 3 0 @ bytes_of ''+'' @ replicate 11 0"

definition shift_key_map :: "u8 list" where
  "shift_key_map = [0, 0] @ bytes_of ''!@#$%^&*()_+'' @ [8, 0] @ bytes_of ''QWERTYUIOP{}'' @ [10, 0]
     @ bytes_of ''ASDFGHJKL:'' @ [34, 126, 0, 124] @ bytes_of ''ZXCVBNM<>?'' @ [0] @ bytes_of ''*'' @ [0] @ bytes_of '' ''
     @ replicate 16 0 @ bytes_of ''_'' @ replicate 3 0 @ bytes_of ''+'' @ replicate 11 0"

definition caps_key_map :: "u8 list" where
  "caps_key_map = [0, 0] @ bytes_of ''1234567890-='' @ [8, 0] @ bytes_of ''QWERTYUIOP[]'' @ [10, 0]
     @ bytes_of ''ASDFGHJKL;'' @ [39, 96, 0, 92] @ bytes_of ''ZXCVBNM,./'' @ [0] @ bytes_of ''*'' @ [0] @ bytes_of '' ''
     @ replicate 16 0 @ bytes_of ''_'' @ replicate 3 0 @ bytes_of ''+'' @ replicate 11 0"

definition caps_shift_key_map :: "u8 list" where
  "caps_shift_key_map = [0, 0] @ bytes_of ''!@#$%^&*()_+'' @ [8, 0] @ bytes_of ''qwertyuiop{}'' @ [10, 0]
     @ bytes_of ''asdfghjkl:'' @ [34, 126, 0, 124] @ bytes_of ''zxcvbnm<>?'' @ [0] @ bytes_of ''*'' @ [0] @ bytes_of '' ''
     @ replicate 16 0 @ bytes_of ''_'' @ replicate 3 0 @ bytes_of ''+'' @ replicate 11 0"

definition get_keymap :: "u8 \<Rightarrow> kernel \<Rightarrow> u8" where
  "get_keymap c s =
     (if (l_shift s \<or> r_shift s) \<and> caps_lock s then key_map caps_shift_key_map c
      else if l_shift s \<or> r_shift s then key_map shift_key_map c
      else if caps_lock s then key_map caps_key_map c
      else key_map reg_key_map c)"

subsection \<open>The line buffer and the command history\<close>

abbreviation BACKSPACE_P :: u8 where "BACKSPACE_P \<equiv> 0x0E"
abbreviation ENTER_KEY_P :: u8 where "ENTER_KEY_P \<equiv> 0x1C"
abbreviation CTRL_KEY_P :: u8 where "CTRL_KEY_P \<equiv> 0x1D"
abbreviation L_KEY_P :: u8 where "L_KEY_P \<equiv> 0x26"
abbreviation L_SHIFT_P :: u8 where "L_SHIFT_P \<equiv> 0x2A"
abbreviation R_SHIFT_P :: u8 where "R_SHIFT_P \<equiv> 0x36"
abbreviation ALT_KEY_P :: u8 where "ALT_KEY_P \<equiv> 0x38"
abbreviation CAPS_LOCK_P :: u8 where "CAPS_LOCK_P \<equiv> 0x3A"
abbreviation F1_KEY_P :: u8 where "F1_KEY_P \<equiv> 0x3B"
abbreviation F2_KEY_P :: u8 where "F2_KEY_P \<equiv> 0x3C"
abbreviation F3_KEY_P :: u8 where "F3_KEY_P \<equiv> 0x3D"
abbreviation UP_KEY_P :: u8 where "UP_KEY_P \<equiv> 0x48"
abbreviation DOWN_KEY_P :: u8 where "DOWN_KEY_P \<equiv> 0x50"
abbreviation FOUR_KEY_P :: u8 where "FOUR_KEY_P \<equiv> 0x05"
abbreviation FIVE_KEY_P :: u8 where "FIVE_KEY_P \<equiv> 0x06"

text \<open>The key releases \<^verbatim>\<open>-99\<close>, \<^verbatim>\<open>-86\<close> and \<^verbatim>\<open>-74\<close> of a signed \<^verbatim>\<open>char\<close>.\<close>

abbreviation CTRL_KEY_R :: u8 where "CTRL_KEY_R \<equiv> 0x9D"
abbreviation L_SHIFT_R :: u8 where "L_SHIFT_R \<equiv> 0xAA"
abbreviation R_SHIFT_R :: u8 where "R_SHIFT_R \<equiv> 0xB6"

abbreviation HIST_COM_NUM :: u32 where "HIST_COM_NUM \<equiv> 10"

text \<open>
  \<^verbatim>\<open>hist_buf[i]\<close>. The code also forms \<^verbatim>\<open>hist_buf[-1]\<close>: in the layout of \<^verbatim>\<open>term_t\<close> it is 129 bytes before the
  array, which is \<^verbatim>\<open>key_buf + 11\<close>. Every other index outside the array is undefined.
\<close>

definition hist_ptr :: "int \<Rightarrow> u32 \<Rightarrow> ptr option" where
  "hist_ptr tid i =
     (if i < HIST_COM_NUM then Some (HistBuf tid i, 0)
      else if i = -1 then Some (KeyBuf tid, 11)
      else None)"

definition clear_buffer :: "kernel \<Rightarrow> kernel option" where
  "clear_buffer s = do {
     let key_buf = (KeyBuf (vis_term_id s), 0);
     n \<leftarrow> strlen (rdr (mem s) key_buf);
     let s = upd_mem (\<lambda>m. memset m key_buf 0 (of_nat n)) s;
     Some (upd_term (vis_term_id s) (\<lambda>t. t\<lparr>key_buf_index := 0\<rparr>) s)
   }"

text \<open>The case \<^verbatim>\<open>BACKSPACE_P\<close> of \<^verbatim>\<open>process_input\<close>.\<close>

definition backspace_key :: "kernel \<Rightarrow> kernel" where
  "backspace_key s =
     (let v = vis_term_id s
      in if key_buf_index (terminals s v) \<noteq> 0
         then let s = upd_term v (\<lambda>t. t\<lparr>key_buf_index := key_buf_index t - 1\<rparr>) s;
                  s = st8 (KeyBuf v, key_buf_index (terminals s v)) 0 s;
                  s = (if scrn_c (terminals s v) = 0 then upd_term v (\<lambda>t. t\<lparr>scrn_r := scrn_r t - 1, scrn_c := 80\<rparr>) s else s)
              in putc v 8 s
         else s)"

text \<open>The loop of \<^verbatim>\<open>clear_cur_cmd\<close>: \<^verbatim>\<open>process_input(BACKSPACE_P)\<close>, as often as there are characters.\<close>

fun backspaces :: "nat \<Rightarrow> kernel \<Rightarrow> kernel" where
  "backspaces 0 s = s"
| "backspaces (Suc k) s = backspaces k (sti (backspace_key (cli s)))"

definition clear_cur_cmd :: "kernel \<Rightarrow> kernel option" where
  "clear_cur_cmd s = clear_buffer (backspaces (nat (sint (key_buf_index (terminals s (vis_term_id s))))) s)"

text \<open>A copy of more bytes than an element of the history has is undefined.\<close>

definition add_to_history :: "ptr \<Rightarrow> kernel \<Rightarrow> kernel option" where
  "add_to_history command s =
     (let v = vis_term_id s;
          hist_index = hist_buf_index (terminals s v)
      in if hist_index \<ge> HIST_COM_NUM then Some s
         else do {
           n \<leftarrow> strlen (rdr (mem s) command);
           let buf_size = (of_nat n - 1 :: u32);
           prev \<leftarrow> hist_ptr v (hist_index - 1);
           s \<leftarrow> (if buf_size \<noteq> 0 \<and> strncmp (rdr (mem s) prev) (rdr (mem s) command) buf_size \<noteq> 0
                then if KEY_BUF_SIZE < unat buf_size then None
                     else Some (upd_term v (\<lambda>t. t\<lparr>hist_buf_index := hist_index + 1\<rparr>)
                            (upd_mem (\<lambda>m. strncpy m (HistBuf v hist_index, 0) command buf_size) s))
                else Some s);
           Some (upd_term v (\<lambda>t. t\<lparr>cur_hist_index := hist_buf_index t\<rparr>) s)
         })"

text \<open>Prints the read buffer.\<close>

fun echo :: "nat \<Rightarrow> u32 \<Rightarrow> kernel \<Rightarrow> kernel" where
  "echo 0 i s = s"
| "echo (Suc k) i s = echo k (i + 1) (putc (vis_term_id s) (mem s (KeyBuf (vis_term_id s), i)) s)"

text \<open>Puts a command of the history into the read buffer, the end of the cases \<^verbatim>\<open>UP_KEY_P\<close> and \<^verbatim>\<open>DOWN_KEY_P\<close>.\<close>

definition recall :: "ptr \<Rightarrow> nat \<Rightarrow> u32 \<Rightarrow> kernel \<Rightarrow> kernel" where
  "recall src buf_size step s =
     (let v = vis_term_id s;
          s = upd_mem (\<lambda>m. memcpy m (KeyBuf v, 0) src (of_nat buf_size)) s;
          s = upd_term v (\<lambda>t. t\<lparr>cur_hist_index := cur_hist_index t + step, key_buf_index := of_nat buf_size\<rparr>) s
      in echo buf_size 0 s)"

definition up_key :: "kernel \<Rightarrow> kernel option" where
  "up_key s = do {
     src \<leftarrow> hist_ptr (vis_term_id s) (cur_hist_index (terminals s (vis_term_id s)) - 1);
     buf_size \<leftarrow> strlen (rdr (mem s) src);
     if buf_size = 0 then Some s
     else do {
       s \<leftarrow> clear_cur_cmd s;
       s \<leftarrow> clear_buffer s;
       Some (recall src buf_size (-1) s)
     }
   }"

definition down_key :: "kernel \<Rightarrow> kernel option" where
  "down_key s = do {
     prev \<leftarrow> hist_ptr (vis_term_id s) (cur_hist_index (terminals s (vis_term_id s)));
     prev_size \<leftarrow> strlen (rdr (mem s) prev);
     src \<leftarrow> hist_ptr (vis_term_id s) (cur_hist_index (terminals s (vis_term_id s)) + 1);
     buf_size \<leftarrow> strlen (rdr (mem s) src);
     s \<leftarrow> clear_cur_cmd s;
     s \<leftarrow> clear_buffer s;
     if buf_size = 0
     then Some (if prev_size \<noteq> 0 then upd_term (vis_term_id s) (\<lambda>t. t\<lparr>cur_hist_index := cur_hist_index t + 1\<rparr>) s else s)
     else Some (recall src buf_size 1 s)
   }"

subsection \<open>Scan codes\<close>

definition enter_key :: "kernel \<Rightarrow> kernel" where
  "enter_key s =
     (let v = vis_term_id s;
          last = (if key_buf_index (terminals s v) < 128 then key_buf_index (terminals s v) else 127);
          s = st8 (KeyBuf v, last) 10 s;
          s = st8 (KeyBuf v, last + 1) 0 s;
          s = putc v 10 s
      in upd_term v (\<lambda>t. t\<lparr>key_buf_index := 0, new_line := True\<rparr>) s)"

text \<open>
  The label \<^verbatim>\<open>print_char\<close>, up to the end of the function: when the buffer is full it returns without
  turning interrupts on again.
\<close>

definition print_char :: "u8 \<Rightarrow> kernel \<Rightarrow> kernel" where
  "print_char c s =
     (let v = vis_term_id s
      in if key_buf_index (terminals s v) = 128 then s
         else let c_print = get_keymap c s
              in sti (if c_print \<noteq> 0
                      then let s = st8 (KeyBuf v, key_buf_index (terminals s v)) c_print s;
                               s = upd_term v (\<lambda>t. t\<lparr>key_buf_index := key_buf_index t + 1\<rparr>) s
                           in putc v c_print s
                      else s))"

definition key_down :: "u8 \<Rightarrow> kernel \<Rightarrow> kernel option" where
  "key_down c s =
     (if c = BACKSPACE_P then Some (sti (backspace_key s))
      else if c = ENTER_KEY_P then Some (sti (enter_key s))
      else if c = CTRL_KEY_P then Some (sti (s\<lparr>ctrl := True\<rparr>))
      else if c = ALT_KEY_P then Some (sti (s\<lparr>alt := True\<rparr>))
      else if c = L_KEY_P \<and> ctrl s then map_option sti (clear_buffer (clear_screen s))
      else if c = L_SHIFT_P then Some (sti (s\<lparr>l_shift := True\<rparr>))
      else if c = R_SHIFT_P then Some (sti (s\<lparr>r_shift := True\<rparr>))
      else if c = CAPS_LOCK_P then Some (sti (s\<lparr>caps_lock := \<not> caps_lock s\<rparr>))
      else if c = F1_KEY_P \<or> c = F2_KEY_P \<or> c = F3_KEY_P
      then let tid = uint c - uint F1_KEY_P
           in Some (sti (if alt s \<and> vis_term_id s \<noteq> tid then switch_terminal tid s else s))
      else if c = UP_KEY_P then map_option sti (up_key s)
      else if c = DOWN_KEY_P then map_option sti (down_key s)
      else if c = FOUR_KEY_P \<and> ctrl s
      then let s = s\<lparr>rtc_freq := push_bit 1 (rtc_freq s)\<rparr>;
               s = (if rtc_freq s > 0x400 then s\<lparr>rtc_freq := 2\<rparr> else s)
           in Some (sti (snd (rtc_set_freq (rtc_freq s) 0 s)))
      else if c = FIVE_KEY_P \<and> ctrl s then Some (sti (s\<lparr>rtc_loop := False\<rparr>))
      else Some (print_char c s))"

definition key_up :: "u8 \<Rightarrow> kernel \<Rightarrow> kernel" where
  "key_up c s =
     sti (if c = CTRL_KEY_R then s\<lparr>ctrl := False\<rparr>
          else if c = L_SHIFT_R then s\<lparr>l_shift := False\<rparr>
          else if c = R_SHIFT_R then s\<lparr>r_shift := False\<rparr>
          else s)"

definition process_input :: "u8 \<Rightarrow> kernel \<Rightarrow> kernel option" where
  "process_input c s = (if c < 0x80 then key_down c (cli s) else Some (key_up c (cli s)))"

abbreviation KEYBOARD_IRQ :: u32 where "KEYBOARD_IRQ \<equiv> 1"
abbreviation STATUS_PORT :: u16 where "STATUS_PORT \<equiv> 0x64"
abbreviation DATA_PORT :: u16 where "DATA_PORT \<equiv> 0x60"

definition keyboard_init :: "kernel \<Rightarrow> kernel" where
  "keyboard_init s = enable_irq KEYBOARD_IRQ s"

text \<open>When the controller is not ready, the character processed is an uninitialised local.\<close>

definition keyboard_interrupt :: "kernel \<Rightarrow> kernel option" where
  "keyboard_interrupt s =
     (let s = send_eoi KEYBOARD_IRQ s;
          (status, s) = inb STATUS_PORT s
      in if status AND 2 = 0
         then let (c, s) = inb DATA_PORT s in process_input (ucast c) s
         else None)"

subsection \<open>What output leaves alone\<close>

text \<open>
  Two states with the same line buffers: the same visible terminal, the same memory but for the physical
  one, and terminals that differ in their positions only.
\<close>

definition kb_same :: "kernel \<Rightarrow> kernel \<Rightarrow> bool" where
  "kb_same s' s \<longleftrightarrow> vis_term_id s' = vis_term_id s \<and> pcb_status s' = pcb_status s
     \<and> (\<forall>q. fst q \<noteq> Phys \<longrightarrow> mem s' q = mem s q) \<and> (\<forall>v. same_line (terminals s' v) (terminals s v))"

lemma same_line_refl [simp]: "same_line t t"
  by (simp add: same_line_def)

lemma same_line_trans: "same_line t u \<Longrightarrow> same_line u w \<Longrightarrow> same_line t w"
  by (cases t; cases u; cases w) (simp add: same_line_def)

lemma kb_same_trans: "kb_same t s \<Longrightarrow> kb_same u t \<Longrightarrow> kb_same u s"
  by (auto simp: kb_same_def intro: same_line_trans)

lemma kb_same_putc: "kb_same (putc i c s) s"
  by (simp add: kb_same_def mem_putc_block putc_same_line)

lemma kb_same_position: "kb_same (upd_term v (\<lambda>t. t\<lparr>scrn_r := f t, scrn_c := g t\<rparr>) s) s"
  by (simp add: kb_same_def same_line_def)

lemma kb_same_clear_screen: "kb_same (clear_screen s) s"
proof -
  have more: "console.more (clear_screen s) = console.more s" by (simp add: clear_screen_def)
  show ?thesis
    using more_fields(12) [OF more]
    by (simp add: kb_same_def clear_screen_def Let_def mem_clear_loop_block same_line_def)
qed

lemma kb_same_flags [simp]:
  "kb_same (cli s) s" "kb_same (sti s) s" "kb_same s s" "kb_same (s\<lparr>ctrl := x\<rparr>) s" "kb_same (s\<lparr>alt := x\<rparr>) s"
  "kb_same (s\<lparr>caps_lock := x\<rparr>) s" "kb_same (s\<lparr>l_shift := x\<rparr>) s" "kb_same (s\<lparr>r_shift := x\<rparr>) s"
  "kb_same (s\<lparr>rtc_loop := x\<rparr>) s" "kb_same (s\<lparr>rtc_freq := f\<rparr>) s"
  by (simp_all add: kb_same_def)

lemma swap_screen_more: "console.more (swap_screen k new s) = console.more s"
  by (induction k arbitrary: s) (simp_all add: Let_def)

lemma switch_terminal_more: "console.more (switch_terminal new s) = console.more s"
  by (simp add: switch_terminal_def switch_screen_def switch_keyboard_and_cursor_pos_def Let_def swap_screen_more)

subsection \<open>The line editor\<close>

text \<open>
  What the keyboard promises, as a pure line editor: one line per terminal, the visible terminal, which
  terminals have a finished line, and the modifier keys.
\<close>

record editor =
  ed_vis :: int
  ed_line :: "int \<Rightarrow> u8 list"
  ed_ready :: "int \<Rightarrow> bool"
  ed_ctrl :: bool
  ed_alt :: bool
  ed_caps :: bool
  ed_lshift :: bool
  ed_rshift :: bool

definition ed_char :: "editor \<Rightarrow> u8 \<Rightarrow> u8" where
  "ed_char e c = key_map
     (if ed_lshift e \<or> ed_rshift e then if ed_caps e then caps_shift_key_map else shift_key_map
      else if ed_caps e then caps_key_map else reg_key_map) c"

definition ed_edit :: "(u8 list \<Rightarrow> u8 list) \<Rightarrow> editor \<Rightarrow> editor" where
  "ed_edit f e = e\<lparr>ed_line := (ed_line e)(ed_vis e := f (ed_line e (ed_vis e)))\<rparr>"

definition ed_press :: "editor \<Rightarrow> u8 \<Rightarrow> editor" where
  "ed_press e c =
     (if c = BACKSPACE_P then ed_edit butlast e
      else if c = ENTER_KEY_P then (ed_edit (\<lambda>_. []) e)\<lparr>ed_ready := (ed_ready e)(ed_vis e := True)\<rparr>
      else if c = CTRL_KEY_P then e\<lparr>ed_ctrl := True\<rparr>
      else if c = ALT_KEY_P then e\<lparr>ed_alt := True\<rparr>
      else if c = L_KEY_P \<and> ed_ctrl e then ed_edit (\<lambda>_. []) e
      else if c = L_SHIFT_P then e\<lparr>ed_lshift := True\<rparr>
      else if c = R_SHIFT_P then e\<lparr>ed_rshift := True\<rparr>
      else if c = CAPS_LOCK_P then e\<lparr>ed_caps := \<not> ed_caps e\<rparr>
      else if c \<in> {F1_KEY_P, F2_KEY_P, F3_KEY_P} then if ed_alt e then e\<lparr>ed_vis := uint c - uint F1_KEY_P\<rparr> else e
      else if c \<in> {FOUR_KEY_P, FIVE_KEY_P} \<and> ed_ctrl e then e
      else if ed_char e c = 0 then e
      else ed_edit (\<lambda>l. if length l = 128 then l else l @ [ed_char e c]) e)"

definition ed_release :: "editor \<Rightarrow> u8 \<Rightarrow> editor" where
  "ed_release e c =
     (if c = CTRL_KEY_R then e\<lparr>ed_ctrl := False\<rparr>
      else if c = L_SHIFT_R then e\<lparr>ed_lshift := False\<rparr>
      else if c = R_SHIFT_R then e\<lparr>ed_rshift := False\<rparr>
      else e)"

definition ed_key :: "editor \<Rightarrow> u8 \<Rightarrow> editor" where
  "ed_key e c = (if c < 0x80 then ed_press e c else ed_release e c)"

definition line_of :: "kernel \<Rightarrow> int \<Rightarrow> u8 list" where
  "line_of s v = read_list (mem s) (KeyBuf v, 0) (unat (key_buf_index (terminals s v)))"

definition abs_ed :: "kernel \<Rightarrow> editor" where
  "abs_ed s = \<lparr>ed_vis = vis_term_id s, ed_line = line_of s, ed_ready = (\<lambda>v. new_line (terminals s v)),
     ed_ctrl = ctrl s, ed_alt = alt s, ed_caps = caps_lock s, ed_lshift = l_shift s, ed_rshift = r_shift s\<rparr>"

text \<open>The invariant: the index is within the buffer, and the byte after the longest line is NUL.\<close>

definition line_ok :: "kernel \<Rightarrow> int \<Rightarrow> bool" where
  "line_ok s v \<longleftrightarrow> key_buf_index (terminals s v) \<le> 128 \<and> mem s (KeyBuf v, 128) = 0"

definition kb_inv :: "kernel \<Rightarrow> bool" where
  "kb_inv s \<longleftrightarrow> terms_inv s \<and> (\<forall>v \<in> {0..<3}. line_ok s v)"

lemma kb_same_line:
  assumes "kb_same s' s"
  shows "line_of s' v = line_of s v" and "new_line (terminals s' v) = new_line (terminals s v)"
    and "vis_term_id s' = vis_term_id s" and "line_ok s' v = line_ok s v" and "kb_inv s' = kb_inv s"
proof -
  have t: "key_buf_index (terminals s' v) = key_buf_index (terminals s v)" "new_line (terminals s' v) = new_line (terminals s v)"
    "vid_mem (terminals s' v) = vid_mem (terminals s v)" for v
    using assms same_line_fields by (auto simp: kb_same_def)
  have m: "mem s' (KeyBuf v, a) = mem s (KeyBuf v, a)" for v a using assms by (simp add: kb_same_def)
  show "line_of s' v = line_of s v" unfolding line_of_def t by (rule read_list_cong) (simp add: padd_def m)
  show "new_line (terminals s' v) = new_line (terminals s v)" by (rule t)
  show v: "vis_term_id s' = vis_term_id s" using assms by (simp add: kb_same_def)
  show ok: "line_ok s' v = line_ok s v" for v by (simp add: line_ok_def t m)
  show "kb_inv s' = kb_inv s" using assms by (simp add: kb_inv_def ok terms_inv_def terms_ok_def v t(3)) (simp add: kb_same_def)
qed

lemma abs_ed_same: "kb_same s' s \<Longrightarrow> console.more s' = console.more s \<Longrightarrow> abs_ed s' = abs_ed s"
  by (simp add: abs_ed_def kb_same_line more_fields [of s' s] fun_eq_iff)

lemma abs_ed_putc [simp]: "abs_ed (putc i c s) = abs_ed s" "kb_inv (putc i c s) = kb_inv s"
  using kb_same_putc [of i c s] by (simp_all add: abs_ed_same kb_same_line)

lemma abs_ed_flag [simp]: "abs_ed (cli s) = abs_ed s" "kb_inv (cli s) = kb_inv s" "abs_ed (sti s) = abs_ed s" "kb_inv (sti s) = kb_inv s"
  by (simp_all add: abs_ed_same kb_same_line)

lemma kb_inv_vis: "kb_inv s \<Longrightarrow> vis_term_id s \<in> {0..<3} \<and> line_ok s (vis_term_id s)"
  by (simp add: kb_inv_def terms_inv_def terms_ok_def)

text \<open>A change of the line of the visible terminal.\<close>

definition edits :: "kernel \<Rightarrow> (u8 list \<Rightarrow> u8 list) \<Rightarrow> kernel \<Rightarrow> bool" where
  "edits s f s' \<longleftrightarrow> (let v = vis_term_id s in
     vis_term_id s' = v \<and> console.more s' = console.more s \<and> line_ok s' v \<and> line_of s' v = f (line_of s v)
     \<and> (\<forall>w. vid_mem (terminals s' w) = vid_mem (terminals s w))
     \<and> (\<forall>w. w \<noteq> v \<longrightarrow> terminals s' w = terminals s w \<and> (\<forall>a. mem s' (KeyBuf w, a) = mem s (KeyBuf w, a))))"

lemma edits_abs:
  assumes "edits s f s'" and inv: "kb_inv s"
  shows "kb_inv s'" and "abs_ed s' = (ed_edit f (abs_ed s))\<lparr>ed_ready := (ed_ready (abs_ed s))(vis_term_id s := new_line (terminals s' (vis_term_id s)))\<rparr>"
proof -
  let ?v = "vis_term_id s"
  have e: "vis_term_id s' = ?v" "console.more s' = console.more s" "line_ok s' ?v" "line_of s' ?v = f (line_of s ?v)"
    "vid_mem (terminals s' w) = vid_mem (terminals s w)"
    "w \<noteq> ?v \<Longrightarrow> terminals s' w = terminals s w" "w \<noteq> ?v \<Longrightarrow> mem s' (KeyBuf w, a) = mem s (KeyBuf w, a)" for w a
    using assms(1) by (simp_all add: edits_def Let_def)
  have ok: "line_ok s' w" if "w \<in> {0..<3}" for w
    using that inv e by (cases "w = ?v") (simp_all add: kb_inv_def line_ok_def)
  have other: "line_of s' w = line_of s w" if "w \<noteq> ?v" for w
    using that by (simp add: line_of_def e(6)) (rule read_list_cong, simp add: padd_def e(7))
  show "kb_inv s'" using inv ok e(1,5) more_fields(12) [OF e(2)] by (simp add: kb_inv_def terms_inv_def terms_ok_def)
  have "line_of s' = (line_of s)(?v := f (line_of s ?v))" using other e(4) by (simp add: fun_eq_iff)
  moreover have "(\<lambda>v. new_line (terminals s' v)) = (\<lambda>v. new_line (terminals s v))(?v := new_line (terminals s' ?v))"
    using e(6) by (simp add: fun_eq_iff)
  ultimately show "abs_ed s' = (ed_edit f (abs_ed s))\<lparr>ed_ready := (ed_ready (abs_ed s))(?v := new_line (terminals s' ?v))\<rparr>"
    using more_fields [OF e(2)] e(1) by (simp add: abs_ed_def ed_edit_def)
qed

lemma read_list_snoc: "read_list m p (Suc n) = read_list m p n @ [m (padd p (of_nat n))]"
  by (simp add: read_list_def rdr_def)

lemma butlast_read_list: "butlast (read_list m p n) = read_list m p (n - 1)"
  by (cases n) (simp_all add: read_list_snoc)

lemma read_key_upd: "n \<le> unat i \<Longrightarrow> read_list (m((KeyBuf v, i) := x)) (KeyBuf v, 0) n = read_list m (KeyBuf v, 0) n"
proof (rule read_list_cong)
  fix j assume "n \<le> unat i" "j < n"
  moreover from this have "j < 4294967296" using unat_u32_bound [of i] by linarith
  ultimately have "unat (of_nat j :: u32) \<noteq> unat i" by (subst unat_of_nat_u32) simp_all
  then have "of_nat j \<noteq> i" by blast
  then show "(m((KeyBuf v, i) := x)) (padd (KeyBuf v, 0) (of_nat j)) = m (padd (KeyBuf v, 0) (of_nat j))"
    by (simp add: padd_def)
qed

text \<open>The store and the change of the index behind a printable key and behind backspace.\<close>

lemma edits_append:
  assumes "kb_inv s" and "key_buf_index (terminals s (vis_term_id s)) < 128"
  shows "edits s (\<lambda>l. l @ [x]) (upd_term (vis_term_id s) (\<lambda>t. t\<lparr>key_buf_index := key_buf_index t + 1\<rparr>)
    (st8 (KeyBuf (vis_term_id s), key_buf_index (terminals s (vis_term_id s))) x s))"
proof -
  let ?i = "key_buf_index (terminals s (vis_term_id s))"
  have i: "unat ?i < 128" using assms(2) by (simp add: word_less_nat_alt)
  have u: "unat (?i + 1) = Suc (unat ?i)" using i by (simp add: unat_word_ariths)
  have "line_of (upd_term (vis_term_id s) (\<lambda>t. t\<lparr>key_buf_index := key_buf_index t + 1\<rparr>) (st8 (KeyBuf (vis_term_id s), ?i) x s)) (vis_term_id s)
    = line_of s (vis_term_id s) @ [x]"
    by (simp add: line_of_def u read_list_snoc read_key_upd padd_def)
  then show ?thesis using kb_inv_vis [OF assms(1)] i u
    by (auto simp: edits_def Let_def line_ok_def word_le_nat_alt)
qed

lemma edits_butlast:
  assumes "kb_inv s" and "key_buf_index (terminals s (vis_term_id s)) \<noteq> 0"
  shows "edits s butlast (st8 (KeyBuf (vis_term_id s), key_buf_index (terminals s (vis_term_id s)) - 1) 0
    (upd_term (vis_term_id s) (\<lambda>t. t\<lparr>key_buf_index := key_buf_index t - 1\<rparr>) s))"
proof -
  let ?i = "key_buf_index (terminals s (vis_term_id s))"
  have i: "unat ?i \<le> 128" using kb_inv_vis [OF assms(1)] by (simp add: line_ok_def word_le_nat_alt)
  have u: "unat (?i - 1) = unat ?i - 1" "0 < unat ?i" using assms(2) by (simp_all add: unat_minus_one unat_gt_0)
  have "line_of (st8 (KeyBuf (vis_term_id s), ?i - 1) 0 (upd_term (vis_term_id s) (\<lambda>t. t\<lparr>key_buf_index := key_buf_index t - 1\<rparr>) s)) (vis_term_id s)
    = butlast (line_of s (vis_term_id s))"
    by (simp add: line_of_def u read_key_upd butlast_read_list)
  then show ?thesis using kb_inv_vis [OF assms(1)] i u
    by (auto simp: edits_def Let_def line_ok_def word_le_nat_alt)
qed

lemma strlen_key_buf:
  assumes "line_ok s v"
  shows "\<exists>n \<le> 128. strlen (rdr (mem s) (KeyBuf v, 0)) = Some n"
proof -
  have z: "rdr (mem s) (KeyBuf v, 0) 128 = 0" using assms by (simp add: line_ok_def rdr_def padd_def)
  then obtain n where n: "strlen (rdr (mem s) (KeyBuf v, 0)) = Some n"
    using strlen_None_iff by (metis option.exhaust)
  moreover have "n \<le> 128" using n z by (simp add: strlen_Some_iff) (metis not_le)
  ultimately show ?thesis by blast
qed

lemma edits_clear:
  assumes "line_ok s (vis_term_id s)"
  shows "\<exists>s'. clear_buffer s = Some s' \<and> edits s (\<lambda>_. []) s' \<and> new_line (terminals s' (vis_term_id s)) = new_line (terminals s (vis_term_id s))"
proof -
  let ?v = "vis_term_id s"
  obtain n where n: "n \<le> 128" "strlen (rdr (mem s) (KeyBuf ?v, 0)) = Some n" using strlen_key_buf [OF assms] by blast
  have "unat (of_nat n :: u32) = n" using n(1) by (simp add: unat_of_nat_u32)
  then have "clear_buffer s = Some (upd_term ?v (\<lambda>t. t\<lparr>key_buf_index := 0\<rparr>)
      (upd_mem (\<lambda>m. write_list m (KeyBuf ?v, 0) (replicate n 0)) s))"
    using n(2) by (simp add: clear_buffer_def memset_eq)
  moreover have "write_list m (KeyBuf ?v, 0) (replicate n 0) (KeyBuf w, a) = (if w = ?v \<and> unat a < n then 0 else m (KeyBuf w, a))" for m w a
    using n(1) by (auto simp: write_list_apply in_range_def)
  ultimately show ?thesis using assms n(1) by (auto simp: edits_def Let_def line_ok_def line_of_def)
qed

lemma edits_enter:
  assumes "kb_inv s"
  defines "v \<equiv> vis_term_id s"
  defines "i \<equiv> (if key_buf_index (terminals s v) < 128 then key_buf_index (terminals s v) else 127)"
  defines "s1 \<equiv> upd_term v (\<lambda>t. t\<lparr>key_buf_index := 0, new_line := True\<rparr>) (st8 (KeyBuf v, i + 1) 0 (st8 (KeyBuf v, i) 10 s))"
  shows "edits s (\<lambda>_. []) s1" and "kb_same (enter_key s) s1" and "console.more (enter_key s) = console.more s1"
proof -
  have i: "unat i \<le> 127" by (auto simp: i_def word_less_nat_alt)
  then have "unat (i + 1) = Suc (unat i)" by (simp add: unat_word_ariths)
  then have "i \<noteq> 128" "i + 1 = 128 \<or> i + 1 \<noteq> 128" using i by auto
  then show "edits s (\<lambda>_. []) s1" using kb_inv_vis [OF assms(1)]
    by (auto simp: edits_def Let_def line_ok_def line_of_def s1_def v_def)
  have enter: "enter_key s = upd_term v (\<lambda>t. t\<lparr>key_buf_index := 0, new_line := True\<rparr>) (putc v 10 (st8 (KeyBuf v, i + 1) 0 (st8 (KeyBuf v, i) 10 s)))"
    by (simp add: enter_key_def Let_def i_def v_def)
  have sl: "same_line ((terminals (putc v 10 t) v)\<lparr>key_buf_index := 0, new_line := True\<rparr>) ((terminals t v)\<lparr>key_buf_index := 0, new_line := True\<rparr>)" for t :: kernel
    using putc_same_line [of v 10 t v] by (cases "terminals (putc v 10 t) v"; cases "terminals t v") (simp add: same_line_def)
  show "kb_same (enter_key s) s1" unfolding enter s1_def
    using sl [of "st8 (KeyBuf v, i + 1) 0 (st8 (KeyBuf v, i) 10 s)"] by (simp add: kb_same_def mem_putc_block)
  show "console.more (enter_key s) = console.more s1" unfolding enter s1_def by simp
qed

lemma kb_same_rtc: "kb_same (snd (rtc_set_freq f n s)) s"
  by (simp add: rtc_set_freq_def set_int_freq_def Let_def kb_same_def split: prod.split) (auto simp: inb_def)

lemma abs_ed_rtc: "abs_ed (snd (rtc_set_freq f n s)) = abs_ed s"
  using kb_same_line [OF kb_same_rtc, of f n s]
  by (simp add: abs_ed_def fun_eq_iff) (auto simp: rtc_set_freq_def set_int_freq_def Let_def inb_def)

lemma abs_ed_set [simp]:
  "abs_ed (s\<lparr>ctrl := x\<rparr>) = (abs_ed s)\<lparr>ed_ctrl := x\<rparr>" "abs_ed (s\<lparr>alt := x\<rparr>) = (abs_ed s)\<lparr>ed_alt := x\<rparr>"
  "abs_ed (s\<lparr>caps_lock := x\<rparr>) = (abs_ed s)\<lparr>ed_caps := x\<rparr>" "abs_ed (s\<lparr>l_shift := x\<rparr>) = (abs_ed s)\<lparr>ed_lshift := x\<rparr>"
  "abs_ed (s\<lparr>r_shift := x\<rparr>) = (abs_ed s)\<lparr>ed_rshift := x\<rparr>" "abs_ed (s\<lparr>rtc_loop := x\<rparr>) = abs_ed s" "abs_ed (s\<lparr>rtc_freq := f\<rparr>) = abs_ed s"
  by (simp_all add: abs_ed_def line_of_def fun_eq_iff)

subsection \<open>Each key\<close>

lemma ed_ready_id: "(ed_edit f (abs_ed s))\<lparr>ed_ready := (ed_ready (abs_ed s))(v := new_line (terminals s v))\<rparr> = ed_edit f (abs_ed s)"
  by (simp add: ed_edit_def abs_ed_def fun_upd_idem)

lemma backspace_key_cases:
  assumes "kb_inv s"
  shows "backspace_key s = s \<and> line_of s (vis_term_id s) = [] \<or>
    (\<exists>s1. edits s butlast s1 \<and> new_line (terminals s1 (vis_term_id s)) = new_line (terminals s (vis_term_id s))
       \<and> kb_same (backspace_key s) s1 \<and> console.more (backspace_key s) = console.more s1)"
proof (cases "key_buf_index (terminals s (vis_term_id s)) = 0")
  case True
  then show ?thesis by (simp add: backspace_key_def line_of_def)
next
  case False
  let ?v = "vis_term_id s"
  let ?s1 = "st8 (KeyBuf ?v, key_buf_index (terminals s ?v) - 1) 0 (upd_term ?v (\<lambda>t. t\<lparr>key_buf_index := key_buf_index t - 1\<rparr>) s)"
  have "kb_same (putc ?v 8 (upd_term ?v (\<lambda>t. t\<lparr>scrn_r := scrn_r t - 1, scrn_c := 80\<rparr>) ?s1)) ?s1" "kb_same (putc ?v 8 ?s1) ?s1"
    by (rule kb_same_trans [OF kb_same_position kb_same_putc] kb_same_putc)+
  then have "kb_same (backspace_key s) ?s1" "console.more (backspace_key s) = console.more ?s1"
    using False by (auto simp: backspace_key_def Let_def)
  then show ?thesis using edits_butlast [OF assms False] by (intro disjI2 exI [of _ ?s1]) simp
qed

lemma press_backspace:
  assumes "kb_inv s"
  shows "kb_inv (backspace_key s) \<and> abs_ed (backspace_key s) = ed_edit butlast (abs_ed s)"
  using backspace_key_cases [OF assms]
proof (elim disjE exE conjE)
  fix s1 assume "edits s butlast s1" "new_line (terminals s1 (vis_term_id s)) = new_line (terminals s (vis_term_id s))"
    "kb_same (backspace_key s) s1" "console.more (backspace_key s) = console.more s1"
  then show ?thesis using edits_abs [of s butlast s1] assms by (simp add: kb_same_line(5) abs_ed_same ed_ready_id)
next
  assume "backspace_key s = s" "line_of s (vis_term_id s) = []"
  then show ?thesis using assms by (simp add: ed_edit_def abs_ed_def fun_upd_idem)
qed

lemma press_enter:
  assumes "kb_inv s"
  shows "kb_inv (enter_key s) \<and> abs_ed (enter_key s) = (ed_edit (\<lambda>_. []) (abs_ed s))\<lparr>ed_ready := (ed_ready (abs_ed s))(vis_term_id s := True)\<rparr>"
  using edits_enter [OF assms] edits_abs [OF edits_enter(1) [OF assms] assms] by (simp add: kb_same_line(5) abs_ed_same)

lemma press_clear:
  assumes "kb_inv s"
  shows "\<exists>s'. clear_buffer (clear_screen s) = Some s' \<and> kb_inv s' \<and> abs_ed s' = ed_edit (\<lambda>_. []) (abs_ed s)"
proof -
  note same = kb_same_clear_screen [of s]
  have inv: "kb_inv (clear_screen s)" using assms kb_same_line(5) [OF same] by simp
  have abs: "abs_ed (clear_screen s) = abs_ed s" by (rule abs_ed_same [OF same]) (simp add: clear_screen_def)
  obtain s' where s': "clear_buffer (clear_screen s) = Some s'" "edits (clear_screen s) (\<lambda>_. []) s'"
    "new_line (terminals s' (vis_term_id (clear_screen s))) = new_line (terminals (clear_screen s) (vis_term_id (clear_screen s)))"
    using edits_clear kb_inv_vis [OF inv] by blast
  show ?thesis using s' edits_abs [OF s'(2) inv] by (simp add: ed_ready_id) (simp add: abs)
qed

lemma press_switch:
  assumes "kb_inv s" and "tid \<in> {0..<3}"
  shows "kb_inv (switch_terminal tid s) \<and> abs_ed (switch_terminal tid s) = (abs_ed s)\<lparr>ed_vis := tid\<rparr>"
proof -
  let ?s = "switch_terminal tid s"
  have "terms_ok s" "our_popcount (pcb_status s) \<le> 6" using assms(1) by (simp_all add: kb_inv_def terms_inv_def)
  note sw = switch_terminal_spec [OF this(1) assms(2) this(2)]
  have t: "key_buf_index (terminals ?s v) = key_buf_index (terminals s v)" "new_line (terminals ?s v) = new_line (terminals s v)" for v
    by (subst sw(5) [rule_format], simp)+
  have m: "mem ?s (KeyBuf v, a) = mem s (KeyBuf v, a)" for v a using sw(4) by simp
  have l: "line_of ?s v = line_of s v" for v unfolding line_of_def t by (rule read_list_cong) (simp add: padd_def m)
  have "abs_ed ?s = (abs_ed s)\<lparr>ed_vis := tid\<rparr>"
    using more_fields [OF switch_terminal_more [of tid s]] sw(2) by (simp add: abs_ed_def l t fun_eq_iff)
  then show ?thesis using assms(1) sw(1,6) by (simp add: kb_inv_def terms_inv_def line_ok_def t m)
qed

lemma press_char:
  assumes "kb_inv s"
  shows "kb_inv (print_char c s) \<and> abs_ed (print_char c s) = (if ed_char (abs_ed s) c = 0 then abs_ed s
    else ed_edit (\<lambda>l. if length l = 128 then l else l @ [ed_char (abs_ed s) c]) (abs_ed s))"
proof -
  let ?v = "vis_term_id s" and ?ch = "get_keymap c s"
  let ?i = "key_buf_index (terminals s ?v)"
  let ?s1 = "upd_term ?v (\<lambda>t. t\<lparr>key_buf_index := key_buf_index t + 1\<rparr>) (st8 (KeyBuf ?v, ?i) ?ch s)"
  have ch: "ed_char (abs_ed s) c = ?ch" by (simp add: ed_char_def abs_ed_def get_keymap_def)
  have len: "length (ed_line (abs_ed s) (ed_vis (abs_ed s))) = unat ?i" by (simp add: abs_ed_def line_of_def)
  show ?thesis
  proof (cases "?i = 128")
    case True
    then have "print_char c s = s" "unat ?i = 128" by (simp_all add: print_char_def)
    then show ?thesis using assms len by (simp add: ed_edit_def fun_upd_idem)
  next
    case False
    then have lt: "?i < 128" using kb_inv_vis [OF assms] by (auto simp: line_ok_def less_le)
    then have "unat ?i < 128" by (simp add: word_less_nat_alt)
    then have f: "ed_edit (\<lambda>l. if length l = 128 then l else l @ [?ch]) (abs_ed s) = ed_edit (\<lambda>l. l @ [?ch]) (abs_ed s)"
      using len by (simp add: ed_edit_def)
    have p: "print_char c s = (if ?ch = 0 then sti s else sti (putc ?v ?ch ?s1))"
      using False by (simp add: print_char_def Let_def)
    note e = edits_abs [OF edits_append [OF assms lt, of ?ch] assms]
    have "abs_ed ?s1 = ed_edit (\<lambda>l. l @ [?ch]) (abs_ed s)" using e(2) by (simp add: ed_ready_id)
    then show ?thesis unfolding ch f p using e(1) assms by simp
  qed
qed

lemma abs_ed_vis: "ed_vis (abs_ed s) = vis_term_id s" "ed_ctrl (abs_ed s) = ctrl s" "ed_alt (abs_ed s) = alt s" "ed_caps (abs_ed s) = caps_lock s"
  by (simp_all add: abs_ed_def)

lemma kb_inv_flags [simp]:
  "kb_inv (s\<lparr>ctrl := x\<rparr>) = kb_inv s" "kb_inv (s\<lparr>alt := x\<rparr>) = kb_inv s" "kb_inv (s\<lparr>caps_lock := x\<rparr>) = kb_inv s"
  "kb_inv (s\<lparr>l_shift := x\<rparr>) = kb_inv s" "kb_inv (s\<lparr>r_shift := x\<rparr>) = kb_inv s"
  "kb_inv (s\<lparr>rtc_loop := x\<rparr>) = kb_inv s" "kb_inv (s\<lparr>rtc_freq := f\<rparr>) = kb_inv s"
  by (rule kb_same_line(5), simp)+

lemma key_down_fkey:
  assumes "kb_inv s" and "c \<in> {F1_KEY_P, F2_KEY_P, F3_KEY_P}"
  shows "\<exists>s'. key_down c s = Some s' \<and> kb_inv s' \<and> abs_ed s' = ed_press (abs_ed s) c"
proof -
  let ?t = "uint c - uint F1_KEY_P"
  have t: "?t \<in> {0..<3}" using assms(2) by (elim insertE) simp_all
  have "key_down c s = Some (sti (if alt s \<and> vis_term_id s \<noteq> ?t then switch_terminal ?t s else s))"
    using assms(2) by (elim insertE) (simp_all add: key_down_def)
  moreover have "ed_press (abs_ed s) c = (if alt s then (abs_ed s)\<lparr>ed_vis := ?t\<rparr> else abs_ed s)"
    using assms(2) by (elim insertE) (simp_all add: ed_press_def abs_ed_vis)
  moreover have "(abs_ed s)\<lparr>ed_vis := vis_term_id s\<rparr> = abs_ed s" by (simp add: abs_ed_def)
  ultimately show ?thesis
    using press_switch [OF assms(1) t] assms(1) by (cases "vis_term_id s = ?t"; cases "alt s") simp_all
qed

lemma key_down_rtc:
  assumes "kb_inv s" and "ctrl s"
  shows "\<exists>s'. key_down FOUR_KEY_P s = Some s' \<and> kb_inv s' \<and> abs_ed s' = ed_press (abs_ed s) FOUR_KEY_P"
    and "\<exists>s'. key_down FIVE_KEY_P s = Some s' \<and> kb_inv s' \<and> abs_ed s' = ed_press (abs_ed s) FIVE_KEY_P"
proof -
  let ?s = "s\<lparr>rtc_freq := push_bit 1 (rtc_freq s)\<rparr>"
  let ?s' = "if rtc_freq ?s > 0x400 then ?s\<lparr>rtc_freq := 2\<rparr> else ?s"
  have same: "abs_ed ?s' = abs_ed s" "kb_inv ?s'" using assms(1) by simp_all
  have "key_down FOUR_KEY_P s = Some (sti (snd (rtc_set_freq (rtc_freq ?s') 0 ?s')))"
    using assms(2) by (simp add: key_down_def Let_def)
  then show "\<exists>s'. key_down FOUR_KEY_P s = Some s' \<and> kb_inv s' \<and> abs_ed s' = ed_press (abs_ed s) FOUR_KEY_P"
    using same kb_same_line(5) [OF kb_same_rtc, of "rtc_freq ?s'" 0 ?s'] assms(2)
    by (simp only: abs_ed_flag abs_ed_rtc option.inject ex_simps) (simp add: ed_press_def abs_ed_vis abs_ed_rtc)
  show "\<exists>s'. key_down FIVE_KEY_P s = Some s' \<and> kb_inv s' \<and> abs_ed s' = ed_press (abs_ed s) FIVE_KEY_P"
    using assms by (simp add: key_down_def ed_press_def abs_ed_vis)
qed

definition mod_keys :: "u8 set" where
  "mod_keys = {CTRL_KEY_P, ALT_KEY_P, L_SHIFT_P, R_SHIFT_P, CAPS_LOCK_P}"

lemma key_down_mod:
  "kb_inv s \<Longrightarrow> c \<in> mod_keys \<Longrightarrow> \<exists>s'. key_down c s = Some s' \<and> kb_inv s' \<and> abs_ed s' = ed_press (abs_ed s) c"
  unfolding mod_keys_def by (elim insertE) (simp_all add: key_down_def ed_press_def abs_ed_vis)

lemma key_down_char:
  assumes "c \<notin> mod_keys" and "c \<notin> {BACKSPACE_P, ENTER_KEY_P, F1_KEY_P, F2_KEY_P, F3_KEY_P, UP_KEY_P, DOWN_KEY_P}"
    and "\<not> (c \<in> {L_KEY_P, FOUR_KEY_P, FIVE_KEY_P} \<and> ctrl s)"
  shows "key_down c s = Some (print_char c s)"
    and "ed_press (abs_ed s) c = (if ed_char (abs_ed s) c = 0 then abs_ed s
          else ed_edit (\<lambda>l. if length l = 128 then l else l @ [ed_char (abs_ed s) c]) (abs_ed s))"
proof -
  have c: "c \<noteq> BACKSPACE_P" "c \<noteq> ENTER_KEY_P" "c \<noteq> CTRL_KEY_P" "c \<noteq> ALT_KEY_P" "\<not> (c = L_KEY_P \<and> ctrl s)" "c \<noteq> L_SHIFT_P"
    "c \<noteq> R_SHIFT_P" "c \<noteq> CAPS_LOCK_P" "\<not> (c = F1_KEY_P \<or> c = F2_KEY_P \<or> c = F3_KEY_P)" "c \<notin> {F1_KEY_P, F2_KEY_P, F3_KEY_P}" "c \<noteq> UP_KEY_P" "c \<noteq> DOWN_KEY_P"
    "\<not> (c = FOUR_KEY_P \<and> ctrl s)" "\<not> (c = FIVE_KEY_P \<and> ctrl s)" "\<not> (c \<in> {FOUR_KEY_P, FIVE_KEY_P} \<and> ctrl s)"
    using assms unfolding mod_keys_def by blast+
  show "key_down c s = Some (print_char c s)" unfolding key_down_def by (simp only: c if_False)
  show "ed_press (abs_ed s) c = (if ed_char (abs_ed s) c = 0 then abs_ed s
          else ed_edit (\<lambda>l. if length l = 128 then l else l @ [ed_char (abs_ed s) c]) (abs_ed s))"
    unfolding ed_press_def abs_ed_vis by (simp only: c if_False)
qed

lemma key_down_spec:
  assumes "kb_inv s" and "c \<noteq> UP_KEY_P" and "c \<noteq> DOWN_KEY_P"
  shows "\<exists>s'. key_down c s = Some s' \<and> kb_inv s' \<and> abs_ed s' = ed_press (abs_ed s) c"
proof -
  consider "c \<in> mod_keys" | "c \<in> {F1_KEY_P, F2_KEY_P, F3_KEY_P}" | "c = BACKSPACE_P" | "c = ENTER_KEY_P"
    | "c = L_KEY_P" "ctrl s" | "c = FOUR_KEY_P" "ctrl s" | "c = FIVE_KEY_P" "ctrl s"
    | "c \<notin> mod_keys" "c \<notin> {BACKSPACE_P, ENTER_KEY_P, F1_KEY_P, F2_KEY_P, F3_KEY_P, UP_KEY_P, DOWN_KEY_P}"
      "\<not> (c \<in> {L_KEY_P, FOUR_KEY_P, FIVE_KEY_P} \<and> ctrl s)"
    using assms(2,3) by blast
  then show ?thesis
  proof cases
    case 3
    then show ?thesis using press_backspace [OF assms(1)] by (simp add: key_down_def ed_press_def)
  next
    case 4
    then show ?thesis using press_enter [OF assms(1)] by (simp add: key_down_def ed_press_def abs_ed_vis)
  next
    case 5
    then show ?thesis using press_clear [OF assms(1)] by (auto simp: key_down_def ed_press_def abs_ed_vis)
  next
    case 8
    show ?thesis using press_char [OF assms(1), of c] unfolding key_down_char [OF 8] by simp
  qed (use assms(1) key_down_mod key_down_fkey key_down_rtc in blast)+
qed

lemma process_input_spec:
  assumes "kb_inv s" and "c \<noteq> UP_KEY_P" and "c \<noteq> DOWN_KEY_P"
  shows "\<exists>s'. process_input c s = Some s' \<and> kb_inv s' \<and> abs_ed s' = ed_key (abs_ed s) c"
proof (cases "c < 0x80")
  case True
  then show ?thesis using key_down_spec [of "cli s" c] assms by (simp add: process_input_def ed_key_def)
next
  case False
  then show ?thesis using assms(1) by (simp add: process_input_def ed_key_def key_up_def ed_release_def)
qed

text \<open>A sequence of scan codes; the arrow keys are left out.\<close>

definition typed :: "kernel \<Rightarrow> u8 \<Rightarrow> kernel" where
  "typed s c = (if c = UP_KEY_P \<or> c = DOWN_KEY_P then s else the (process_input c s))"

definition ed_typed :: "editor \<Rightarrow> u8 \<Rightarrow> editor" where
  "ed_typed e c = (if c = UP_KEY_P \<or> c = DOWN_KEY_P then e else ed_key e c)"

interpretation kb: simulation typed kb_inv abs_ed ed_typed
proof
  fix s :: kernel and c assume "kb_inv s"
  then show "kb_inv (typed s c)" "abs_ed (typed s c) = ed_typed (abs_ed s) c"
    using process_input_spec [of s c] by (auto simp: typed_def ed_typed_def)
qed

subsection \<open>The command history\<close>

text \<open>
  The arrow keys recall a command of the history. The elements of the history end within their array,
  which the copies into them keep.
\<close>

definition hist_ok :: "kernel \<Rightarrow> bool" where
  "hist_ok s \<longleftrightarrow> (\<forall>v \<in> {0..<3}. \<forall>i < 10. mem s (HistBuf v i, 128) = 0)"

lemma hist_ok_same: "kb_same s' s \<Longrightarrow> hist_ok s' = hist_ok s"
  by (simp add: hist_ok_def kb_same_def)

text \<open>The length of what an element of the history holds, or of the tail of the line buffer.\<close>

lemma strlen_hist:
  assumes "kb_inv s" and "hist_ok s" and "v \<in> {0..<3}" and "hist_ptr v i = Some p"
  shows "\<exists>n \<le> 128. strlen (rdr (mem s) p) = Some n"
proof -
  obtain k where k: "k \<le> 128" "rdr (mem s) p k = 0"
  proof (cases "i < 10")
    case True
    then have "rdr (mem s) p 128 = 0" using assms by (auto simp: hist_ptr_def hist_ok_def rdr_def padd_def)
    then show ?thesis using that by blast
  next
    case False
    then have "p = (KeyBuf v, 11)" using assms(4) by (simp add: hist_ptr_def split: if_splits)
    then have "rdr (mem s) p 117 = 0" using assms(1,3) by (simp add: kb_inv_def line_ok_def rdr_def padd_def)
    then show ?thesis using that [of 117] by simp
  qed
  then obtain n where "strlen (rdr (mem s) p) = Some n" using strlen_None_iff by (metis option.exhaust)
  moreover from this have "n \<le> 128" using k by (simp add: strlen_Some_iff) (metis not_le order_trans)
  ultimately show ?thesis by blast
qed

lemma echo_same: "kb_same (echo k i s) s \<and> console.more (echo k i s) = console.more s"
proof (induction k arbitrary: i s)
  case (Suc k)
  let ?s = "putc (vis_term_id s) (mem s (KeyBuf (vis_term_id s), i)) s"
  show ?case using Suc.IH [of "i + 1" ?s] by (auto intro: kb_same_trans [OF kb_same_putc])
qed simp

lemma backspaces_inv: "kb_inv s \<Longrightarrow> kb_inv (backspaces k s) \<and> vis_term_id (backspaces k s) = vis_term_id s"
proof (induction k arbitrary: s)
  case (Suc k)
  have "vis_term_id (backspace_key t) = vis_term_id t" for t by (simp add: backspace_key_def Let_def)
  then show ?case using Suc.IH [of "sti (backspace_key (cli s))"] Suc.prems press_backspace [of "cli s"] by simp
qed simp

lemma hist_backspaces: "hist_ok s \<Longrightarrow> hist_ok (backspaces k s)"
proof (induction k arbitrary: s)
  case (Suc k)
  have "mem (backspace_key t) (HistBuf v i, a) = mem t (HistBuf v i, a)" for t v i a
    by (simp add: backspace_key_def Let_def mem_putc_block)
  then show ?case using Suc.IH [of "sti (backspace_key (cli s))"] Suc.prems by (simp add: hist_ok_def)
qed simp

lemma clear_buffer_inv:
  assumes "kb_inv s" and "hist_ok s"
  shows "\<exists>s'. clear_buffer s = Some s' \<and> kb_inv s' \<and> hist_ok s' \<and> vis_term_id s' = vis_term_id s"
proof -
  obtain s' where s': "clear_buffer s = Some s'" "edits s (\<lambda>_. []) s'" using edits_clear kb_inv_vis [OF assms(1)] by blast
  have "mem s' (HistBuf v i, a) = mem s (HistBuf v i, a)" for v i a
    using s'(1) by (auto simp: clear_buffer_def Let_def memset_eq write_list_other_block Option.bind_eq_Some_conv)
  then show ?thesis using s' edits_abs(1) [OF s'(2) assms(1)] assms(2) by (auto simp: hist_ok_def edits_def Let_def)
qed

lemma recall_inv:
  assumes "kb_inv s" and "hist_ok s" and "n \<le> 128" and "fst p \<noteq> KeyBuf (vis_term_id s) \<or> snd p = 11"
  shows "kb_inv (recall p n k s) \<and> hist_ok (recall p n k s)"
proof -
  let ?v = "vis_term_id s"
  let ?s1 = "upd_term ?v (\<lambda>t. t\<lparr>cur_hist_index := cur_hist_index t + k, key_buf_index := of_nat n\<rparr>)
      (upd_mem (\<lambda>m. memcpy m (KeyBuf ?v, 0) p (of_nat n)) s)"
  have r: "recall p n k s = echo n 0 ?s1" by (simp add: recall_def Let_def)
  have n: "unat (of_nat n :: u32) = n" using assms(3) by (simp add: unat_of_nat_u32)
  have "2 ^ 7 \<le> unat (- 11 :: u32)" by simp
  then have "fwd_ok (KeyBuf ?v, 0) p n" using assms(3,4) by (auto simp: fwd_ok_def)
  then have cp: "memcpy m (KeyBuf ?v, 0) p (of_nat n) = write_list m (KeyBuf ?v, 0) (read_list m p n)" for m
    using n by (simp add: memcpy_eq)
  have "kb_inv ?s1" "hist_ok ?s1"
    using assms(1-3) n by (auto simp: kb_inv_def hist_ok_def terms_inv_def terms_ok_def line_ok_def cp word_le_nat_alt
        write_list_apply in_range_def write_list_other_block)
  then show ?thesis unfolding r using echo_same [of n 0 ?s1] by (auto simp: kb_same_line(5) hist_ok_same)
qed

lemma clear_cur_cmd_inv:
  assumes "kb_inv s" and "hist_ok s"
  shows "\<exists>s'. clear_cur_cmd s = Some s' \<and> kb_inv s' \<and> hist_ok s' \<and> vis_term_id s' = vis_term_id s"
  using clear_buffer_inv [of "backspaces (nat (sint (key_buf_index (terminals s (vis_term_id s))))) s"]
    backspaces_inv [OF assms(1)] hist_backspaces [OF assms(2)]
  by (simp add: clear_cur_cmd_def)

lemma hist_ptr_target: "hist_ptr v i = Some p \<Longrightarrow> fst p \<noteq> KeyBuf v \<or> snd p = 11"
  by (auto simp: hist_ptr_def split: if_splits)

lemma clear_twice:
  assumes "kb_inv s" and "hist_ok s"
  shows "\<exists>s1 s2. clear_cur_cmd s = Some s1 \<and> clear_buffer s1 = Some s2 \<and> kb_inv s2 \<and> hist_ok s2 \<and> vis_term_id s2 = vis_term_id s"
  using clear_cur_cmd_inv [OF assms] clear_buffer_inv by metis

lemma up_key_inv:
  assumes "kb_inv s" and "hist_ok s" and "up_key s = Some s'"
  shows "kb_inv s' \<and> hist_ok s'"
proof -
  let ?v = "vis_term_id s"
  obtain p n where p: "hist_ptr ?v (cur_hist_index (terminals s ?v) - 1) = Some p" "strlen (rdr (mem s) p) = Some n"
    using assms(3) by (auto simp: up_key_def Option.bind_eq_Some_conv)
  have n: "n \<le> 128" using strlen_hist [OF assms(1,2) _ p(1)] kb_inv_vis [OF assms(1)] p(2) by auto
  obtain s1 s2 where s2: "clear_cur_cmd s = Some s1" "clear_buffer s1 = Some s2" "kb_inv s2" "hist_ok s2" "vis_term_id s2 = ?v"
    using clear_twice [OF assms(1,2)] by blast
  have rc: "kb_inv (recall p n k s2) \<and> hist_ok (recall p n k s2)" for k
    using recall_inv [OF s2(3,4) n, of p k] hist_ptr_target [OF p(1)] s2(5) by simp
  have "s' = s \<or> s' = recall p n (-1) s2" using assms(3) p s2 by (auto simp: up_key_def split: if_splits)
  then show ?thesis using assms(1,2) rc by blast
qed

lemma down_key_inv:
  assumes "kb_inv s" and "hist_ok s" and "down_key s = Some s'"
  shows "kb_inv s' \<and> hist_ok s'"
proof -
  let ?v = "vis_term_id s"
  obtain p n where p: "hist_ptr ?v (cur_hist_index (terminals s ?v) + 1) = Some p" "strlen (rdr (mem s) p) = Some n"
    using assms(3) by (auto simp: down_key_def Option.bind_eq_Some_conv)
  have n: "n \<le> 128" using strlen_hist [OF assms(1,2) _ p(1)] kb_inv_vis [OF assms(1)] p(2) by auto
  obtain s1 s2 where s2: "clear_cur_cmd s = Some s1" "clear_buffer s1 = Some s2" "kb_inv s2" "hist_ok s2" "vis_term_id s2 = ?v"
    using clear_twice [OF assms(1,2)] by blast
  have rc: "kb_inv (recall p n k s2) \<and> hist_ok (recall p n k s2)" for k
    using recall_inv [OF s2(3,4) n, of p k] hist_ptr_target [OF p(1)] s2(5) by simp
  let ?s3 = "upd_term ?v (\<lambda>t. t\<lparr>cur_hist_index := cur_hist_index t + 1\<rparr>) s2"
  have "kb_inv ?s3" "hist_ok ?s3"
    using s2(3,4) by (auto simp: kb_inv_def hist_ok_def terms_inv_def terms_ok_def line_ok_def)
  moreover have "s' = s2 \<or> s' = ?s3 \<or> s' = recall p n 1 s2"
    using assms(3) p s2 by (auto simp: down_key_def Option.bind_eq_Some_conv split: if_splits)
  ultimately show ?thesis using s2(3,4) rc by blast
qed

text \<open>No other key writes to the history.\<close>

lemma hist_clear_buffer: "clear_buffer s = Some s' \<Longrightarrow> mem s' (HistBuf v i, a) = mem s (HistBuf v i, a)"
  by (auto simp: clear_buffer_def Let_def memset_eq write_list_other_block Option.bind_eq_Some_conv)

lemma hist_frames:
  "mem (backspace_key s) (HistBuf v i, a) = mem s (HistBuf v i, a)" "mem (enter_key s) (HistBuf v i, a) = mem s (HistBuf v i, a)"
  "mem (print_char c s) (HistBuf v i, a) = mem s (HistBuf v i, a)"
  "mem (clear_screen s) (HistBuf v i, a) = mem s (HistBuf v i, a)" "mem (snd (rtc_set_freq f n s)) (HistBuf v i, a) = mem s (HistBuf v i, a)"
  using kb_same_clear_screen [of s] kb_same_rtc [of f n s]
  by (simp_all add: backspace_key_def enter_key_def print_char_def Let_def mem_putc_block kb_same_def)

lemma hist_switch: "kb_inv s \<Longrightarrow> mem (switch_terminal new s) (HistBuf v i, a) = mem s (HistBuf v i, a)"
  using switch_terminal_spec(4) [of s new] switch_terminal_refused [of new s]
  by (cases "new \<in> {0..<3}") (auto simp: kb_inv_def terms_inv_def)

lemma hist_key_down:
  assumes "kb_inv s" and "c \<noteq> UP_KEY_P" and "c \<noteq> DOWN_KEY_P" and "key_down c s = Some s'"
  shows "mem s' (HistBuf v i, a) = mem s (HistBuf v i, a)"
  using assms(2-4) hist_switch [OF assms(1)]
  by (auto simp: key_down_def Let_def hist_frames dest!: hist_clear_buffer split: if_splits)

lemma process_input_inv:
  assumes "kb_inv s" and "hist_ok s" and "process_input c s = Some s'"
  shows "kb_inv s' \<and> hist_ok s'"
proof -
  have cli: "kb_inv (cli s)" "hist_ok (cli s)" "\<And>t. hist_ok (sti t) = hist_ok t" using assms(1,2) by (simp_all add: hist_ok_def)
  consider "c = UP_KEY_P" | "c = DOWN_KEY_P" | "c \<noteq> UP_KEY_P" "c \<noteq> DOWN_KEY_P" "c < 0x80" | "\<not> c < 0x80" by blast
  then show ?thesis
  proof cases
    case 1
    then show ?thesis using assms(3) up_key_inv [OF cli(1,2)] cli(3) by (auto simp: process_input_def key_down_def)
  next
    case 2
    then show ?thesis using assms(3) down_key_inv [OF cli(1,2)] cli(3) by (auto simp: process_input_def key_down_def)
  next
    case 3
    then show ?thesis
      using process_input_spec [OF assms(1), of c] hist_key_down [OF cli(1), of c s'] assms(2,3)
      by (simp add: process_input_def hist_ok_def)
  next
    case 4
    then show ?thesis using assms by (auto simp: process_input_def key_up_def hist_ok_def)
  qed
qed

subsection \<open>Sequences of keys\<close>

fun keys :: "u8 list \<Rightarrow> kernel \<Rightarrow> kernel option" where
  "keys [] s = Some s"
| "keys (c # cs) s = do { s \<leftarrow> process_input c s; keys cs s }"

definition no_arrows :: "u8 list \<Rightarrow> bool" where
  "no_arrows cs \<longleftrightarrow> UP_KEY_P \<notin> set cs \<and> DOWN_KEY_P \<notin> set cs"

lemma keys_typed: "kb_inv s \<Longrightarrow> no_arrows cs \<Longrightarrow> keys cs s = Some (run typed s cs) \<and> run ed_typed e cs = run ed_key e cs"
proof (induction cs arbitrary: s e)
  case (Cons c cs)
  have c: "c \<noteq> UP_KEY_P" "c \<noteq> DOWN_KEY_P" "no_arrows cs" using Cons.prems(2) by (auto simp: no_arrows_def)
  obtain s' where "process_input c s = Some s'" "kb_inv s'" using process_input_spec [OF Cons.prems(1) c(1,2)] by blast
  then show ?case using Cons.IH [OF _ c(3)] c(1,2) by (simp add: typed_def ed_typed_def)
qed simp

lemma keys_spec:
  "kb_inv s \<Longrightarrow> no_arrows cs \<Longrightarrow> \<exists>s'. keys cs s = Some s' \<and> kb_inv s' \<and> abs_ed s' = run ed_key (abs_ed s) cs"
  using keys_typed [of s cs "abs_ed s"] kb.inv_run [of s cs] kb.abs_run [of s cs] by auto

text \<open>
  The elements of the history that an arrow key reads are elements of the array: one for the up key, two for the down
  key. \<open>arrows_in_range\<close>: this holds whenever an arrow key of the sequence is pressed.
\<close>

definition hist_in_range :: "u8 \<Rightarrow> kernel \<Rightarrow> bool" where
  "hist_in_range c s \<longleftrightarrow> (let i = cur_hist_index (terminals s (vis_term_id s)) in
     (c = UP_KEY_P \<longrightarrow> 1 \<le> i \<and> i \<le> HIST_COM_NUM) \<and> (c = DOWN_KEY_P \<longrightarrow> i + 1 < HIST_COM_NUM \<and> i < HIST_COM_NUM))"

fun arrows_in_range :: "u8 list \<Rightarrow> kernel \<Rightarrow> bool" where
  "arrows_in_range [] s = True"
| "arrows_in_range (c # cs) s = (hist_in_range c s \<and> (case process_input c s of None \<Rightarrow> True | Some s' \<Rightarrow> arrows_in_range cs s'))"

text \<open>Then the key is processed to its end; no other key can fail.\<close>

lemma up_key_returns:
  assumes "kb_inv s" and "hist_ok s" and "hist_in_range UP_KEY_P s"
  shows "\<exists>s'. up_key s = Some s'"
proof -
  let ?v = "vis_term_id s" and ?i = "cur_hist_index (terminals s (vis_term_id s)) - 1"
  have "?i < 10" using assms(3) by (auto simp: hist_in_range_def Let_def word_less_nat_alt word_le_nat_alt unat_sub)
  then have p: "hist_ptr ?v ?i = Some (HistBuf ?v ?i, 0)" by (simp add: hist_ptr_def)
  obtain n where n: "strlen (rdr (mem s) (HistBuf ?v ?i, 0)) = Some n" using strlen_hist [OF assms(1,2) _ p] kb_inv_vis [OF assms(1)] by auto
  obtain s1 s2 where "clear_cur_cmd s = Some s1" "clear_buffer s1 = Some s2" using clear_twice [OF assms(1,2)] by blast
  then show ?thesis using p n by (simp add: up_key_def)
qed

lemma down_key_returns:
  assumes "kb_inv s" and "hist_ok s" and "hist_in_range DOWN_KEY_P s"
  shows "\<exists>s'. down_key s = Some s'"
proof -
  let ?v = "vis_term_id s" and ?i = "cur_hist_index (terminals s (vis_term_id s))"
  have "?i < 10" "?i + 1 < 10" using assms(3) by (simp_all add: hist_in_range_def Let_def)
  then have p: "hist_ptr ?v ?i = Some (HistBuf ?v ?i, 0)" "hist_ptr ?v (?i + 1) = Some (HistBuf ?v (?i + 1), 0)" by (simp_all add: hist_ptr_def)
  obtain n n' where n: "strlen (rdr (mem s) (HistBuf ?v ?i, 0)) = Some n" "strlen (rdr (mem s) (HistBuf ?v (?i + 1), 0)) = Some n'"
    using strlen_hist [OF assms(1,2) _ p(1)] strlen_hist [OF assms(1,2) _ p(2)] kb_inv_vis [OF assms(1)] by auto
  obtain s1 s2 where "clear_cur_cmd s = Some s1" "clear_buffer s1 = Some s2" using clear_twice [OF assms(1,2)] by blast
  then show ?thesis using p n by (simp add: down_key_def)
qed

lemma process_input_returns:
  assumes "kb_inv s" and "hist_ok s" and "hist_in_range c s"
  shows "\<exists>s'. process_input c s = Some s'"
proof -
  have cli: "kb_inv (cli s)" "hist_ok (cli s)" "hist_in_range c (cli s)" using assms by (simp_all add: hist_ok_def hist_in_range_def)
  consider "c = UP_KEY_P" | "c = DOWN_KEY_P" | "c \<noteq> UP_KEY_P" "c \<noteq> DOWN_KEY_P" by blast
  then show ?thesis
  proof cases
    case 1
    then show ?thesis using up_key_returns [OF cli(1,2)] cli(3) by (auto simp: process_input_def key_down_def)
  next
    case 2
    then show ?thesis using down_key_returns [OF cli(1,2)] cli(3) by (auto simp: process_input_def key_down_def)
  next
    case 3
    then show ?thesis using process_input_spec [OF assms(1), of c] by blast
  qed
qed

lemma keys_return: "kb_inv s \<Longrightarrow> hist_ok s \<Longrightarrow> arrows_in_range cs s \<Longrightarrow> \<exists>s'. keys cs s = Some s' \<and> kb_inv s' \<and> hist_ok s'"
proof (induction cs arbitrary: s)
  case (Cons c cs)
  obtain s1 where s1: "process_input c s = Some s1" using process_input_returns [OF Cons.prems(1,2)] Cons.prems(3) by auto
  then show ?case using Cons.IH [of s1] process_input_inv [OF Cons.prems(1,2) s1] Cons.prems(3) by simp
qed simp

text \<open>A line of the editor has no NUL in it and fits the buffer.\<close>

definition ed_ok :: "editor \<Rightarrow> bool" where
  "ed_ok e \<longleftrightarrow> (\<forall>v. 0 \<notin> set (ed_line e v))"

lemma ed_key_ok: "ed_ok e \<Longrightarrow> ed_ok (ed_key e c)"
  by (auto simp: ed_key_def ed_press_def ed_release_def ed_edit_def ed_ok_def dest: in_set_butlastD)

interpretation ed: stepper ed_key ed_ok
  by unfold_locales (rule ed_key_ok)

text \<open>What Enter leaves in the buffer: the line, cut to 127 characters, with the newline and the NUL.\<close>

lemma enter_key_line:
  assumes "kb_inv s" and "0 \<notin> set (line_of s (vis_term_id s))"
  shows "cstr (rdr (mem (enter_key s)) (KeyBuf (vis_term_id s), 0)) (take 127 (line_of s (vis_term_id s)) @ [10])"
proof -
  let ?v = "vis_term_id s" and ?l = "take 127 (line_of s (vis_term_id s))"
  define i where "i = (if key_buf_index (terminals s ?v) < 128 then key_buf_index (terminals s ?v) else 127)"
  have le: "unat (key_buf_index (terminals s ?v)) \<le> 128" using kb_inv_vis [OF assms(1)] by (simp add: line_ok_def word_le_nat_alt)
  have i: "unat i = length ?l" using le by (auto simp: i_def line_of_def word_less_nat_alt min_def)
  have of_i: "i = of_nat (length ?l)" using arg_cong [OF i, of "of_nat :: nat \<Rightarrow> u32"] by simp
  have m: "mem (enter_key s) (KeyBuf ?v, a) = (if a = i + 1 then 0 else if a = i then 10 else mem s (KeyBuf ?v, a))" for a
    by (simp add: enter_key_def Let_def mem_putc_block i_def)
  have "rdr (mem (enter_key s)) (KeyBuf ?v, 0) j = (?l @ [10, 0]) ! j" if "j < length ?l + 2" for j
  proof -
    have l: "length ?l \<le> 127" by simp
    have eq: "of_nat j = i \<longleftrightarrow> j = length ?l" "of_nat j = i + 1 \<longleftrightarrow> j = length ?l + 1"
      using of_nat_u32_inj [of j "length ?l"] of_nat_u32_inj [of j "length ?l + 1"] that l unfolding of_i by (simp_all add: add.commute min_less_iff_disj)
    show ?thesis
      using that l by (auto simp: rdr_def padd_def m eq nth_append nth_Cons line_of_def less_Suc_eq split: nat.split)
  qed
  then have "\<forall>j < length ?l + 2. rdr (mem (enter_key s)) (KeyBuf ?v, 0) j = (?l @ [10, 0]) ! j" by blast
  moreover have "0 \<notin> set ?l" using assms(2) by (auto dest: in_set_takeD)
  ultimately show ?thesis by (auto simp: cstr_def nth_append)
qed

subsection \<open>Properties\<close>

text \<open>
  C4: The keyboard driver is a line editor. For every sequence of scan codes without the arrow keys, including
  modifiers, backspace, Enter, clearing, terminal switches and codes that mean nothing, processing always
  returns, and the lines of the three terminals, the visible terminal, the finished lines and the modifier
  state are those of the pure editor: the key maps select the character, the 129th character is dropped,
  backspace at an empty line does nothing.\<close>

theorem keyboard_line_editor:
  assumes "kb_inv s" and "no_arrows cs"
  shows "\<exists>s'. keys cs s = Some s' \<and> kb_inv s' \<and> abs_ed s' = run ed_key (abs_ed s) cs"
  using assms by (rule keys_spec)

text \<open>
  C24: The bounds of the keyboard's arrays. For every sequence of scan codes in which an arrow key is pressed only
  where the elements of the history it reads exist (position 1 to 10 for the up key, 0 to 8 for the down key), every key
  is processed to its end, the index of each terminal's line buffer is at most 128, and the last byte of
  each line buffer and of each element of the history is NUL. So an arrow key pressed at another position is the
  only way to leave an array; the driver does not test for it.\<close>

theorem key_buffers_in_bounds:
  assumes "kb_inv s" and "hist_ok s" and "arrows_in_range cs s"
  shows "\<exists>s'. keys cs s = Some s' \<and> (\<forall>v \<in> {0..<3}. key_buf_index (terminals s' v) \<le> 128 \<and> mem s' (KeyBuf v, 128) = 0 \<and> (\<forall>i < 10. mem s' (HistBuf v i, 128) = 0))"
  using keys_return [OF assms] by (fastforce simp: kb_inv_def line_ok_def hist_ok_def)

lemma sample_kb: "kb_inv (multi_term_init (blank_kernel (\<lambda>_. 0)))" "hist_ok (multi_term_init (blank_kernel (\<lambda>_. 0)))"
proof -
  let ?s = "multi_term_init (blank_kernel (\<lambda>_. 0))"
  have "terms_inv ?s" by (rule multi_term_init_ok) (simp_all add: blank_kernel_def our_popcount_def)
  moreover have "mem ?s = (\<lambda>_. 0)" "key_buf_index (terminals ?s v) = 0" for v
    by (simp_all add: multi_term_init_def init_term_def blank_kernel_def sample_term_def)
  ultimately show "kb_inv ?s" "hist_ok ?s" by (simp_all add: kb_inv_def line_ok_def hist_ok_def)
qed

theorem keyboard_line_editor_witness:
  "\<exists>s'. keys [0x2A, 0x23, 0xAA, 0x17, 0x17, 0x0E] (multi_term_init (blank_kernel (\<lambda>_. 0))) = Some s'
     \<and> ed_line (abs_ed s') 0 = bytes_of ''Hi''"
proof -
  let ?s = "multi_term_init (blank_kernel (\<lambda>_. 0))"
  have "abs_ed ?s = \<lparr>ed_vis = 0, ed_line = (\<lambda>_. []), ed_ready = (\<lambda>_. False), ed_ctrl = False, ed_alt = False,
      ed_caps = False, ed_lshift = False, ed_rshift = False\<rparr>"
    by (simp add: abs_ed_def line_of_def multi_term_init_def init_term_def blank_kernel_def sample_term_def fun_eq_iff)
  then have "ed_line (run ed_key (abs_ed ?s) [0x2A, 0x23, 0xAA, 0x17, 0x17, 0x0E]) 0 = bytes_of ''Hi''"
    by (simp add: ed_key_def ed_press_def ed_release_def ed_char_def ed_edit_def key_map_def shift_key_map_def reg_key_map_def)
  then show ?thesis
    using keyboard_line_editor [OF sample_kb(1), of "[0x2A, 0x23, 0xAA, 0x17, 0x17, 0x0E]"] by (auto simp: no_arrows_def)
qed

text \<open>The first terminal with one command in its history, at the position after it.\<close>

definition sample_hist :: kernel where
  "sample_hist = upd_term 0 (\<lambda>t. t\<lparr>hist_buf_index := 1, cur_hist_index := 1\<rparr>)
     (multi_term_init (blank_kernel ((\<lambda>_. 0)((HistBuf 0 0, 0) := 0x61))))"

theorem key_buffers_in_bounds_witness:
  "\<exists>s'. keys [UP_KEY_P, 0x1E] sample_hist = Some s' \<and> (\<forall>v \<in> {0..<3}. key_buf_index (terminals s' v) \<le> 128)"
proof -
  let ?s = "multi_term_init (blank_kernel ((\<lambda>_. 0)((HistBuf 0 0, 0) := 0x61)))"
  have "terms_inv ?s" by (rule multi_term_init_ok) (simp_all add: blank_kernel_def our_popcount_def)
  moreover have "mem ?s = (\<lambda>_. 0)((HistBuf 0 0, 0) := 0x61)" "key_buf_index (terminals ?s v) = 0" for v
    by (simp_all add: multi_term_init_def init_term_def blank_kernel_def sample_term_def)
  ultimately have inv: "kb_inv sample_hist" "hist_ok sample_hist"
    by (auto simp: sample_hist_def kb_inv_def line_ok_def hist_ok_def terms_inv_def terms_ok_def)
  have "vis_term_id sample_hist = 0" by (simp add: sample_hist_def multi_term_init_def init_term_def blank_kernel_def)
  then have "arrows_in_range [UP_KEY_P, 0x1E] sample_hist"
    by (simp add: hist_in_range_def split: option.split) (simp add: sample_hist_def)
  from key_buffers_in_bounds [OF inv this] show ?thesis by blast
qed

end
