(* ===== verification/Terminal.thy ===== *)
theory Terminal
  imports Keyboard
begin

text \<open>
  The terminal driver, \<^verbatim>\<open>student-distrib/terminal.c\<close>: the operations behind \<^verbatim>\<open>stdin\<close> and \<^verbatim>\<open>stdout\<close>. The main results:
  a read returns exactly when a line has been entered, with that line; a write leaves the bytes on the
  screen of the scheduled terminal.
\<close>

subsection \<open>The code\<close>

definition terminal_open :: "kernel \<Rightarrow> (int \<times> kernel) option" where
  "terminal_open s = do {
     (_, s) \<leftarrow> open_file_desc (cur_pcb s) (lit ''stdin'') s;
     (_, s) \<leftarrow> open_file_desc (cur_pcb s) (lit ''stdout'') s;
     Some (0, s)
   }"

definition terminal_close :: "u32 \<Rightarrow> kernel \<Rightarrow> int \<times> kernel" where
  "terminal_close fd s = (-1, s)"

text \<open>The busy wait is \<^const>\<open>await\<close>: the keyboard interrupt sets \<^verbatim>\<open>new_line\<close>.\<close>

definition line_ready :: "kernel \<Rightarrow> bool" where
  "line_ready s = new_line (terminals s (sched_term_id s))"

definition terminal_read :: "handler list \<Rightarrow> ptr \<Rightarrow> int \<Rightarrow> kernel \<Rightarrow> (int \<times> kernel) option" where
  "terminal_read handlers buf nbytes s = do {
     s \<leftarrow> await line_ready handlers s;
     let s = cli s;
     let s = upd_term (sched_term_id s) (\<lambda>t. t\<lparr>new_line := False\<rparr>) s;
     let key_buf = (KeyBuf (sched_term_id s), 0);
     buf_size \<leftarrow> strlen (rdr (mem s) key_buf);
     let s = upd_mem (\<lambda>m. memcpy m buf key_buf (of_int nbytes)) s;
     s \<leftarrow> add_to_history key_buf s;
     s \<leftarrow> clear_buffer s;
     Some (int buf_size, sti s)
   }"

fun write_loop :: "nat \<Rightarrow> ptr \<Rightarrow> kernel \<Rightarrow> kernel" where
  "write_loop 0 p s = s"
| "write_loop (Suc k) p s = write_loop k (padd p 1) (putc (sched_term_id s) (mem s p) s)"

definition terminal_write :: "ptr \<Rightarrow> int \<Rightarrow> kernel \<Rightarrow> int \<times> kernel" where
  "terminal_write buf nbytes s = (nbytes, sti (write_loop (nat nbytes) buf (cli s)))"

subsection \<open>Writing\<close>

lemma write_loop_eq:
  "term_ok (terminals s (sched_term_id s)) \<Longrightarrow> separate (Phys, vid_mem (terminals s (sched_term_id s))) 4000 p k \<Longrightarrow>
   write_loop k p s = puts_loop (sched_term_id s) (read_list (mem s) p k) s"
proof (induction k arbitrary: p s)
  case (Suc k)
  let ?i = "sched_term_id s"
  let ?s = "putc ?i (mem s p) s"
  have sep: "separate (Phys, vid_mem (terminals s ?i)) 4000 (padd p 1) k"
    using separate_mono [OF Suc.prems(2), of 4000 1 k] by simp
  have "read_list (mem ?s) (padd p 1) k = read_list (mem s) (padd p 1) k"
    using sep by (intro read_list_cong mem_putc_frame [OF Suc.prems(1)]) (simp add: separate_def)
  moreover have "write_loop k (padd p 1) ?s = puts_loop ?i (read_list (mem ?s) (padd p 1) k) ?s"
    using Suc.IH [of ?s "padd p 1"] putc_abs [OF Suc.prems(1)] sep by simp
  ultimately show ?case by (simp add: read_list_Suc)
qed simp

subsection \<open>Reading a line\<close>

lemma clear_buffer_frame: "clear_buffer s = Some s' \<Longrightarrow> fst q \<noteq> KeyBuf (vis_term_id s) \<Longrightarrow> mem s' q = mem s q"
  by (auto simp: clear_buffer_def Let_def memset_eq write_list_other_block Option.bind_eq_Some_conv)

lemma clear_buffer_sched: "clear_buffer s = Some s' \<Longrightarrow> sched_term_id s' = sched_term_id s"
  by (auto simp: clear_buffer_def Let_def Option.bind_eq_Some_conv)

lemma sched_process_input: "process_input c s = Some s' \<Longrightarrow> sched_term_id s' = sched_term_id s"
proof -
  have sw: "sched_term_id (swap_screen k n t) = sched_term_id t" for k n t
    by (induction k arbitrary: t) (simp_all add: Let_def)
  have bs: "sched_term_id (backspace_key t) = sched_term_id t" for t by (simp add: backspace_key_def Let_def)
  have bss: "sched_term_id (backspaces k t) = sched_term_id t" for k t by (induction k arbitrary: t) (simp_all add: bs)
  have ec: "sched_term_id (echo k i t) = sched_term_id t" for k i t by (induction k arbitrary: i t) simp_all
  have cs: "sched_term_id (clear_screen t) = sched_term_id t" for t :: kernel
  proof -
    have "sched_term_id (clear_loop k u) = sched_term_id u" for k and u :: kernel by (induction k arbitrary: u) (simp_all add: Let_def)
    then show ?thesis by (simp add: clear_screen_def)
  qed
  show "process_input c s = Some s' \<Longrightarrow> ?thesis"
    by (auto simp: process_input_def key_down_def key_up_def up_key_def down_key_def recall_def clear_cur_cmd_def enter_key_def print_char_def
        switch_terminal_def switch_screen_def switch_keyboard_and_cursor_pos_def rtc_set_freq_def set_int_freq_def inb_def
        Let_def sw bs bss ec cs Option.bind_eq_Some_conv dest!: clear_buffer_sched split: if_splits)
qed

lemma ready_ed_key: "c \<noteq> ENTER_KEY_P \<Longrightarrow> ed_ready (ed_key e c) = ed_ready e"
  by (simp add: ed_key_def ed_press_def ed_release_def ed_edit_def)

text \<open>Keys other than Enter leave the reader waiting.\<close>

lemma await_keys:
  assumes "kb_inv s" and "iflag s" and "\<not> line_ready s" and "no_arrows cs" and "ENTER_KEY_P \<notin> set cs"
  shows "\<exists>s'. kb_inv s' \<and> (hist_ok s \<longrightarrow> hist_ok s') \<and> iflag s' \<and> \<not> line_ready s' \<and> sched_term_id s' = sched_term_id s \<and> abs_ed s' = run ed_key (abs_ed s) cs
    \<and> (\<forall>rest. await line_ready (map process_input cs @ rest) s = await line_ready rest s')"
  using assms
proof (induction cs arbitrary: s)
  case Nil
  then show ?case by (intro exI [of _ s]) simp
next
  case (Cons c cs)
  have c: "c \<noteq> UP_KEY_P" "c \<noteq> DOWN_KEY_P" "no_arrows cs" "c \<noteq> ENTER_KEY_P" "ENTER_KEY_P \<notin> set cs"
    using Cons.prems(4,5) by (auto simp: no_arrows_def)
  obtain s1 where s1: "process_input c (cli s) = Some s1" "kb_inv s1" "abs_ed s1 = ed_key (abs_ed s) c"
    using process_input_spec [of "cli s" c] Cons.prems(1) c(1,2) by auto
  have "sched_term_id s1 = sched_term_id s" using sched_process_input [OF s1(1)] by simp
  moreover have "ed_ready (abs_ed s1) = ed_ready (abs_ed s)" using s1(3) ready_ed_key [OF c(4)] by simp
  ultimately have "\<not> line_ready (sti s1)" using Cons.prems(3) by (simp add: line_ready_def abs_ed_def fun_eq_iff)
  moreover have "hist_ok s \<longrightarrow> hist_ok (sti s1)"
    using process_input_inv [OF _ _ s1(1)] Cons.prems(1) by (simp add: hist_ok_def)
  ultimately obtain s' where "kb_inv s'" "hist_ok s \<longrightarrow> hist_ok s'" "iflag s'" "\<not> line_ready s'" "sched_term_id s' = sched_term_id s1"
    "abs_ed s' = run ed_key (abs_ed s1) cs" "\<forall>rest. await line_ready (map process_input cs @ rest) (sti s1) = await line_ready rest s'"
    using Cons.IH [of "sti s1"] s1(2) c(3,5) by auto
  then show ?case using Cons.prems(2,3) s1 \<open>sched_term_id s1 = sched_term_id s\<close> by (intro exI [of _ s']) (simp add: take_irq_def)
qed

lemma add_to_history_spec:
  assumes "strlen (rdr (mem s) (KeyBuf w, 0)) = Some (Suc k)" and "k \<le> 127"
  shows "\<exists>s'. add_to_history (KeyBuf w, 0) s = Some s' \<and> vis_term_id s' = vis_term_id s \<and> sched_term_id s' = sched_term_id s
    \<and> (\<forall>q. (\<forall>v i. fst q \<noteq> HistBuf v i) \<longrightarrow> mem s' q = mem s q)
    \<and> (\<forall>v. terminals s' v = (terminals s v)\<lparr>hist_buf_index := hist_buf_index (terminals s' v), cur_hist_index := cur_hist_index (terminals s' v)\<rparr>)
    \<and> console.more s' = console.more s \<and> (hist_ok s \<longrightarrow> hist_ok s')"
proof -
  let ?v = "vis_term_id s"
  let ?h = "hist_buf_index (terminals s ?v)"
  let ?n = "of_nat k :: u32"
  have n: "unat ?n = k" using assms(2) by (simp add: unat_of_nat_u32)
  have cp: "strncpy m (HistBuf ?v ?h, 0) (KeyBuf w, 0) ?n = write_list m (HistBuf ?v ?h, 0) (pad0 k (field_str (read_list m (KeyBuf w, 0) k)))" for m
    using strncpy_eq [of "(HistBuf ?v ?h, 0)" ?n "(KeyBuf w, 0)" m] by (simp add: separate_blocks n)
  have len: "length (pad0 k (field_str (read_list m (KeyBuf w, 0) k))) = k" for m
    using length_field_str [of "read_list m (KeyBuf w, 0) k"] by (simp add: length_pad0)
  have h128: "write_list m (HistBuf ?v ?h, 0) (pad0 k (field_str (read_list m (KeyBuf w, 0) k))) (HistBuf v i, 128) = m (HistBuf v i, 128)" for m v i
    using assms(2) len [of m] by (intro write_list_other) (auto simp: in_range_def)
  show ?thesis
  proof (cases "?h \<ge> 10")
    case True
    then show ?thesis by (intro exI [of _ s]) (simp add: add_to_history_def)
  next
    case False
    then have lt: "unat ?h < 10" by (simp add: word_le_nat_alt)
    have "?h - 1 < 10 \<or> ?h - 1 = -1"
    proof (cases "?h = 0")
      case False
      then show ?thesis using lt by (simp add: word_less_nat_alt unat_minus_one)
    qed simp
    then obtain p where p: "hist_ptr ?v (?h - 1) = Some p" by (auto simp: hist_ptr_def)
    let ?s1 = "upd_term ?v (\<lambda>t. t\<lparr>hist_buf_index := ?h + 1\<rparr>) (upd_mem (\<lambda>m. strncpy m (HistBuf ?v ?h, 0) (KeyBuf w, 0) ?n) s)"
    let ?fin = "upd_term ?v (\<lambda>t. t\<lparr>cur_hist_index := hist_buf_index t\<rparr>)"
    have "add_to_history (KeyBuf w, 0) s = Some (?fin ?s1) \<or> add_to_history (KeyBuf w, 0) s = Some (?fin s)"
      using False p assms by (auto simp: add_to_history_def n Let_def)
    moreover have "mem (?fin ?s1) q = mem s q" if "\<forall>v i. fst q \<noteq> HistBuf v i" for q
      using that by (simp add: cp write_list_other_block)
    moreover have "hist_ok s \<Longrightarrow> hist_ok (?fin ?s1)" "hist_ok s \<Longrightarrow> hist_ok (?fin s)" by (simp_all add: hist_ok_def cp h128)
    ultimately show ?thesis by (elim disjE) (rule exI, rule conjI, assumption, simp)+
  qed
qed

text \<open>The end of a read, once the line is there.\<close>

lemma terminal_read_ready:
  assumes "kb_inv s" and "hist_ok s" and "line_ready s" and v: "sched_term_id s = vis_term_id s" and "fst buf = Phys"
    and l: "cstr (rdr (mem s) (KeyBuf (vis_term_id s), 0)) l" "length l = Suc k" "k \<le> 127" and n: "0 \<le> nbytes" "nbytes < 2 ^ 31"
  shows "\<exists>s'. terminal_read hs buf nbytes s = Some (int (length l), s') \<and> iflag s' \<and> \<not> line_ready s' \<and> kb_inv s' \<and> hist_ok s'
    \<and> line_of s' (vis_term_id s) = [] \<and> (\<forall>j < min (nat nbytes) (length l). mem s' (padd buf (of_nat j)) = l ! j)"
proof -
  let ?v = "vis_term_id s" and ?key = "(KeyBuf (vis_term_id s), 0) :: ptr"
  define s1 where "s1 = upd_term ?v (\<lambda>t. t\<lparr>new_line := False\<rparr>) (cli s)"
  define s2 where "s2 = upd_mem (\<lambda>m. memcpy m buf ?key (of_int nbytes)) s1"
  have un: "unat (of_int nbytes :: u32) = nat nbytes" using n by (simp add: unat_eq_nat_uint uint_word_of_int_eq take_bit_int_eq_self)
  have m2: "mem s2 = write_list (mem s) buf (read_list (mem s) ?key (nat nbytes))"
    using assms(5) by (simp add: s2_def s1_def memcpy_eq fwd_ok_def un)
  have key2: "mem s2 q = mem s q" if "fst q \<noteq> Phys" for q using that assms(5) by (simp add: m2 write_list_other_block)
  have inv2: "kb_inv s2" "hist_ok s2" "vis_term_id s2 = ?v" "sched_term_id s2 = ?v"
    using assms(1,2) v key2 by (auto simp: kb_inv_def hist_ok_def terms_inv_def terms_ok_def line_ok_def s2_def s1_def)
  have key: "rdr (mem s2) ?key = rdr (mem s) ?key" by (rule ext) (simp add: rdr_def key2)
  have len: "strlen (rdr (mem s1) ?key) = Some (length l)" "strlen (rdr (mem s2) ?key) = Some (length l)"
    using cstr_strlen [OF l(1)] key by (simp_all add: s1_def)
  obtain s3 where s3: "add_to_history ?key s2 = Some s3" "vis_term_id s3 = ?v" "sched_term_id s3 = ?v" "console.more s3 = console.more s2"
    "hist_ok s3" "\<forall>q. (\<forall>v i. fst q \<noteq> HistBuf v i) \<longrightarrow> mem s3 q = mem s2 q"
    "\<forall>v. terminals s3 v = (terminals s2 v)\<lparr>hist_buf_index := hist_buf_index (terminals s3 v), cur_hist_index := cur_hist_index (terminals s3 v)\<rparr>"
    using add_to_history_spec [of s2 ?v k] len(2) l(2,3) inv2 by auto
  have t3: "key_buf_index (terminals s3 v) = key_buf_index (terminals s2 v)" "new_line (terminals s3 v) = new_line (terminals s2 v)"
    "vid_mem (terminals s3 v) = vid_mem (terminals s2 v)" for v
    by (subst s3(7) [rule_format], simp)+
  have inv3: "kb_inv s3" using inv2 s3(2,4,6) more_fields(12) [OF s3(4)]
    by (simp add: kb_inv_def terms_inv_def terms_ok_def line_ok_def t3)
  obtain s4 where s4: "clear_buffer s3 = Some s4" "edits s3 (\<lambda>_. []) s4" "new_line (terminals s4 ?v) = new_line (terminals s3 ?v)"
    using edits_clear [of s3] kb_inv_vis [OF inv3] s3(2) by auto
  have frame4: "mem s4 q = mem s3 q" if "fst q = Phys" for q using clear_buffer_frame [OF s4(1)] that by simp
  have "terminal_read hs buf nbytes s = Some (int (length l), sti s4)"
    using assms(3) v len(1) s3(1) s4(1) by (simp add: terminal_read_def s1_def s2_def)
  moreover have "mem (sti s4) (padd buf (of_nat j)) = l ! j" if "j < min (nat nbytes) (length l)" for j
  proof -
    have "mem s4 (padd buf (of_nat j)) = read_list (mem s) ?key (nat nbytes) ! j"
      using that n assms(5) s3(6) [rule_format, of "padd buf (of_nat j)"] by (simp add: frame4 m2 write_list_padd)
    then show ?thesis using that l(1) by (simp add: cstr_def rdr_def)
  qed
  moreover have "\<not> line_ready (sti s4)"
    using s4(1,3) s3(3) t3(2) clear_buffer_sched [OF s4(1)] by (simp add: line_ready_def s2_def s1_def)
  moreover have "line_of (sti s4) ?v = []" using s4(2) s3(2) by (simp add: edits_def Let_def line_of_def)
  moreover have "hist_ok (sti s4)" using s3(5) hist_clear_buffer [OF s4(1)] by (simp add: hist_ok_def)
  ultimately show ?thesis using edits_abs(1) [OF s4(2) inv3] by (intro exI [of _ "sti s4"]) simp
qed

text \<open>A whole read: the keys typed, then Enter.\<close>

lemma terminal_read_typed:
  assumes "kb_inv s" and "hist_ok s" and "iflag s" and "\<not> line_ready s" and "ed_ok (abs_ed s)"
    and cs: "no_arrows cs" "ENTER_KEY_P \<notin> set cs" and e: "e = run ed_key (abs_ed s) cs" "ed_vis e = sched_term_id s"
    and "fst buf = Phys" and n: "0 \<le> nbytes" "nbytes < 2 ^ 31"
  defines "l \<equiv> take 127 (ed_line e (sched_term_id s)) @ [10]"
  shows "terminal_read (map process_input cs) buf nbytes s = None"
    and "\<exists>s'. terminal_read (map process_input (cs @ [ENTER_KEY_P])) buf nbytes s = Some (int (length l), s')
    \<and> iflag s' \<and> \<not> line_ready s' \<and> line_of s' (sched_term_id s) = []
    \<and> (\<forall>j < min (nat nbytes) (length l). mem s' (padd buf (of_nat j)) = l ! j)"
proof -
  obtain s1 where s1: "kb_inv s1 \<and> hist_ok s1" "iflag s1" "\<not> line_ready s1" "sched_term_id s1 = sched_term_id s" "abs_ed s1 = e"
    "\<And>rest. await line_ready (map process_input cs @ rest) s = await line_ready rest s1"
    using await_keys [OF assms(1,3,4) cs] e(1) assms(2) by auto
  show "terminal_read (map process_input cs) buf nbytes s = None"
    using s1(6) [of "[]"] s1(3) by (simp add: terminal_read_def)
  have vis: "vis_term_id s1 = sched_term_id s" using s1(5) e(2) by (auto simp: abs_ed_def)
  have line: "line_of s1 = ed_line e" using s1(5) by (auto simp: abs_ed_def)
  define s2 where "s2 = sti (sti (enter_key (cli (cli s1))))"
  have p: "process_input ENTER_KEY_P (cli s1) = Some (sti (enter_key (cli (cli s1))))" by (simp add: process_input_def key_down_def)
  have inv: "kb_inv s2" "vis_term_id s2 = sched_term_id s" "sched_term_id s2 = sched_term_id s"
    using press_enter [of "cli (cli s1)"] s1(1,4) vis by (simp_all add: s2_def enter_key_def Let_def)
  have ready: "line_ready s2" using vis inv(3) by (simp add: line_ready_def s2_def enter_key_def Let_def)
  have line2: "line_of (cli (cli s1)) = ed_line e" using line by (simp add: line_of_def fun_eq_iff)
  have "ed_ok e" using ed.inv_run [OF assms(5)] e(1) by simp
  then have c: "cstr (rdr (mem s2) (KeyBuf (vis_term_id s2), 0)) l"
    using enter_key_line [of "cli (cli s1)"] s1(1) vis inv(2) by (simp add: line2 ed_ok_def l_def s2_def)
  have aw: "await line_ready (map process_input (cs @ [ENTER_KEY_P])) s = Some s2"
    using s1(2,3,6) p ready by (simp add: take_irq_def s2_def)
  then have "terminal_read (map process_input (cs @ [ENTER_KEY_P])) buf nbytes s = terminal_read [] buf nbytes s2"
    using ready by (simp add: terminal_read_def)
  moreover have "hist_ok s2" using s1(1) by (simp add: s2_def hist_ok_def hist_frames)
  ultimately show "\<exists>s'. terminal_read (map process_input (cs @ [ENTER_KEY_P])) buf nbytes s = Some (int (length l), s')
    \<and> iflag s' \<and> \<not> line_ready s' \<and> line_of s' (sched_term_id s) = []
    \<and> (\<forall>j < min (nat nbytes) (length l). mem s' (padd buf (of_nat j)) = l ! j)"
    using terminal_read_ready [OF inv(1) _ ready _ assms(10) c _ _ n, of "length l - 1" "[]"] inv by (auto simp: l_def)
qed

subsection \<open>Properties\<close>

text \<open>
  C11: A read from the terminal blocks until Enter and then delivers the line. While keys other than Enter and
  the arrows are typed, the read does not return; when Enter follows and the reader's terminal is the
  visible one, it returns the length of the edited line, cut to 127 characters, plus one for the newline,
  with as many of these bytes in the buffer as were asked for; the line buffer is empty again and
  interrupts are on.\<close>

theorem terminal_read_line:
  assumes "kb_inv s" and "hist_ok s" and "iflag s" and "\<not> line_ready s" and "ed_ok (abs_ed s)"
    and "no_arrows cs" and "ENTER_KEY_P \<notin> set cs" and "e = run ed_key (abs_ed s) cs" and "ed_vis e = sched_term_id s"
    and "fst buf = Phys" and "0 \<le> nbytes" and "nbytes < 2 ^ 31" and "l = take 127 (ed_line e (sched_term_id s)) @ [10]"
  shows "terminal_read (map process_input cs) buf nbytes s = None \<and>
    (\<exists>s'. terminal_read (map process_input (cs @ [ENTER_KEY_P])) buf nbytes s = Some (int (length l), s')
      \<and> iflag s' \<and> \<not> line_ready s' \<and> line_of s' (sched_term_id s) = []
      \<and> (\<forall>j < min (nat nbytes) (length l). mem s' (padd buf (of_nat j)) = l ! j))"
  using terminal_read_typed [OF assms(1-12)] unfolding assms(13) by blast

theorem terminal_read_line_witness:
  "\<exists>s'. terminal_read (map process_input [0x17, 0x1E, 0x0E, 0x1C]) (Phys, 0x800000) 100 (multi_term_init (blank_kernel (\<lambda>_. 0)))
     = Some (2, s') \<and> mem s' (Phys, 0x800000) = of_char CHR ''i'' \<and> mem s' (Phys, 0x800001) = 10"
proof -
  define s where "s = multi_term_init (blank_kernel (\<lambda>_. 0))"
  have e: "abs_ed s = \<lparr>ed_vis = 0, ed_line = (\<lambda>_. []), ed_ready = (\<lambda>_. False), ed_ctrl = False, ed_alt = False,
      ed_caps = False, ed_lshift = False, ed_rshift = False\<rparr>"
    by (simp add: s_def abs_ed_def line_of_def multi_term_init_def init_term_def blank_kernel_def sample_term_def fun_eq_iff)
  have s: "iflag s" "\<not> line_ready s" "sched_term_id s = 0" "ed_ok (abs_ed s)"
    by (simp_all add: e ed_ok_def) (simp_all add: s_def line_ready_def multi_term_init_def init_term_def blank_kernel_def sample_term_def)
  have r: "run ed_key (abs_ed s) [0x17, 0x1E, 0x0E] = (abs_ed s)\<lparr>ed_line := (\<lambda>_. [])(0 := [0x69])\<rparr>"
    by (simp add: e ed_key_def ed_press_def ed_char_def ed_edit_def key_map_def reg_key_map_def)
  obtain s' where s': "terminal_read (map process_input [0x17, 0x1E, 0x0E, 0x1C]) (Phys, 0x800000) 100 s = Some (2, s')"
    "j < 2 \<Longrightarrow> mem s' (padd (Phys, 0x800000) (of_nat j)) = [0x69, 10] ! j" for j
    using terminal_read_line [OF sample_kb [folded s_def] s(1,2,4), of "[0x17, 0x1E, 0x0E]" _ "(Phys, 0x800000)" 100 "[0x69, 10]"]
    unfolding r s(3) by (auto simp: no_arrows_def e)
  show ?thesis using s'(1) s'(2) [of 0] s'(2) [of 1] by (simp add: s_def [symmetric] padd_def)
qed

text \<open>
  C25: A write to the terminal prints exactly the bytes of the buffer, in order and with scrolling, on the screen of
  the scheduled terminal, visible or not; it returns the number of bytes, leaves the other terminals and
  the memory outside that screen alone, and turns interrupts on.\<close>

theorem terminal_write_refines:
  assumes "term_ok (terminals s (sched_term_id s))" and "separate (Phys, vid_mem (terminals s (sched_term_id s))) 4000 buf (nat nbytes)"
    and "terminal_write buf nbytes s = (r, s')"
  shows "r = nbytes \<and> iflag s'
    \<and> abs_screen (sched_term_id s) s' = fold (sc_putc (color s)) (read_list (mem s) buf (nat nbytes)) (abs_screen (sched_term_id s) s)
    \<and> (\<forall>q. in_range (Phys, vid_mem (terminals s (sched_term_id s))) 4000 q \<or> mem s' q = mem s q)
    \<and> (\<forall>j. j = sched_term_id s \<or> terminals s' j = terminals s j)"
proof -
  let ?i = "sched_term_id s"
  have "s' = sti (puts_loop ?i (read_list (mem s) buf (nat nbytes)) (cli s))" "r = nbytes"
    using assms(3) write_loop_eq [of "cli s" buf "nat nbytes"] assms(1,2) by (auto simp: terminal_write_def)
  moreover have "abs_screen ?i (sti t) = abs_screen ?i t" "abs_screen ?i (cli t) = abs_screen ?i t" for t :: kernel
    by (simp_all add: abs_screen_def)
  moreover have "in_range (Phys, vid_mem (terminals s ?i)) 4000 q \<or> mem (puts_loop ?i bs (cli s)) q = mem s q" for q bs
    using puts_loop_frame(2) [of "cli s" ?i q bs] assms(1) by auto
  moreover have "j = ?i \<or> terminals (puts_loop ?i bs (cli s)) j = terminals s j" for j bs
    by (cases "j = ?i") simp_all
  ultimately show ?thesis using puts_loop_abs [of "cli s" ?i] assms(1) by simp
qed

theorem terminal_write_refines_witness:
  "let s = blank_kernel (\<lambda>_. 65) in
   abs_screen 0 (snd (terminal_write (Phys, 0x800000) 3 s)) = fold (sc_putc 7) [65, 65, 65] (abs_screen 0 s)"
proof -
  let ?s = "blank_kernel (\<lambda>_. 65)"
  have "term_ok (terminals ?s 0)" "sched_term_id ?s = 0" "vid_mem (terminals ?s 0) = 0xB8000" "color ?s = 7" "mem ?s = (\<lambda>_. 65)"
    by (simp_all add: blank_kernel_def term_ok_def sample_term_def)
  moreover have "separate (Phys, 0xB8000) 4000 (Phys, 0x800000) 3" by (rule separate_le) simp_all
  moreover have "read_list (\<lambda>_. 65) p 3 = [65, 65, 65]" for p by (simp add: read_list_def rdr_def upt_rec)
  ultimately show ?thesis
    using terminal_write_refines [of ?s "(Phys, 0x800000)" 3 "fst (terminal_write (Phys, 0x800000) 3 ?s)" "snd (terminal_write (Phys, 0x800000) 3 ?s)"]
    by (simp add: Let_def)
qed

end
