(* ===== verification/Syscalls.thy ===== *)
theory Syscalls
  imports Terminal
begin

text \<open>
  The system calls, \<^verbatim>\<open>student-distrib/syscalls.c\<close>, and their dispatch in \<^verbatim>\<open>idt_handle_wrap.S\<close>. A call ends in one of
  four ways, the values of \<open>outcome\<close>. A user pointer is a virtual address: its bytes are those at the
  physical address the page walk gives; a fault on an address that is not mapped is not modelled.
\<close>

subsection \<open>Outcomes\<close>

text \<open>
  \<open>Returns r\<close>: the call returns \<open>r\<close>. \<open>Enters eip esp\<close>: control goes to user code by \<^verbatim>\<open>iret\<close>. \<open>ExecuteReturns esp
  ebp r\<close>: the stack is switched to the one saved by the \<^verbatim>\<open>sys_execute\<close> that started the process, and that
  call returns \<open>r\<close>. \<open>Switched esp ebp\<close>: the stack is switched to one saved by the scheduler.
\<close>

datatype outcome =
  Returns int
| Enters u32 u32
| ExecuteReturns u32 u32 int
| Switched u32 u32

definition user_ptr :: "u32 \<Rightarrow> kernel \<Rightarrow> ptr" where
  "user_ptr v s = (Phys, resolve_virt_addr v s)"

abbreviation FILE_H_SIZE :: u32 where "FILE_H_SIZE \<equiv> 30"
abbreviation PROGRAM_1_PHYS :: u32 where "PROGRAM_1_PHYS \<equiv> 0x800000"
abbreviation PROGRAM_VIRT :: u32 where "PROGRAM_VIRT \<equiv> 0x8000000"
abbreviation PROGRAM_VIRT_OFF :: u32 where "PROGRAM_VIRT_OFF \<equiv> 0x48000"

subsection \<open>sys_execute\<close>

text \<open>Its local arrays.\<close>

abbreviation cmd :: ptr where "cmd \<equiv> (Local 3, 0)"
abbreviation cmd_dentry :: ptr where "cmd_dentry \<equiv> (Local 4, 0)"
abbreviation file_data :: ptr where "file_data \<equiv> (Local 5, 0)"

partial_function (option) skip_spaces :: "reader \<Rightarrow> nat \<Rightarrow> nat option" where
  "skip_spaces command i = (if command i = 32 \<and> command i \<noteq> 0 then skip_spaces command (Suc i) else Some i)"

text \<open>Copies the command word; the measure is the room left in \<^verbatim>\<open>cmd\<close>.\<close>

fun copy_cmd :: "nat \<Rightarrow> reader \<Rightarrow> nat \<Rightarrow> nat \<Rightarrow> kernel \<Rightarrow> nat \<times> nat \<times> kernel" where
  "copy_cmd 0 command i j s = (i, j, s)"
| "copy_cmd (Suc k) command i j s =
     (if command i \<noteq> 32 \<and> command i \<noteq> 0 then copy_cmd k command (Suc i) (Suc j) (st8 (padd cmd (of_nat j)) (command i) s)
      else (i, j, s))"

text \<open>Copies the argument into \<^verbatim>\<open>arg\<close>; a store past the end of the array is undefined.\<close>

partial_function (option) copy_arg :: "reader \<Rightarrow> u32 \<Rightarrow> nat \<Rightarrow> nat \<Rightarrow> kernel \<Rightarrow> kernel option" where
  "copy_arg command new_pcb i j s =
     (if KEY_BUF_SIZE \<le> j then None
      else if command i \<noteq> 0
      then copy_arg command new_pcb (Suc i) (Suc j) (st8 (PcbArg new_pcb, of_nat j) (command i) s)
      else Some (st8 (PcbArg new_pcb, of_nat j) 0 s))"

text \<open>From the creation of the control block to the check of the file's format.\<close>

definition create_pcb :: "reader \<Rightarrow> nat \<Rightarrow> kernel \<Rightarrow> (u32 \<times> kernel) option" where
  "create_pcb command i s = do {
     let (new_pcb, s) = init_pcb s;
     let s = upd_mem (\<lambda>m. memset m (PcbCmd new_pcb, 0) 0 33) s;
     let s = upd_mem (\<lambda>m. memcpy m (PcbCmd new_pcb, 0) cmd 33) s;
     i \<leftarrow> skip_spaces command i;
     s \<leftarrow> copy_arg command new_pcb i 0 s;
     (_, s) \<leftarrow> read_data (dentry_inode_num (mem s) cmd_dentry) 0 file_data FILE_H_SIZE s;
     Some (new_pcb, s)
   }"

text \<open>
  From the paging set-up to the switch to user mode. \<open>esp\<close> and \<open>ebp\<close> are the registers the inline assembly
  saves in the parent; without a parent that store goes through a null pointer.
\<close>

definition link_parent :: "u32 \<Rightarrow> u32 \<Rightarrow> u32 \<Rightarrow> kernel \<Rightarrow> kernel option" where
  "link_parent e_esp e_ebp new_pcb s =
     (let v = vis_term_id s
      in if \<not> starting_new_shell s
         then let parent = cur_task (terminals s v);
                  s = upd_pcb new_pcb (\<lambda>b. b\<lparr>parent_task := parent, term_num := of_int v\<rparr>) s
              in if parent = NULL then None
                 else let s = upd_pcb parent (\<lambda>b. b\<lparr>ebp := e_ebp, esp := e_esp\<rparr>) s
                      in Some (upd_term v (\<lambda>t. t\<lparr>cur_task := new_pcb\<rparr>) s)
         else let s = upd_term (sched_term_id s) (\<lambda>t. t\<lparr>cur_task := new_pcb\<rparr>) s
              in Some (upd_pcb new_pcb (\<lambda>b. b\<lparr>term_num := of_int (sched_term_id s)\<rparr>) s))"

definition start_program :: "u32 \<Rightarrow> u32 \<Rightarrow> u32 \<Rightarrow> kernel \<Rightarrow> (outcome \<times> kernel) option" where
  "start_program e_esp e_ebp new_pcb s = do {
     let stackp = PROGRAM_VIRT + FOUR_MB - 4;
     let s = upd_pcb new_pcb (\<lambda>b. b\<lparr>page_addr := PROGRAM_1_PHYS + pcb_num b * FOUR_MB\<rparr>) s;
     let s = snd (map_page (page_addr (pcbs s new_pcb)) PROGRAM_VIRT True True True True s);
     let s = flush_tlb s;
     let s = upd_pcb new_pcb (\<lambda>b. b\<lparr>parent_task := NULL, pid := numproc s, fd_status := 3\<rparr>) s;
     let s = s\<lparr>numproc := numproc s + 1\<rparr>;
     let s = s\<lparr>tss_esp0 := END_OF_KERNEL_PAGE - pcb_num (pcbs s new_pcb) * PCB_PLUS_STACK - 4\<rparr>;
     let s = upd_pcb new_pcb (\<lambda>b. b\<lparr>esp0 := tss_esp0 s\<rparr>) s;
     s \<leftarrow> link_parent e_esp e_ebp new_pcb s;
     let s = s\<lparr>cur_pcb := new_pcb\<rparr>;
     (_, s) \<leftarrow> terminal_open s;
     let entry = ld32 (mem s) (padd file_data 24);
     let inode_num = dentry_inode_num (mem s) cmd_dentry;
     (_, s) \<leftarrow> read_data inode_num 0 (user_ptr (PROGRAM_VIRT + PROGRAM_VIRT_OFF) s)
                 (fs_word s ((inode_num + 1) * BLK_SIZE_UINTS)) s;
     Some (Enters entry stackp, sti s)
   }"

definition is_elf :: "kernel \<Rightarrow> bool" where
  "is_elf s = (strncmp (rdr (mem s) file_data) (lit [CHR 0x7F, CHR ''E'', CHR ''L'', CHR ''F'']) 4 = 0)"

definition sys_execute :: "u32 \<Rightarrow> u32 \<Rightarrow> reader \<Rightarrow> kernel \<Rightarrow> (outcome \<times> kernel) option" where
  "sys_execute e_esp e_ebp command s =
     (let s = cli s
      in if our_popcount (pcb_status s) = MAX_PROCESSES
         then Some (Returns 0, kprintf (''Only %d tasks are currently supported'' @ [CHR 0x0A]) [ArgW MAX_PROCESSES] s)
         else do {
           i \<leftarrow> skip_spaces command 0;
           let (i, j, s) = copy_cmd 32 command i 0 s;
           let s = st8 (padd cmd (of_nat j)) 0 s;
           (found, s) \<leftarrow> read_dentry_by_name (rdr (mem s) cmd) cmd_dentry s;
           if found = -1 then Some (Returns (-1), sti s)
           else do {
             (new_pcb, s) \<leftarrow> create_pcb command i s;
             if \<not> is_elf s then Some (Returns (-1), sti s)
             else start_program e_esp e_ebp new_pcb s
           }
         })"

text \<open>The end of \<^verbatim>\<open>sys_execute\<close>, from the label \<^verbatim>\<open>we_are_done\<close>, to which \<^verbatim>\<open>sys_halt\<close> jumps.\<close>

definition we_are_done :: "u32 \<Rightarrow> kernel \<Rightarrow> int \<times> kernel" where
  "we_are_done eax s =
     (let ret_val = eax;
          (ret_val, s) = (if except_raised s then (256, s\<lparr>except_raised := False\<rparr>) else (ret_val, s))
      in (sint ret_val, sti s))"

subsection \<open>sys_halt\<close>

definition sys_halt :: "u8 \<Rightarrow> u32 \<Rightarrow> u32 \<Rightarrow> kernel \<Rightarrow> (outcome \<times> kernel) option" where
  "sys_halt status e_esp e_ebp s =
     (if cur_pcb s = NULL then None
      else let ret_val = ucast status AND 0xFF :: u32;
               offset = (END_OF_KERNEL_PAGE - cur_pcb s) div PCB_PLUS_STACK;
               me = pcbs s (cur_pcb s);
               s = snd (if parent_task me \<noteq> NULL
                        then map_page (page_addr (pcbs s (parent_task me))) PROGRAM_VIRT True True True True s
                        else map_page (PROGRAM_1_PHYS + ucast (term_num me) * FOUR_MB) PROGRAM_VIRT True True True True s);
               s = s\<lparr>pcb_status := pcb_status s AND NOT (push_bit (unat (offset - 1)) 1)\<rparr>;
               s = snd (close_pcb (cur_pcb s) s);
               s = flush_tlb s;
               s = upd_term (sched_term_id s) (\<lambda>t. t\<lparr>cur_task := parent_task (pcbs s (cur_pcb s))\<rparr>) s;
               s = s\<lparr>cur_pcb := parent_task (pcbs s (cur_pcb s))\<rparr>
           in if cur_pcb s \<noteq> NULL
              then let s = s\<lparr>tss_esp0 := esp0 (pcbs s (cur_pcb s))\<rparr>;
                       (r, s') = we_are_done ret_val s
                   in Some (ExecuteReturns (esp (pcbs s (cur_pcb s))) (ebp (pcbs s (cur_pcb s))) r, s')
              else do {
                (r, s) \<leftarrow> sys_execute e_esp e_ebp (lit ''shell'') (s\<lparr>starting_new_shell := True\<rparr>);
                Some (case r of Returns _ \<Rightarrow> Returns (uint ret_val) | _ \<Rightarrow> r, s)
              })"

subsection \<open>Descriptor operations\<close>

text \<open>The members \<^verbatim>\<open>read\<close> and \<^verbatim>\<open>write\<close> of the jump tables.\<close>

fun op_read :: "f_ops_table \<Rightarrow> (handler list \<Rightarrow> nat \<Rightarrow> ptr \<Rightarrow> int \<Rightarrow> kernel \<Rightarrow> (int \<times> kernel) option) option" where
  "op_read stdin = Some (\<lambda>hs fd buf nbytes s. terminal_read hs buf nbytes s)"
| "op_read rtc_jt = Some (\<lambda>hs fd buf nbytes s. rtc_read hs s)"
| "op_read dir_jt = Some (\<lambda>hs fd buf nbytes s. fsys_read_dir fd buf nbytes s)"
| "op_read regf_jt = Some (\<lambda>hs fd buf nbytes s. fsys_read_file fd buf nbytes s)"
| "op_read _ = None"

fun op_write :: "f_ops_table \<Rightarrow> (nat \<Rightarrow> ptr \<Rightarrow> int \<Rightarrow> kernel \<Rightarrow> int \<times> kernel) option" where
  "op_write stdout = Some (\<lambda>fd buf nbytes s. terminal_write buf nbytes s)"
| "op_write rtc_jt = Some (\<lambda>fd buf nbytes s. rtc_write buf nbytes s)"
| "op_write dir_jt = Some fsys_write_dir"
| "op_write regf_jt = Some fsys_write_file"
| "op_write _ = None"

definition sys_read :: "handler list \<Rightarrow> int \<Rightarrow> u32 \<Rightarrow> int \<Rightarrow> kernel \<Rightarrow> (int \<times> kernel) option" where
  "sys_read handlers fd buf nbytes s =
     (if fd < 0 \<or> fd \<ge> int MAX_DESC \<or> buf = NULL \<or> nbytes < 0 then Some (-1, s)
      else case op_read (file_ops (cur_fd s (nat fd))) of
        None \<Rightarrow> Some (-1, s)
      | Some op \<Rightarrow> op handlers (nat fd) (user_ptr buf s) nbytes s)"

definition sys_write :: "int \<Rightarrow> u32 \<Rightarrow> int \<Rightarrow> kernel \<Rightarrow> int \<times> kernel" where
  "sys_write fd buf nbytes s =
     (if fd < 0 \<or> fd \<ge> int MAX_DESC \<or> buf = NULL \<or> nbytes < 0 then (-1, s)
      else case op_write (file_ops (cur_fd s (nat fd))) of
        None \<Rightarrow> (-1, s)
      | Some op \<Rightarrow> op (nat fd) (user_ptr buf s) nbytes s)"

text \<open>The local \<^verbatim>\<open>cur_dentry\<close> of \<^verbatim>\<open>sys_open\<close>.\<close>

abbreviation open_dentry :: ptr where "open_dentry \<equiv> (Local 6, 0)"

definition sys_open :: "reader \<Rightarrow> kernel \<Rightarrow> (int \<times> kernel) option" where
  "sys_open filename s = do {
     (found, s) \<leftarrow> read_dentry_by_name filename open_dentry s;
     if found = -1 then Some (-1, s)
     else if dentry_file_type (mem s) open_dentry \<ge> 3 then Some (-1, s)
     else open_file_desc (cur_pcb s) filename s
   }"

definition sys_close :: "int \<Rightarrow> kernel \<Rightarrow> int \<times> kernel" where
  "sys_close fd s =
     (if fd < 2 \<or> fd \<ge> int MAX_DESC then (-1, s)
      else case op_close (file_ops (cur_fd s (nat fd))) of
        None \<Rightarrow> (-1, s)
      | Some op \<Rightarrow> op (of_int fd) s)"

subsection \<open>The other calls\<close>

definition sys_getargs :: "u32 \<Rightarrow> int \<Rightarrow> kernel \<Rightarrow> (int \<times> kernel) option" where
  "sys_getargs buf nbytes s = do {
     n \<leftarrow> strlen (rdr (mem s) (PcbArg (cur_pcb s), 0));
     let arg_len = int n + 1;
     if arg_len > nbytes \<or> arg_len \<le> 1 \<or> nbytes < 0 \<or> buf = NULL then Some (-1, s)
     else Some (0, upd_mem (\<lambda>m. memcpy m (user_ptr buf s) (PcbArg (cur_pcb s), 0) (of_int arg_len)) s)
   }"

definition sys_vidmap :: "u32 \<Rightarrow> kernel \<Rightarrow> int \<times> kernel" where
  "sys_vidmap screen_start s =
     (if screen_start < PROGRAM_VIRT \<or> screen_start > PROGRAM_VIRT + FOUR_MB then (-1, s)
      else (sint VIDMAP_VIRT_ADDR, upd_mem (\<lambda>m. st32 m (user_ptr screen_start s) VIDMAP_VIRT_ADDR) s))"

definition sys_set_handler :: "int \<Rightarrow> u32 \<Rightarrow> kernel \<Rightarrow> int \<times> kernel" where
  "sys_set_handler signum handler_address s = (-1, s)"

definition sys_sigreturn :: "kernel \<Rightarrow> int \<times> kernel" where
  "sys_sigreturn s = (-1, s)"

subsection \<open>Dispatch\<close>

definition ret :: "int \<times> kernel \<Rightarrow> outcome \<times> kernel" where
  "ret r = (Returns (fst r), snd r)"

text \<open>
  \<^verbatim>\<open>_syscall\<close>: the call number in \<^verbatim>\<open>eax\<close>, the arguments in \<^verbatim>\<open>ebx\<close>, \<^verbatim>\<open>ecx\<close> and \<^verbatim>\<open>edx\<close>; \<open>e_esp\<close> and \<open>e_ebp\<close> are the
  stack registers inside \<^verbatim>\<open>sys_execute\<close>, the handlers those served if the call waits.
\<close>

definition syscall :: "handler list \<Rightarrow> u32 \<Rightarrow> u32 \<Rightarrow> u32 \<Rightarrow> u32 \<Rightarrow> u32 \<Rightarrow> u32 \<Rightarrow> kernel \<Rightarrow> (outcome \<times> kernel) option" where
  "syscall handlers e_esp e_ebp eax ebx ecx edx s =
     (if sint eax \<le> 0 \<or> sint eax > 10 then Some (Returns (-1), s)
      else if eax = 1 then sys_halt (ucast ebx) e_esp e_ebp s
      else if eax = 2 then sys_execute e_esp e_ebp (rdr (mem s) (user_ptr ebx s)) s
      else if eax = 3 then map_option ret (sys_read handlers (sint ebx) ecx (sint edx) s)
      else if eax = 4 then Some (ret (sys_write (sint ebx) ecx (sint edx) s))
      else if eax = 5 then map_option ret (sys_open (rdr (mem s) (user_ptr ebx s)) s)
      else if eax = 6 then Some (ret (sys_close (sint ebx) s))
      else if eax = 7 then map_option ret (sys_getargs ebx (sint ecx) s)
      else if eax = 8 then Some (ret (sys_vidmap ebx s))
      else if eax = 9 then Some (ret (sys_set_handler (sint ebx) ecx s))
      else Some (ret (sys_sigreturn s)))"

subsection \<open>Opening and closing\<close>

text \<open>What opening a name leads to: the lowest free descriptor, the directory entry, and its jump table.\<close>

definition open_target :: "kernel \<Rightarrow> u8 list \<Rightarrow> (nat \<times> nat \<times> f_ops_table) option" where
  "open_target s name = do {
     j \<leftarrow> dir_lookup s name;
     ops \<leftarrow> tableaux (entry_type s j);
     i \<leftarrow> first_free (io_files (pcbs s (cur_pcb s)));
     Some (i, j, ops)
   }"

lemma tableaux_None: "tableaux t = None \<longleftrightarrow> 3 \<le> t"
proof -
  have "t = 0 \<or> t = 1 \<or> t = 2" if "\<not> 3 \<le> t"
    using that by (simp add: word_unat_eq_iff word_le_nat_alt) linarith
  then show ?thesis by (auto simp: tableaux_def word_le_nat_alt)
qed

lemma tableaux_ops: "tableaux t = Some ops \<Longrightarrow> (\<exists>f. op_open ops = Some f) \<and> op_close ops \<noteq> None"
  by (auto simp: tableaux_def split: if_splits)

lemma first_free_less: "first_free io = Some i \<Longrightarrow> i < 8 \<and> flags (io i) = NOT_USED \<and> (\<forall>k < i. flags (io k) \<noteq> NOT_USED)"
  by (auto simp: first_free_def find_Some_iff)

text \<open>Memory that differs in the locals of the kernel only.\<close>

definition locals_only :: "memory \<Rightarrow> kernel \<Rightarrow> bool" where
  "locals_only m s \<longleftrightarrow> (\<forall>q. (\<forall>i. fst q \<noteq> Local i) \<longrightarrow> m q = mem s q)"

lemma locals_image: "locals_only m s \<Longrightarrow> same_image s (s\<lparr>mem := m\<rparr>)"
  by (simp add: locals_only_def same_image_def img_def)

lemma locals_dir:
  assumes "locals_only m s" and "wf_dir s"
  shows "wf_dir (s\<lparr>mem := m\<rparr>)" and "dir_lookup (s\<lparr>mem := m\<rparr>) name = dir_lookup s name"
    and "entry_type (s\<lparr>mem := m\<rparr>) j = entry_type s j" and "entry_ino (s\<lparr>mem := m\<rparr>) j = entry_ino s j"
    and "entry_bytes (s\<lparr>mem := m\<rparr>) j = entry_bytes s j"
proof -
  note c = same_image_counts [OF locals_image [OF assms(1)]]
  have m: "m (img s k) = mem s (img s k)" "m (padd (img s k) i) = mem s (padd (img s k) i)" for k i
    using assms(1) by (simp_all add: locals_only_def img_def padd_def)
  have r: "read_list m (img s k) n = read_list (mem s) (img s k) n" for k n by (rule read_list_cong) (simp add: m)
  have l: "ld32 m (img s k) = ld32 (mem s) (img s k)" for k by (rule ld32_cong) (rule r)
  show "wf_dir (s\<lparr>mem := m\<rparr>)" using assms(2) by (simp add: wf_dir_def wf_image_def c)
  show "dir_lookup (s\<lparr>mem := m\<rparr>) name = dir_lookup s name" by (simp add: dir_lookup_def entry_name_def c r)
  show "entry_type (s\<lparr>mem := m\<rparr>) j = entry_type s j" "entry_ino (s\<lparr>mem := m\<rparr>) j = entry_ino s j" "entry_bytes (s\<lparr>mem := m\<rparr>) j = entry_bytes s j"
    by (simp_all add: entry_type_def entry_ino_def entry_bytes_def c l r del: mult_Suc_right)
qed

text \<open>What remains of a call once the directory has been asked for the name: the slot that is opened, if any.\<close>

lemma sys_open_slot:
  assumes "wf_dir s" and "cstr fname name" and "cur_pcb s \<noteq> 0"
  shows "\<exists>m. locals_only m s \<and> sys_open fname s = (case open_target s name of
      None \<Rightarrow> Some (-1, s\<lparr>mem := m\<rparr>)
    | Some (i, j, ops) \<Rightarrow> open_slot i (cur_pcb s) fname (s\<lparr>mem := m\<rparr>))"
proof -
  obtain m where m: "\<forall>q. fst q \<noteq> Local 1 \<longrightarrow> m q = mem s q" "read_dentry_by_name fname open_dentry s = Some (case dir_lookup s name of
      None \<Rightarrow> (-1, s\<lparr>mem := m\<rparr>) | Some j \<Rightarrow> (0, s\<lparr>mem := write_list m open_dentry (entry_bytes s j)\<rparr>))"
    using read_dentry_by_name_spec [OF assms(1,2), of open_dentry] by auto
  show ?thesis
  proof (cases "dir_lookup s name")
    case None
    then show ?thesis using m by (intro exI [of _ m]) (simp add: sys_open_def open_target_def locals_only_def)
  next
    case (Some j)
    let ?m = "write_list m open_dentry (entry_bytes s j)"
    have lo: "locals_only ?m s" using m(1) by (simp add: locals_only_def write_list_other_block)
    have "sys_open fname s = (if 3 \<le> entry_type s j then Some (-1, s\<lparr>mem := ?m\<rparr>) else open_file_desc (cur_pcb s) fname (s\<lparr>mem := ?m\<rparr>))"
      using m(2) Some by (simp add: sys_open_def dentry_entry)
    then show ?thesis using lo Some assms(3) tableaux_None [of "entry_type s j"]
      by (intro exI [of _ ?m]) (auto simp: open_target_def open_file_desc_eq split: option.split)
  qed
qed

lemma sys_open_spec:
  assumes "wf_dir s" and "cstr fname name" and "\<not> device_name name" and "cur_pcb s \<noteq> 0"
  shows "\<exists>m. locals_only m s \<and> sys_open fname s = Some (case open_target s name of
      None \<Rightarrow> (-1, s\<lparr>mem := m\<rparr>)
    | Some (i, j, ops) \<Rightarrow> (int i, snd (the (op_open ops) (upd_fd (cur_pcb s) i
        (\<lambda>d. d\<lparr>file_pos := 0, flags := IN_USE, inode := entry_ino s j, file_ops := ops\<rparr>) (s\<lparr>mem := m\<rparr>)))))"
proof -
  obtain m where m: "locals_only m s" "sys_open fname s = (case open_target s name of
      None \<Rightarrow> Some (-1, s\<lparr>mem := m\<rparr>) | Some (i, j, ops) \<Rightarrow> open_slot i (cur_pcb s) fname (s\<lparr>mem := m\<rparr>))"
    using sys_open_slot [OF assms(1,2,4)] by blast
  show ?thesis
  proof (cases "open_target s name")
    case None
    then show ?thesis using m by (intro exI [of _ m]) simp
  next
    case (Some t)
    then obtain i j ops where t: "t = (i, j, ops)" "dir_lookup s name = Some j" "tableaux (entry_type s j) = Some ops"
      by (auto simp: open_target_def Option.bind_eq_Some_conv)
    obtain f where f: "op_open ops = Some f" using tableaux_ops [OF t(3)] by blast
    note d = locals_dir [OF m(1) assms(1)]
    obtain m' where m': "\<forall>q. fst q \<noteq> Local 1 \<and> fst q \<noteq> Local 2 \<longrightarrow> m' q = m q"
      "open_slot i (cur_pcb s) fname (s\<lparr>mem := m\<rparr>) = Some (int i, snd (f (upd_fd (cur_pcb s) i
        (\<lambda>d. d\<lparr>file_pos := 0, flags := IN_USE, inode := entry_ino s j, file_ops := ops\<rparr>) (s\<lparr>mem := m'\<rparr>))))"
      using open_slot_file [OF d(1) assms(2,3), of j ops f i "cur_pcb s"] d(2-4) t(2,3) f by auto
    have "locals_only m' s" using m'(1) m(1) by (simp add: locals_only_def)
    then show ?thesis using m(2) m'(2) Some t(1) f by (intro exI [of _ m']) simp
  qed
qed

text \<open>The device's open operation leaves the processes alone.\<close>

lemma op_open_frame:
  "op_open ops = Some f \<Longrightarrow> pcbs (snd (f s)) = pcbs s \<and> cur_pcb (snd (f s)) = cur_pcb s \<and> mem (snd (f s)) = mem s"
  by (cases ops) (auto simp: rtc_open_def set_int_freq_def fsys_open_dir_def fsys_open_file_def Let_def inb_def)

text \<open>Which descriptors of the current process are in use.\<close>

definition fd_used :: "kernel \<Rightarrow> nat set" where
  "fd_used s = {i. i < 8 \<and> flags (cur_fd s i) \<noteq> NOT_USED}"

lemma sys_open_Some:
  assumes "wf_dir s" and "cstr fname name" and "\<not> device_name name" and "cur_pcb s \<noteq> 0" and "open_target s name = Some (i, j, ops)"
  shows "\<exists>s'. sys_open fname s = Some (int i, s') \<and> cur_pcb s' = cur_pcb s \<and> i < 8 \<and> i \<notin> fd_used s \<and> (\<forall>k < i. k \<in> fd_used s)
    \<and> cur_fd s' = (cur_fd s)(i := \<lparr>file_ops = ops, inode = entry_ino s j, file_pos = 0, flags = IN_USE\<rparr>)
    \<and> op_close ops \<noteq> None \<and> (\<forall>p. p \<noteq> cur_pcb s \<longrightarrow> pcbs s' p = pcbs s p) \<and> locals_only (mem s') s"
proof -
  obtain f where f: "op_open ops = Some f" and ops: "op_close ops \<noteq> None" and ff: "first_free (io_files (pcbs s (cur_pcb s))) = Some i"
    using assms(5) tableaux_ops by (fastforce simp: open_target_def Option.bind_eq_Some_conv)
  obtain m where m: "locals_only m s" "sys_open fname s = Some (int i, snd (f (upd_fd (cur_pcb s) i
        (\<lambda>d. d\<lparr>file_pos := 0, flags := IN_USE, inode := entry_ino s j, file_ops := ops\<rparr>) (s\<lparr>mem := m\<rparr>))))"
    using sys_open_spec [OF assms(1-4)] assms(5) f by auto
  have "d\<lparr>file_pos := 0, flags := IN_USE, inode := entry_ino s j, file_ops := ops\<rparr> = \<lparr>file_ops = ops, inode = entry_ino s j, file_pos = 0, flags = IN_USE\<rparr>" for d
    by (cases d) simp
  then show ?thesis using m f ops first_free_less [OF ff]
    by (auto simp: op_open_frame cur_fd_def fd_used_def fun_eq_iff)
qed

lemma sys_close_spec:
  assumes "2 \<le> i" and "i < 8" and "cur_pcb s \<noteq> 0" and "op_close (file_ops (cur_fd s i)) \<noteq> None"
  shows "sys_close (int i) s = (0, upd_fd (cur_pcb s) i (\<lambda>f. f\<lparr>flags := NOT_USED, file_ops := empty_f_ops_tab\<rparr>) s)"
  using assms op_close_cases [of "file_ops (cur_fd s i)"] close_file_desc_cur [of i s] by (auto simp: sys_close_def)

subsection \<open>Arguments\<close>

lemma sys_getargs_spec:
  assumes "cstr (rdr (mem s) (PcbArg (cur_pcb s), 0)) arg" and "length arg < 2 ^ 31"
  shows "sys_getargs buf nbytes s =
    (if arg = [] \<or> nbytes < int (length arg) + 1 \<or> buf = 0 then Some (-1, s)
     else Some (0, s\<lparr>mem := write_list (mem s) (user_ptr buf s) (arg @ [0])\<rparr>))"
proof -
  have "(of_int (int (length arg) + 1) :: u32) = of_nat (Suc (length arg))" by simp
  then have "unat (of_int (int (length arg) + 1) :: u32) = length arg + 1"
    using assms(2) unat_of_nat_u32 [of "Suc (length arg)"] by (simp add: add.commute)
  moreover have "read_list (mem s) (PcbArg (cur_pcb s), 0) (length arg + 1) = arg @ [0]"
    using assms(1) by (intro nth_equalityI) (auto simp: cstr_def rdr_def nth_append less_Suc_eq)
  ultimately have "memcpy (mem s) (user_ptr buf s) (PcbArg (cur_pcb s), 0) (of_int (int (length arg) + 1)) = write_list (mem s) (user_ptr buf s) (arg @ [0])"
    by (subst memcpy_eq) (simp_all add: fwd_ok_def user_ptr_def)
  then show ?thesis using cstr_strlen [OF assms(1)] by (auto simp: sys_getargs_def Let_def upd_mem_def)
qed

text \<open>The text of a command: leading spaces, the name, the argument.\<close>

lemma skip_spaces_upto:
  "\<forall>k < n. r (i + k) = 32 \<Longrightarrow> r (i + n) \<noteq> 32 \<Longrightarrow> skip_spaces r i = Some (i + n)"
proof (induction n arbitrary: i)
  case 0
  then show ?case by (simp add: skip_spaces.simps)
next
  case (Suc n)
  have "r i = 32" using Suc.prems(1) by auto
  moreover have "skip_spaces r (Suc i) = Some (Suc i + n)" using Suc.prems by (intro Suc.IH) (auto dest: spec [of _ "Suc _"])
  ultimately show ?case by (simp add: skip_spaces.simps [of r i])
qed

lemma copy_cmd_spec:
  "length w \<le> k \<Longrightarrow> \<forall>a < length w. r (i + a) = w ! a \<and> w ! a \<noteq> 32 \<and> w ! a \<noteq> 0 \<Longrightarrow> k = length w \<or> r (i + length w) = 32 \<or> r (i + length w) = 0 \<Longrightarrow>
   copy_cmd k r i j s = (i + length w, j + length w, s\<lparr>mem := write_list (mem s) (padd cmd (of_nat j)) w\<rparr>)"
proof (induction w arbitrary: k i j s)
  case Nil
  then show ?case by (cases k) auto
next
  case (Cons x w)
  obtain k' where k: "k = Suc k'" using Cons.prems(1) by (cases k) auto
  have x: "r i = x" "x \<noteq> 32" "x \<noteq> 0" using Cons.prems(2) by (auto dest: spec [of _ 0])
  let ?s = "st8 (padd cmd (of_nat j)) x s"
  have "copy_cmd k' r (Suc i) (Suc j) ?s = (Suc i + length w, Suc j + length w, ?s\<lparr>mem := write_list (mem ?s) (padd cmd (of_nat (Suc j))) w\<rparr>)"
    using Cons.prems k by (intro Cons.IH) (auto dest: spec [of _ "Suc _"])
  then show ?case using x by (simp add: k st8_def upd_mem_def add.commute)
qed

lemma copy_arg_spec:
  "j + length w < 129 \<Longrightarrow> \<forall>a < length w. r (i + a) = w ! a \<and> w ! a \<noteq> 0 \<Longrightarrow> r (i + length w) = 0 \<Longrightarrow>
   copy_arg r p i j s = Some (s\<lparr>mem := write_list (mem s) (PcbArg p, of_nat j) (w @ [0])\<rparr>)"
proof (induction w arbitrary: i j s)
  case Nil
  then show ?case by (simp add: copy_arg.simps st8_def upd_mem_def fun_upd_def)
next
  case (Cons x w)
  have x: "r i = x" "x \<noteq> 0" using Cons.prems(2) by (auto dest: spec [of _ 0])
  let ?s = "st8 (PcbArg p, of_nat j) x s"
  have "copy_arg r p (Suc i) (Suc j) ?s = Some (?s\<lparr>mem := write_list (mem ?s) (PcbArg p, of_nat (Suc j)) (w @ [0])\<rparr>)"
    using Cons.prems by (intro Cons.IH) (auto dest: spec [of _ "Suc _"])
  then show ?case using x Cons.prems(1) by (subst copy_arg.simps) (simp add: st8_def upd_mem_def padd_def add.commute fun_upd_def)
qed

subsection \<open>Starting a program\<close>

text \<open>
  A command line: spaces, the name of the program, spaces, the argument. The name has no space in it and
  at most 32 characters, the argument does not begin with a space and fits the array of 129 bytes.
\<close>

definition command_line :: "reader \<Rightarrow> nat \<Rightarrow> u8 list \<Rightarrow> nat \<Rightarrow> u8 list \<Rightarrow> bool" where
  "command_line r a name b arg \<longleftrightarrow>
     cstr r (replicate a 32 @ name @ replicate b 32 @ arg)
     \<and> name \<noteq> [] \<and> 32 \<notin> set name \<and> length name \<le> 32
     \<and> (arg = [] \<or> hd arg \<noteq> 32 \<and> 0 < b) \<and> length arg < 129"

lemma command_line_nth:
  assumes "command_line r a name b arg"
  shows "k < a \<Longrightarrow> r k = 32"
    and "k < length name \<Longrightarrow> r (a + k) = name ! k \<and> name ! k \<noteq> 32 \<and> name ! k \<noteq> 0"
    and "k < b \<Longrightarrow> r (a + length name + k) = 32"
    and "k < length arg \<Longrightarrow> r (a + length name + b + k) = arg ! k \<and> arg ! k \<noteq> 0"
    and "r (a + length name + b + length arg) = 0"
proof -
  let ?l = "replicate a 32 @ name @ replicate b 32 @ arg"
  have c: "\<forall>i < length ?l. r i = ?l ! i" "0 \<notin> set ?l" "r (length ?l) = 0" "32 \<notin> set name"
    using assms by (auto simp: command_line_def cstr_def)
  show "r k = 32" if "k < a" using c(1) [rule_format, of k] that by (simp add: nth_append)
  show "r (a + k) = name ! k \<and> name ! k \<noteq> 32 \<and> name ! k \<noteq> 0" if "k < length name"
    using c(1) [rule_format, of "a + k"] c(2,4) that by (auto simp: nth_append dest: nth_mem)
  show "r (a + length name + k) = 32" if "k < b"
    using c(1) [rule_format, of "a + length name + k"] that by (simp add: nth_append)
  show "r (a + length name + b + k) = arg ! k \<and> arg ! k \<noteq> 0" if "k < length arg"
    using c(1) [rule_format, of "a + length name + b + k"] c(2) that by (auto simp: nth_append dest: nth_mem)
  show "r (a + length name + b + length arg) = 0" using c(3) by (simp add: add.assoc)
qed

lemma command_line_parse:
  assumes "command_line r a name b arg"
  shows "skip_spaces r 0 = Some a"
    and "copy_cmd 32 r a 0 s = (a + length name, length name, s\<lparr>mem := write_list (mem s) cmd name\<rparr>)"
    and "skip_spaces r (a + length name) = Some (a + length name + b)"
    and "copy_arg r p (a + length name + b) 0 s = Some (s\<lparr>mem := write_list (mem s) (PcbArg p, 0) (arg @ [0])\<rparr>)"
proof -
  note n = command_line_nth [OF assms]
  have name: "name \<noteq> []" "length name \<le> 32" "length arg < 129" using assms by (simp_all add: command_line_def)
  have "r a \<noteq> 32" using n(2) [of 0] name(1) by simp
  then show "skip_spaces r 0 = Some a" using skip_spaces_upto [of a r 0] n(1) by simp
  have stop: "r (a + length name) = 32 \<or> r (a + length name) = 0"
  proof (cases "0 < b")
    case False
    then show ?thesis using n(5) assms by (auto simp: command_line_def)
  qed (use n(3) [of 0] in simp)
  show "copy_cmd 32 r a 0 s = (a + length name, length name, s\<lparr>mem := write_list (mem s) cmd name\<rparr>)"
    using copy_cmd_spec [of name 32 r a 0 s] n(2) name(2) stop by simp
  have "r (a + length name + b) \<noteq> 32"
  proof (cases "arg = []")
    case False
    then show ?thesis using n(4) [of 0] assms by (simp add: command_line_def hd_conv_nth)
  qed (use n(5) in simp)
  then show "skip_spaces r (a + length name) = Some (a + length name + b)" using skip_spaces_upto [of b r "a + length name"] n(3) by simp
  show "copy_arg r p (a + length name + b) 0 s = Some (s\<lparr>mem := write_list (mem s) (PcbArg p, 0) (arg @ [0])\<rparr>)"
    using copy_arg_spec [of 0 arg r "a + length name + b" p s] n(4,5) name(3) by simp
qed

lemma execute_lookup:
  assumes cl: "command_line r a name b arg" and wf: "wf_dir s" and "our_popcount (pcb_status s) \<noteq> 6"
  shows "\<exists>m. locals_only m s \<and> (\<forall>j. dir_lookup s name = Some j \<longrightarrow> read_list m cmd_dentry 64 = entry_bytes s j) \<and>
    sys_execute e1 e2 r s = (case dir_lookup s name of
      None \<Rightarrow> Some (Returns (-1), sti ((cli s)\<lparr>mem := m\<rparr>))
    | Some j \<Rightarrow> do {
        (new_pcb, s) \<leftarrow> create_pcb r (a + length name) ((cli s)\<lparr>mem := m\<rparr>);
        if \<not> is_elf s then Some (Returns (-1), sti s) else start_program e1 e2 new_pcb s
      })"
proof -
  let ?m1 = "write_list (mem s) cmd (name @ [0])"
  let ?s1 = "(cli s)\<lparr>mem := ?m1\<rparr>"
  have len: "length name \<le> 32" using cl by (simp add: command_line_def)
  have m1: "(write_list (mem s) cmd name)((Local 3, of_nat (length name)) := 0) = ?m1"
    using write_list_append [of "mem s" cmd name "[0]"] by (simp add: fun_upd_def padd_def)
  have s1: "st8 (Local 3, of_nat (length name)) 0 ((cli s)\<lparr>mem := write_list (mem s) cmd name\<rparr>) = ?s1"
    using write_list_append [of "mem s" cmd name "[0]"] by (simp add: st8_def upd_mem_def fun_upd_def padd_def)
  have lo: "locals_only ?m1 (cli s)" by (simp add: locals_only_def write_list_other_block)
  have wfc: "wf_dir (cli s)" "dir_lookup (cli s) name = dir_lookup s name" "entry_bytes (cli s) j = entry_bytes s j" for j
    using wf by (simp_all add: wf_dir_def wf_image_def num_entries_def fs_word_def img_size_def num_inodes_def num_blocks_def
        dir_lookup_def entry_name_def img_def entry_bytes_def)
  note d = locals_dir [OF lo wfc(1)]
  have eb: "entry_bytes ?s1 = entry_bytes s" by (rule ext) (simp add: d wfc)
  have "rdr ?m1 cmd i = (name @ [0]) ! i" if "i \<le> length name" for i
    using that len write_list_padd [of "name @ [0]" i "mem s" cmd] by (simp add: rdr_def)
  then have c: "cstr (rdr ?m1 cmd) name"
    using command_line_nth(2) [OF cl] by (auto simp: cstr_def nth_append in_set_conv_nth)
  obtain m where m: "\<forall>q. fst q \<noteq> Local 1 \<longrightarrow> m q = ?m1 q" "read_dentry_by_name (rdr ?m1 cmd) cmd_dentry ?s1 = Some (case dir_lookup s name of
      None \<Rightarrow> (-1, ?s1\<lparr>mem := m\<rparr>) | Some j \<Rightarrow> (0, ?s1\<lparr>mem := write_list m cmd_dentry (entry_bytes s j)\<rparr>))"
    using read_dentry_by_name_spec [OF d(1) c, of cmd_dentry] unfolding eb d(2) wfc(2) by auto
  define m2 where "m2 = (case dir_lookup s name of None \<Rightarrow> m | Some j \<Rightarrow> write_list m cmd_dentry (entry_bytes s j))"
  have "locals_only m2 s" using m(1) lo by (auto simp: m2_def locals_only_def write_list_other_block split: option.split)
  moreover have "read_list m2 cmd_dentry 64 = entry_bytes s j" if "dir_lookup s name = Some j" for j
    using that by (simp add: m2_def read_list_write_list)
  moreover have "read_dentry_by_name (rdr ?m1 cmd) cmd_dentry ?s1 = Some (case dir_lookup s name of None \<Rightarrow> -1 | Some j \<Rightarrow> 0, (cli s)\<lparr>mem := m2\<rparr>)"
    using m(2) by (simp add: m2_def split: option.split)
  ultimately show ?thesis
    using assms(3) command_line_parse [OF cl]
    by (intro exI [of _ m2]) (simp add: sys_execute_def Let_def s1 m1 split: option.split)
qed

text \<open>Memory with the same physical part.\<close>

lemma phys_image:
  assumes "\<forall>q. fst q = Phys \<longrightarrow> m q = mem s q"
  shows "same_image s (s\<lparr>mem := m\<rparr>)"
  using assms by (simp add: same_image_def img_def)

lemma read_file_head:
  assumes "wf_image s" and "wf_file s (unat ino)" and "unat n < 2 ^ 31" and "fst buf \<noteq> Phys"
  shows "read_data ino 0 buf n s = Some (int (min (unat n) (file_size s (unat ino))),
    s\<lparr>mem := write_list (mem s) buf (take (unat n) (file_bytes s (unat ino)))\<rparr>)"
  using read_data_spec [OF assms(1,2), of 0 n buf] assms(3,4)
  by (simp add: img_separate_def separate_blocks img_def upd_mem_def read_slice_def)

lemma dentry_inode_cong: "read_list m d 64 = read_list m' d' 64 \<Longrightarrow> dentry_inode_num m d = dentry_inode_num m' d'"
proof -
  assume eq: "read_list m d 64 = read_list m' d' 64"
  have "m (padd d (of_nat (36 + i))) = m' (padd d' (of_nat (36 + i)))" if "i < 4" for i
    using arg_cong [OF eq, of "\<lambda>l. l ! (36 + i)"] that by (simp del: of_nat_add)
  then show ?thesis unfolding dentry_inode_num_def by (intro ld32_cong nth_equalityI) simp_all
qed

lemma entry_bytes_inode:
  assumes "read_list m d 64 = entry_bytes s j"
  shows "dentry_inode_num m d = entry_ino s j"
proof -
  have "entry_bytes s j = read_list (mem s) (img s (64 * Suc j)) 64" by (simp add: entry_bytes_def del: mult_Suc_right)
  then have "dentry_inode_num m d = dentry_inode_num (mem s) (img s (64 * Suc j))" using assms by (intro dentry_inode_cong) simp
  then show ?thesis using img_add [of s "64 * Suc j" 36] by (simp add: dentry_inode_num_def entry_ino_def)
qed

text \<open>The new control block: its slot, its descriptors, its argument, and the head of the file.\<close>

definition new_pcb_state :: "nat \<Rightarrow> kernel \<Rightarrow> kernel" where
  "new_pcb_state n s = upd_pcb (pcb_addr n) (\<lambda>b. b\<lparr>pcb_num := of_nat n, io_files := free_from 0 (io_files b)\<rparr>) (snd (take_pcb s))"

lemma new_pcb_state_fields:
  "mem (new_pcb_state n s) = mem s" "fs_addr (new_pcb_state n s) = fs_addr s" "cr3 (new_pcb_state n s) = cr3 s" "terminals (new_pcb_state n s) = terminals s"
  "vis_term_id (new_pcb_state n s) = vis_term_id s" "sched_term_id (new_pcb_state n s) = sched_term_id s" "starting_new_shell (new_pcb_state n s) = starting_new_shell s"
  "pcbs (new_pcb_state n s) = (pcbs s)(pcb_addr n := (pcbs s (pcb_addr n))\<lparr>pcb_num := of_nat n, io_files := free_from 0 (io_files (pcbs s (pcb_addr n)))\<rparr>)"
  "iflag (new_pcb_state n s) = iflag s" "except_raised (new_pcb_state n s) = except_raised s"
  by (simp_all add: new_pcb_state_def take_pcb_def find_empty_pcb_def Let_def)

lemma create_pcb_spec:
  assumes cl: "command_line r a name b arg" and used: "card (used_slots s) < 32" and "wf_image s"
    and ino: "dentry_inode_num (mem s) cmd_dentry = of_nat ino" "wf_file s ino"
  defines "n \<equiv> fst (take_pcb s)"
  shows "\<exists>m. create_pcb r (a + length name) s = Some (pcb_addr n, (new_pcb_state n s)\<lparr>mem := m\<rparr>)
    \<and> (\<forall>q. fst q = Phys \<longrightarrow> m q = mem s q) \<and> (\<forall>x. m (Local 4, x) = mem s (Local 4, x))
    \<and> read_list m file_data (min 30 (file_size s ino)) = take 30 (file_bytes s ino)
    \<and> cstr (rdr m (PcbArg (pcb_addr n), 0)) arg"
proof -
  let ?p = "pcb_addr n"
  define m1 where "m1 = memcpy (memset (write_list (mem s) (PcbArg ?p, 0) (replicate 129 0)) (PcbCmd ?p, 0) 0 33) (PcbCmd ?p, 0) cmd 33"
  define m2 where "m2 = write_list m1 (PcbArg ?p, 0) (arg @ [0])"
  let ?s = "(new_pcb_state n s)\<lparr>mem := m2\<rparr>"
  have m1: "m1 q = mem s q" if "fst q \<noteq> PcbArg ?p" "fst q \<noteq> PcbCmd ?p" for q
    using that by (simp add: m1_def memcpy_other_block memset_eq write_list_other_block)
  have m2: "m2 q = mem s q" if "fst q \<noteq> PcbArg ?p" "fst q \<noteq> PcbCmd ?p" for q
    using that m1 [of q] by (simp add: m2_def write_list_other_block)
  have same: "same_image s ?s" using m2 by (simp add: same_image_def img_def new_pcb_state_fields)
  note f = same_image_file [OF same assms(3) ino(2)]
  have "ino < unat (fs_word s 1)" using ino(2) by (simp add: wf_file_def num_inodes_def)
  then have ino_bound: "ino < 4294967296" using unat_u32_bound [of "fs_word s 1"] by linarith
  have inum: "dentry_inode_num m2 cmd_dentry = of_nat ino"
    using ino(1) m2 by (simp add: dentry_inode_num_def ld32_def)
  have u: "unat (of_nat ino :: u32) = ino" using ino_bound by (intro unat_of_nat_u32) simp
  define m3 where "m3 = write_list m2 file_data (take 30 (file_bytes s ino))"
  have rd: "read_data (of_nat ino) 0 file_data 30 ?s = Some (int (min 30 (file_size s ino)), ?s\<lparr>mem := m3\<rparr>)"
    using read_file_head [of ?s "of_nat ino" 30 file_data] f by (simp add: u m3_def)
  have "create_pcb r (a + length name) s = Some (?p, ?s\<lparr>mem := m3\<rparr>)"
    using command_line_parse(3,4) [OF cl] rd inum unfolding create_pcb_def init_pcb_spec [OF used, folded n_def new_pcb_state_def]
    by (simp add: Let_def upd_mem_def m1_def [symmetric] m2_def [symmetric] new_pcb_state_fields)
  moreover have "m3 q = mem s q" if "fst q = Phys \<or> fst q = Local 4" for q
    using that m2 [of q] by (auto simp: m3_def write_list_other_block)
  moreover have "length (file_bytes s ino) = file_size s ino" by (simp add: file_bytes_def)
  then have "read_list m3 file_data (min 30 (file_size s ino)) = take 30 (file_bytes s ino)"
    by (simp add: m3_def read_list_write_list min_def)
  moreover have "cstr (rdr m3 (PcbArg ?p, 0)) arg"
  proof -
    have l: "length arg < 129" "0 \<notin> set arg" using cl by (auto simp: command_line_def cstr_def)
    have "rdr m3 (PcbArg ?p, 0) i = (arg @ [0]) ! i" if "i \<le> length arg" for i
      using that l(1) write_list_padd [of "arg @ [0]" i m1 "(PcbArg ?p, 0)"] by (simp add: m3_def m2_def rdr_def write_list_other_block)
    then show ?thesis using l(2) by (auto simp: cstr_def nth_append)
  qed
  ultimately show ?thesis by (intro exI [of _ m3]) simp
qed

lemma is_elf_iff: "is_elf s \<longleftrightarrow> read_list (mem s) file_data 4 = [0x7F, 0x45, 0x4C, 0x46]"
proof -
  have four: "unat (4 :: u32) = Suc (Suc (Suc (Suc 0)))" "(4 :: nat) = Suc (Suc (Suc (Suc 0)))" by simp_all
  have "strncmp r (lit [CHR 0x7F, CHR ''E'', CHR ''L'', CHR ''F'']) 4 = 0 \<longleftrightarrow> map r [0..<4] = [0x7F, 0x45, 0x4C, 0x46]" for r
    unfolding strncmp_def four strncmp_from_0_iff by (auto simp: lit_def All_less_Suc)
  then show ?thesis by (simp add: is_elf_def read_list_def)
qed

text \<open>The standard descriptors of a new process.\<close>

lemma open_slot_device:
  assumes "p \<noteq> 0"
  shows "open_slot i p (lit ''stdin'') s = Some (int i, upd_fd p i (\<lambda>f. f\<lparr>file_pos := 0, flags := IN_USE, file_ops := stdin, inode := 0\<rparr>) s)"
    and "open_slot i p (lit ''stdout'') s = Some (int i, upd_fd p i (\<lambda>f. f\<lparr>file_pos := 0, flags := IN_USE, file_ops := stdout, inode := 0\<rparr>) s)"
proof -
  have c: "cstr (lit ''stdin'') (bytes_of ''stdin'')" "cstr (lit ''stdout'') (bytes_of ''stdout'')" by (rule cstr_lit, simp)+
  note n = device_name_strncmp [OF c(1)] device_name_strncmp [OF c(2)]
  show "open_slot i p (lit ''stdin'') s = Some (int i, upd_fd p i (\<lambda>f. f\<lparr>file_pos := 0, flags := IN_USE, file_ops := stdin, inode := 0\<rparr>) s)"
    using n(1) by (simp add: open_slot_def upd_fd_upd_fd)
  show "open_slot i p (lit ''stdout'') s = Some (int i, upd_fd p i (\<lambda>f. f\<lparr>file_pos := 0, flags := IN_USE, file_ops := stdout, inode := 0\<rparr>) s)"
    using n(3,4) by (simp add: open_slot_def upd_fd_upd_fd)
qed

lemma terminal_open_spec:
  assumes "cur_pcb s \<noteq> 0" and "\<forall>i < 8. flags (cur_fd s i) = NOT_USED"
  shows "terminal_open s = Some (0, upd_fd (cur_pcb s) 1 (\<lambda>f. f\<lparr>file_pos := 0, flags := IN_USE, file_ops := stdout, inode := 0\<rparr>)
    (upd_fd (cur_pcb s) 0 (\<lambda>f. f\<lparr>file_pos := 0, flags := IN_USE, file_ops := stdin, inode := 0\<rparr>) s))"
proof -
  have up: "[0..<8] = 0 # 1 # [2..<8]" by (simp add: upt_rec)
  let ?s = "upd_fd (cur_pcb s) 0 (\<lambda>f. f\<lparr>file_pos := 0, flags := IN_USE, file_ops := stdin, inode := 0\<rparr>) s"
  have "first_free (io_files (pcbs s (cur_pcb s))) = Some 0" "first_free (io_files (pcbs ?s (cur_pcb s))) = Some 1"
    using assms(2) by (simp_all add: first_free_def up cur_fd_def)
  then show ?thesis using assms(1) open_slot_device [OF assms(1)] by (simp add: terminal_open_def open_file_desc_eq)
qed

text \<open>The page of the process in slot \<open>n\<close>, and where its program is loaded.\<close>

definition prog_page :: "nat \<Rightarrow> u32" where
  "prog_page n = PROGRAM_1_PHYS + of_nat n * FOUR_MB"

abbreviation prog_dir :: "kernel \<Rightarrow> ptr" where "prog_dir s \<equiv> (Phys, cr3 s + 128)"
abbreviation prog_load :: "nat \<Rightarrow> ptr" where "prog_load n \<equiv> (Phys, prog_page n + PROGRAM_VIRT_OFF)"

lemma slot_cases: "n < 6 \<Longrightarrow> n = 0 \<or> n = 1 \<or> n = 2 \<or> n = 3 \<or> n = 4 \<or> n = (5 :: nat)"
  by linarith

lemma map_program:
  assumes "n < 6"
  shows "map_page (prog_page n) PROGRAM_VIRT True True True True s = (0, upd_mem (\<lambda>m. st32 m (prog_dir s) (prog_page n + 0x87)) s)"
  using slot_cases [OF assms] by (elim disjE) (simp_all add: prog_page_def map_page_def Let_def drop_bit_eq_div)

lemma resolve_program:
  assumes "n < 6" and "ld32 (mem s) (prog_dir s) = prog_page n + 0x87"
  shows "resolve_virt_addr (PROGRAM_VIRT + PROGRAM_VIRT_OFF) s = prog_page n + PROGRAM_VIRT_OFF"
  using slot_cases [OF assms(1)] assms(2) by (elim disjE) (simp_all add: prog_page_def resolve_virt_addr_def Let_def drop_bit_eq_div)

text \<open>The link to the parent, or to the terminal that gets a new shell.\<close>

definition started_term :: "kernel \<Rightarrow> int" where
  "started_term s = (if starting_new_shell s then sched_term_id s else vis_term_id s)"

text \<open>What the start of a process in slot \<open>n\<close> leaves alone.\<close>

definition others_kept :: "nat \<Rightarrow> kernel \<Rightarrow> kernel \<Rightarrow> bool" where
  "others_kept n s s' \<longleftrightarrow> sched_term_id s' = sched_term_id s \<and> except_raised s' = except_raised s
     \<and> (\<forall>q. q \<noteq> pcb_addr n \<longrightarrow> page_addr (pcbs s' q) = page_addr (pcbs s q) \<and> esp0 (pcbs s' q) = esp0 (pcbs s q))"

lemma others_kept_trans: "others_kept n s t \<Longrightarrow> others_kept n t u \<Longrightarrow> others_kept n s u"
  by (simp add: others_kept_def)

lemma link_parent_spec:
  assumes "starting_new_shell s \<or> cur_task (terminals s (vis_term_id s)) \<noteq> 0"
  shows "\<exists>s'. link_parent e1 e2 p s = Some s' \<and> mem s' = mem s \<and> fs_addr s' = fs_addr s \<and> cr3 s' = cr3 s \<and> pcb_status s' = pcb_status s
    \<and> tss_esp0 s' = tss_esp0 s \<and> (\<forall>q. io_files (pcbs s' q) = io_files (pcbs s q) \<and> page_addr (pcbs s' q) = page_addr (pcbs s q))
    \<and> terminals s' = (terminals s)(started_term s := (terminals s (started_term s))\<lparr>cur_task := p\<rparr>)
    \<and> (\<not> starting_new_shell s \<longrightarrow> (let par = cur_task (terminals s (vis_term_id s)) in
         parent_task (pcbs s' p) = par \<and> esp (pcbs s' par) = e1 \<and> ebp (pcbs s' par) = e2))
    \<and> others_kept n s s'"
  using assms by (auto simp: link_parent_def Let_def started_term_def others_kept_def)

text \<open>
  Where a program is loaded: the page directory entry and the loaded bytes are outside the file system
  image and outside each other.
\<close>

definition load_ok :: "kernel \<Rightarrow> nat \<Rightarrow> nat \<Rightarrow> bool" where
  "load_ok s n ino \<longleftrightarrow> wf_image s \<and> wf_file s ino \<and> img_separate s (prog_dir s) 4 \<and> img_separate s (prog_load n) (file_size s ino)
     \<and> separate (prog_load n) (file_size s ino) (prog_dir s) 4"

text \<open>The state of a process that has just been started.\<close>

definition started :: "kernel \<Rightarrow> nat \<Rightarrow> u8 list \<Rightarrow> u32 \<Rightarrow> u32 \<Rightarrow> kernel \<Rightarrow> bool" where
  "started s n file e1 e2 s' \<longleftrightarrow> (let p = pcb_addr n in
     iflag s' \<and> cur_pcb s' = p \<and> tss_esp0 s' = 0x800000 - of_nat n * 0x2000 - 4 \<and> page_addr (pcbs s' p) = prog_page n
     \<and> resolve_virt_addr 0x8048000 s' = prog_page n + 0x48000
     \<and> read_list (mem s') (prog_load n) (length file) = file
     \<and> file_ops (cur_fd s' 0) = stdin \<and> file_ops (cur_fd s' 1) = stdout \<and> fd_used s' = {0, 1}
     \<and> cur_task (terminals s' (started_term s)) = p \<and> others_kept n s s'
     \<and> (\<not> starting_new_shell s \<longrightarrow> (let par = cur_task (terminals s (vis_term_id s)) in
          parent_task (pcbs s' p) = par \<and> esp (pcbs s' par) = e1 \<and> ebp (pcbs s' par) = e2)))"

lemma file_size_word: "fs_word s ((of_nat ino + 1) * BLK_SIZE_UINTS) = of_nat (file_size s (unat (of_nat ino :: u32)))"
  using inode_size [of s "of_nat ino"] by (simp add: fs_word_def)

lemma load_program:
  assumes ok: "load_ok s n ino" and n: "n < 6" and t: "same_image s t" "cr3 t = cr3 s" "mem t = st32 (mem s) (prog_dir s) (prog_page n + 0x87)"
    and i: "unat (of_nat ino :: u32) = ino"
  shows "\<exists>r. read_data (of_nat ino) 0 (user_ptr (PROGRAM_VIRT + PROGRAM_VIRT_OFF) t) (fs_word t ((of_nat ino + 1) * BLK_SIZE_UINTS)) t =
      Some (r, t\<lparr>mem := write_list (mem t) (prog_load n) (file_bytes s ino)\<rparr>)"
    and "ld32 (write_list (mem t) (prog_load n) (file_bytes s ino)) (prog_dir s) = prog_page n + 0x87"
proof -
  have len: "length (file_bytes s ino) = file_size s ino" by (simp add: file_bytes_def)
  have ld: "ld32 (mem t) (prog_dir t) = prog_page n + 0x87" by (simp add: t ld32_st32_same)
  show "ld32 (write_list (mem t) (prog_load n) (file_bytes s ino)) (prog_dir s) = prog_page n + 0x87"
    using ok ld t(2) by (simp add: load_ok_def ld32_write_list_separate len)
  have u: "user_ptr (PROGRAM_VIRT + PROGRAM_VIRT_OFF) t = prog_load n"
    unfolding user_ptr_def resolve_program [OF n ld] by simp
  note f = same_image_file [OF t(1)] and c = same_image_counts [OF t(1)]
  have wf: "wf_image s" "wf_file s ino" using ok by (simp_all add: load_ok_def)
  have sz: "file_size s ino < 2 ^ 31" "file_size t ino = file_size s ino" using wf f by (simp_all add: wf_file_def)
  have sep: "img_separate t (prog_load n) (file_size s ino)" using ok c by (simp add: load_ok_def img_separate_def)
  have "read_data (of_nat ino) 0 (prog_load n) (of_nat (file_size s ino)) t =
      Some (int (file_size s ino), t\<lparr>mem := write_list (mem t) (prog_load n) (file_bytes s ino)\<rparr>)"
    using read_data_spec [of t "of_nat ino" 0 "of_nat (file_size s ino)" "prog_load n"] f wf sz sep
    by (simp add: i upd_mem_def read_slice_def len)
  then show "\<exists>r. read_data (of_nat ino) 0 (user_ptr (PROGRAM_VIRT + PROGRAM_VIRT_OFF) t) (fs_word t ((of_nat ino + 1) * BLK_SIZE_UINTS)) t =
      Some (r, t\<lparr>mem := write_list (mem t) (prog_load n) (file_bytes s ino)\<rparr>)"
    unfolding u file_size_word i sz(2) by blast
qed

text \<open>The state before the link to the parent, and the state before the program is copied.\<close>

definition before_link :: "nat \<Rightarrow> kernel \<Rightarrow> kernel" where
  "before_link n s = upd_pcb (pcb_addr n) (\<lambda>b. b\<lparr>page_addr := prog_page n, parent_task := NULL, pid := numproc s, fd_status := 3,
       esp0 := 0x800000 - of_nat n * 0x2000 - 4\<rparr>)
     (s\<lparr>mem := st32 (mem s) (prog_dir s) (prog_page n + 0x87), numproc := numproc s + 1, tss_esp0 := 0x800000 - of_nat n * 0x2000 - 4\<rparr>)"

lemma before_link_fields:
  "mem (before_link n s) = st32 (mem s) (prog_dir s) (prog_page n + 0x87)" "fs_addr (before_link n s) = fs_addr s" "cr3 (before_link n s) = cr3 s"
  "pcb_status (before_link n s) = pcb_status s" "terminals (before_link n s) = terminals s" "vis_term_id (before_link n s) = vis_term_id s"
  "sched_term_id (before_link n s) = sched_term_id s" "starting_new_shell (before_link n s) = starting_new_shell s"
  "tss_esp0 (before_link n s) = 0x800000 - of_nat n * 0x2000 - 4" "page_addr (pcbs (before_link n s) (pcb_addr n)) = prog_page n"
  "io_files (pcbs (before_link n s) (pcb_addr n)) = io_files (pcbs s (pcb_addr n))" "started_term (before_link n s) = started_term s" "others_kept n s (before_link n s)"
  by (simp_all add: before_link_def started_term_def others_kept_def)

lemma start_program_eq:
  assumes n: "n < 6" and p: "pcb_num (pcbs s (pcb_addr n)) = of_nat n"
  shows "start_program e1 e2 (pcb_addr n) s = do {
     s \<leftarrow> link_parent e1 e2 (pcb_addr n) (before_link n s);
     (_, s) \<leftarrow> terminal_open (s\<lparr>cur_pcb := pcb_addr n\<rparr>);
     let inode_num = dentry_inode_num (mem s) cmd_dentry;
     (_, s') \<leftarrow> read_data inode_num 0 (user_ptr (PROGRAM_VIRT + PROGRAM_VIRT_OFF) s) (fs_word s ((inode_num + 1) * BLK_SIZE_UINTS)) s;
     Some (Enters (ld32 (mem s) (padd file_data 24)) 0x83FFFFC, sti s')
   }"
proof -
  let ?p = "pcb_addr n" and ?m = "st32 (mem s) (prog_dir s) (prog_page n + 0x87)"
  define s1 where "s1 = upd_pcb ?p (\<lambda>b. b\<lparr>page_addr := prog_page n\<rparr>) s"
  define s2 where "s2 = upd_pcb ?p (\<lambda>b. b\<lparr>parent_task := NULL, pid := numproc s, fd_status := 3\<rparr>) (s1\<lparr>mem := ?m\<rparr>)"
  define s3 where "s3 = s2\<lparr>numproc := numproc s + 1, tss_esp0 := 0x800000 - of_nat n * 0x2000 - 4\<rparr>"
  have page: "upd_pcb ?p (\<lambda>b. b\<lparr>page_addr := PROGRAM_1_PHYS + pcb_num b * FOUR_MB\<rparr>) s = s1"
    using p by (simp add: s1_def upd_pcb_def prog_page_def)
  have map: "flush_tlb (snd (map_page (page_addr (pcbs s1 ?p)) PROGRAM_VIRT True True True True s1)) = s1\<lparr>mem := ?m\<rparr>"
    using map_program [OF n, of s1] by (simp add: s1_def flush_tlb_def upd_mem_def)
  have s2: "upd_pcb ?p (\<lambda>b. b\<lparr>parent_task := NULL, pid := numproc (s1\<lparr>mem := ?m\<rparr>), fd_status := 3\<rparr>) (s1\<lparr>mem := ?m\<rparr>) = s2"
    by (simp add: s2_def s1_def)
  have s3: "s2\<lparr>numproc := numproc s2 + 1, tss_esp0 := END_OF_KERNEL_PAGE - pcb_num (pcbs (s2\<lparr>numproc := numproc s2 + 1\<rparr>) ?p) * PCB_PLUS_STACK - 4\<rparr> = s3"
    using p by (simp add: s3_def s2_def s1_def)
  have s4: "upd_pcb ?p (\<lambda>b. b\<lparr>esp0 := tss_esp0 s3\<rparr>) s3 = before_link n s"
    by (simp add: s3_def s2_def s1_def before_link_def upd_pcb_def)
  show ?thesis unfolding start_program_def Let_def page map s2 s3 s4 by simp
qed

lemma start_program_prepared:
  assumes n: "n < 6" and link: "starting_new_shell s \<or> cur_task (terminals s (vis_term_id s)) \<noteq> 0"
    and p: "\<forall>i < 8. flags (io_files (pcbs s (pcb_addr n)) i) = NOT_USED"
  shows "\<exists>t0 t. link_parent e1 e2 (pcb_addr n) (before_link n s) = Some t0 \<and> terminal_open (t0\<lparr>cur_pcb := pcb_addr n\<rparr>) = Some (0, t)
    \<and> mem t = st32 (mem s) (prog_dir s) (prog_page n + 0x87) \<and> fs_addr t = fs_addr s \<and> cr3 t = cr3 s \<and> pcb_status t = pcb_status s
    \<and> cur_pcb t = pcb_addr n \<and> tss_esp0 t = 0x800000 - of_nat n * 0x2000 - 4 \<and> page_addr (pcbs t (pcb_addr n)) = prog_page n
    \<and> file_ops (cur_fd t 0) = stdin \<and> file_ops (cur_fd t 1) = stdout \<and> fd_used t = {0, 1}
    \<and> cur_task (terminals t (started_term s)) = pcb_addr n \<and> others_kept n s t
    \<and> (\<not> starting_new_shell s \<longrightarrow> (let par = cur_task (terminals s (vis_term_id s)) in
         parent_task (pcbs t (pcb_addr n)) = par \<and> esp (pcbs t par) = e1 \<and> ebp (pcbs t par) = e2))"
proof -
  let ?p = "pcb_addr n"
  obtain s5 where s5: "link_parent e1 e2 ?p (before_link n s) = Some s5" "mem s5 = st32 (mem s) (prog_dir s) (prog_page n + 0x87)" "fs_addr s5 = fs_addr s" "cr3 s5 = cr3 s" "pcb_status s5 = pcb_status s"
    "tss_esp0 s5 = 0x800000 - of_nat n * 0x2000 - 4" "page_addr (pcbs s5 ?p) = prog_page n" "io_files (pcbs s5 ?p) = io_files (pcbs s ?p)"
    "terminals s5 = (terminals s)(started_term s := (terminals s (started_term s))\<lparr>cur_task := ?p\<rparr>)"
    "\<not> starting_new_shell s \<longrightarrow> (let par = cur_task (terminals s (vis_term_id s)) in
         parent_task (pcbs s5 ?p) = par \<and> esp (pcbs s5 par) = e1 \<and> ebp (pcbs s5 par) = e2)"
    "others_kept n (before_link n s) s5"
    using link_parent_spec [of "before_link n s" e1 e2 ?p n] link unfolding before_link_fields by (auto simp: before_link_fields)
  let ?in = "upd_fd ?p 0 (\<lambda>f. f\<lparr>file_pos := 0, flags := IN_USE, file_ops := stdin, inode := 0\<rparr>)"
  let ?out = "upd_fd ?p 1 (\<lambda>f. f\<lparr>file_pos := 0, flags := IN_USE, file_ops := stdout, inode := 0\<rparr>)"
  define s6 where "s6 = ?out (?in (s5\<lparr>cur_pcb := ?p\<rparr>))"
  have open6: "terminal_open (s5\<lparr>cur_pcb := ?p\<rparr>) = Some (0, s6)"
    using terminal_open_spec [of "s5\<lparr>cur_pcb := ?p\<rparr>"] p s5(8) pcb_addr_nonzero [of n] n by (simp add: s6_def cur_fd_def)
  have used: "fd_used s6 = {0, 1}" using p s5(8) by (auto simp: fd_used_def s6_def cur_fd_def)
  have f6: "mem s6 = st32 (mem s) (prog_dir s) (prog_page n + 0x87)" "fs_addr s6 = fs_addr s" "cr3 s6 = cr3 s" "pcb_status s6 = pcb_status s" "cur_pcb s6 = ?p"
    "tss_esp0 s6 = 0x800000 - of_nat n * 0x2000 - 4" "terminals s6 = terminals s5"
    "file_ops (cur_fd s6 0) = stdin" "file_ops (cur_fd s6 1) = stdout" "page_addr (pcbs s6 ?p) = prog_page n"
    "esp (pcbs s6 q) = esp (pcbs s5 q)" "ebp (pcbs s6 q) = ebp (pcbs s5 q)" "parent_task (pcbs s6 q) = parent_task (pcbs s5 q)" for q
    by (simp_all add: s6_def s5 cur_fd_def)
  have "others_kept n s5 s6" by (simp add: others_kept_def s6_def)
  then have "others_kept n s s6" using others_kept_trans [OF others_kept_trans [OF before_link_fields(13) s5(11)]] by blast
  then show ?thesis using s5(1,9,10) open6 used f6 by (intro exI [of _ s5] exI [of _ s6]) simp
qed

lemma start_program_spec:
  assumes ok: "load_ok s n ino" and n: "n < 6" and link: "starting_new_shell s \<or> cur_task (terminals s (vis_term_id s)) \<noteq> 0"
    and p: "pcb_num (pcbs s (pcb_addr n)) = of_nat n" "\<forall>i < 8. flags (io_files (pcbs s (pcb_addr n)) i) = NOT_USED"
    and ino: "dentry_inode_num (mem s) cmd_dentry = of_nat ino" "unat (of_nat ino :: u32) = ino"
  shows "\<exists>s'. start_program e1 e2 (pcb_addr n) s = Some (Enters (ld32 (mem s) (padd file_data 24)) 0x83FFFFC, s')
    \<and> started s n (file_bytes s ino) e1 e2 s' \<and> pcb_status s' = pcb_status s \<and> (\<forall>b a. b \<noteq> Phys \<longrightarrow> mem s' (b, a) = mem s (b, a))"
proof -
  obtain t0 t where t: "link_parent e1 e2 (pcb_addr n) (before_link n s) = Some t0" "terminal_open (t0\<lparr>cur_pcb := pcb_addr n\<rparr>) = Some (0, t)"
    "mem t = st32 (mem s) (prog_dir s) (prog_page n + 0x87)" "fs_addr t = fs_addr s" "cr3 t = cr3 s" "pcb_status t = pcb_status s"
    "cur_pcb t = pcb_addr n \<and> tss_esp0 t = 0x800000 - of_nat n * 0x2000 - 4 \<and> page_addr (pcbs t (pcb_addr n)) = prog_page n
    \<and> file_ops (cur_fd t 0) = stdin \<and> file_ops (cur_fd t 1) = stdout \<and> fd_used t = {0, 1}
    \<and> cur_task (terminals t (started_term s)) = pcb_addr n \<and> others_kept n s t
    \<and> (\<not> starting_new_shell s \<longrightarrow> (let par = cur_task (terminals s (vis_term_id s)) in
         parent_task (pcbs t (pcb_addr n)) = par \<and> esp (pcbs t par) = e1 \<and> ebp (pcbs t par) = e2))"
    using start_program_prepared [OF n link p(2), of e1 e2] by auto
  have same: "same_image s t"
    using same_image_write [of s s "prog_dir s" 4 0 "bytes32 (prog_page n + 0x87)"] ok t(3,4)
    by (simp add: load_ok_def same_image_def st_bytes)
  note ld = load_program [OF ok n same t(5,3) ino(2)]
  have other: "mem t (b, a) = mem s (b, a)" if "b \<noteq> Phys" for b a using that by (simp add: t(3) st32_other_block)
  then have head: "dentry_inode_num (mem t) cmd_dentry = of_nat ino" "ld32 (mem t) (padd file_data 24) = ld32 (mem s) (padd file_data 24)"
    using ino(1) by (simp_all add: dentry_inode_num_def ld32_def padd_def)
  let ?m = "write_list (mem t) (prog_load n) (file_bytes s ino)"
  have "start_program e1 e2 (pcb_addr n) s = Some (Enters (ld32 (mem s) (padd file_data 24)) 0x83FFFFC, sti (t\<lparr>mem := ?m\<rparr>))"
    using start_program_eq [OF n p(1), of e1 e2] t(1,2) ld(1) head by auto
  moreover have "length (file_bytes s ino) \<le> 2 ^ 32" using ok by (simp add: load_ok_def wf_file_def file_bytes_def)
  then have "read_list ?m (prog_load n) (length (file_bytes s ino)) = file_bytes s ino" by (simp add: read_list_write_list)
  moreover have "resolve_virt_addr 0x8048000 (sti (t\<lparr>mem := ?m\<rparr>)) = prog_page n + 0x48000"
    using resolve_program [OF n, of "sti (t\<lparr>mem := ?m\<rparr>)"] ld(2) t(5) by simp
  moreover have cf: "cur_fd (sti (t\<lparr>mem := ?m\<rparr>)) = cur_fd t" "fd_used (sti (t\<lparr>mem := ?m\<rparr>)) = fd_used t"
    by (simp_all add: fd_used_def cur_fd_def fun_eq_iff)
  ultimately have "started s n (file_bytes s ino) e1 e2 (sti (t\<lparr>mem := ?m\<rparr>))"
    using t(7) cf by (simp add: started_def Let_def others_kept_def)
  then show ?thesis using \<open>start_program e1 e2 (pcb_addr n) s = _\<close> t(6) other
    by (intro exI [of _ "sti (t\<lparr>mem := ?m\<rparr>)"]) (simp add: write_list_other_block)
qed

lemma load_ok_same:
  assumes "same_image s u" and "cr3 u = cr3 s" and "load_ok s n ino"
  shows "load_ok u n ino" and "file_bytes u ino = file_bytes s ino"
proof -
  have wf: "wf_image s" "wf_file s ino" using assms(3) by (simp_all add: load_ok_def)
  note f = same_image_file [OF assms(1) wf] and c = same_image_counts [OF assms(1)]
  show "load_ok u n ino" using assms(2,3) f c by (simp add: load_ok_def img_separate_def)
  show "file_bytes u ino = file_bytes s ino" by (rule f(2))
qed

definition elf_magic :: "u8 list" where "elf_magic = [0x7F, 0x45, 0x4C, 0x46]"

text \<open>The entry point in the header of an executable.\<close>

definition elf_entry :: "u8 list \<Rightarrow> u32" where
  "elf_entry file = ucast (file ! 24) OR push_bit 8 (ucast (file ! 25)) OR push_bit 16 (ucast (file ! 26)) OR push_bit 24 (ucast (file ! 27))"

lemma file_head:
  assumes "read_list m file_data (min 30 (length file)) = take 30 file"
  shows "4 \<le> length file \<Longrightarrow> read_list m file_data 4 = elf_magic \<longleftrightarrow> take 4 file = elf_magic"
    and "28 \<le> length file \<Longrightarrow> ld32 m (padd file_data 24) = elf_entry file"
proof -
  have byte: "m (Local 5, of_nat i) = file ! i" if "i < min 30 (length file)" for i
    using arg_cong [OF assms, of "\<lambda>l. l ! i"] that by (simp add: padd_def)
  show "read_list m file_data 4 = elf_magic \<longleftrightarrow> take 4 file = elf_magic" if "4 \<le> length file"
  proof -
    have "read_list m file_data 4 = take 4 file" using that byte by (intro nth_equalityI) (auto simp: padd_def)
    then show ?thesis by simp
  qed
  show "ld32 m (padd file_data 24) = elf_entry file" if "28 \<le> length file"
    using that byte [of 24] byte [of 25] byte [of 26] byte [of 27] by (simp add: ld32_def elf_entry_def padd_def)
qed

text \<open>A command that names a file: what \<^verbatim>\<open>sys_execute\<close> does up to the check of the format.\<close>

lemma execute_created:
  assumes cl: "command_line r a name b arg" and wf: "wf_dir s" and used: "card (used_slots s) < 6" and j: "dir_lookup s name = Some j"
    and ino: "ino = unat (entry_ino s j)" and wff: "wf_file s ino"
  defines "n \<equiv> fst (take_pcb s)"
  shows "\<exists>u. sys_execute e1 e2 r s = (if is_elf u then start_program e1 e2 (pcb_addr n) u else Some (Returns (-1), sti u))
    \<and> n < 6 \<and> used_slots u = insert n (used_slots s) \<and> same_image s u \<and> cr3 u = cr3 s \<and> terminals u = terminals s \<and> vis_term_id u = vis_term_id s
    \<and> sched_term_id u = sched_term_id s \<and> starting_new_shell u = starting_new_shell s
    \<and> pcb_num (pcbs u (pcb_addr n)) = of_nat n \<and> (\<forall>i < 8. flags (io_files (pcbs u (pcb_addr n)) i) = NOT_USED)
    \<and> dentry_inode_num (mem u) cmd_dentry = of_nat ino
    \<and> read_list (mem u) file_data (min 30 (file_size s ino)) = take 30 (file_bytes s ino)
    \<and> cstr (rdr (mem u) (PcbArg (pcb_addr n), 0)) arg \<and> others_kept n s u"
proof -
  have "our_popcount (pcb_status s) \<noteq> 6" using used popcount_used [of s] by auto
  from execute_lookup [OF cl wf this, of e1 e2] obtain m where m: "locals_only m s" "read_list m cmd_dentry 64 = entry_bytes s j"
    "sys_execute e1 e2 r s = do {
        (new_pcb, s) \<leftarrow> create_pcb r (a + length name) ((cli s)\<lparr>mem := m\<rparr>);
        if \<not> is_elf s then Some (Returns (-1), sti s) else start_program e1 e2 new_pcb s }" using j by auto
  let ?t = "(cli s)\<lparr>mem := m\<rparr>"
  have same: "same_image s ?t" using locals_image [OF m(1)] by (simp add: same_image_def)
  have img: "wf_image s" using wf by (simp add: wf_dir_def)
  note f = same_image_file [OF same img wff]
  have tk: "fst (take_pcb ?t) = n" "used_slots ?t = used_slots s" by (simp_all add: n_def take_pcb_def find_empty_pcb_def used_slots_def Let_def)
  have i: "dentry_inode_num (mem ?t) cmd_dentry = of_nat ino" using entry_bytes_inode [OF m(2)] ino by simp
  have "card (used_slots ?t) < 32" using used tk(2) by simp
  from create_pcb_spec [OF cl this f(3) i f(4)] obtain m2 where m2:
    "create_pcb r (a + length name) ?t = Some (pcb_addr n, (new_pcb_state n ?t)\<lparr>mem := m2\<rparr>)"
    "\<And>q. fst q = Phys \<Longrightarrow> m2 q = mem ?t q" "\<And>x. m2 (Local 4, x) = mem ?t (Local 4, x)"
    "read_list m2 file_data (min 30 (file_size s ino)) = take 30 (file_bytes s ino)" "cstr (rdr m2 (PcbArg (pcb_addr n), 0)) arg"
    by (auto simp: f tk)
  let ?u = "(new_pcb_state n ?t)\<lparr>mem := m2\<rparr>"
  have "n \<le> card (used_slots s)" using proc.take_bound [of s] used by (simp add: n_def)
  moreover have "used_slots ?u = used_slots (snd (take_pcb ?t))" by (simp add: used_slots_def new_pcb_state_def)
  then have "used_slots ?u = insert n (used_slots s)" using proc.take_used [OF proc.not_full, of ?t] used tk by simp
  moreover have "same_image s ?u" using same m2(2) by (simp add: same_image_def img_def new_pcb_state_fields)
  moreover have "dentry_inode_num m2 cmd_dentry = of_nat ino" using i m2(3) by (simp add: dentry_inode_num_def ld32_def padd_def)
  ultimately show ?thesis using m(3) m2(1,4,5) used by (intro exI [of _ ?u]) (auto simp: new_pcb_state_fields free_from_def others_kept_def)
qed

text \<open>The whole call, for a program that can be loaded.\<close>

lemma sys_execute_spec:
  assumes cl: "command_line r a name b arg" and wf: "wf_dir s" and used: "card (used_slots s) < 6" and j: "dir_lookup s name = Some j"
    and ino: "ino = unat (entry_ino s j)" and ok: "load_ok s (fst (take_pcb s)) ino"
    and elf: "28 \<le> file_size s ino" "take 4 (file_bytes s ino) = elf_magic"
    and link: "starting_new_shell s \<or> cur_task (terminals s (vis_term_id s)) \<noteq> 0"
  defines "n \<equiv> fst (take_pcb s)"
  shows "\<exists>s'. sys_execute e1 e2 r s = Some (Enters (elf_entry (file_bytes s ino)) 0x83FFFFC, s')
    \<and> started s n (file_bytes s ino) e1 e2 s' \<and> used_slots s' = insert n (used_slots s)
    \<and> cstr (rdr (mem s') (PcbArg (pcb_addr n), 0)) arg"
proof -
  have wff: "wf_file s ino" using ok by (simp add: load_ok_def)
  obtain u where u: "sys_execute e1 e2 r s = (if is_elf u then start_program e1 e2 (pcb_addr n) u else Some (Returns (-1), sti u))"
    "n < 6" "used_slots u = insert n (used_slots s)" "same_image s u" "cr3 u = cr3 s"
    "terminals u = terminals s" "vis_term_id u = vis_term_id s" "sched_term_id u = sched_term_id s" "starting_new_shell u = starting_new_shell s"
    "pcb_num (pcbs u (pcb_addr n)) = of_nat n" "\<forall>i < 8. flags (io_files (pcbs u (pcb_addr n)) i) = NOT_USED"
    "dentry_inode_num (mem u) cmd_dentry = of_nat ino" "read_list (mem u) file_data (min 30 (file_size s ino)) = take 30 (file_bytes s ino)"
    "cstr (rdr (mem u) (PcbArg (pcb_addr n), 0)) arg" "others_kept n s u"
    using execute_created [OF cl wf used j ino wff, of e1 e2] unfolding n_def by metis
  have len: "length (file_bytes s ino) = file_size s ino" by (simp add: file_bytes_def)
  have head: "is_elf u" "ld32 (mem u) (padd file_data 24) = elf_entry (file_bytes s ino)"
    using file_head [of "mem u" "file_bytes s ino"] u(13) elf by (simp_all add: is_elf_iff len elf_magic_def)
  note lo = load_ok_same [OF u(4,5) ok [folded n_def]]
  have "unat (of_nat ino :: u32) = ino" using ino by simp
  from start_program_spec [OF lo(1) u(2) _ u(10,11,12) this, of e1 e2] obtain s' where s':
    "start_program e1 e2 (pcb_addr n) u = Some (Enters (elf_entry (file_bytes s ino)) 0x83FFFFC, s')"
    "started u n (file_bytes s ino) e1 e2 s'" "pcb_status s' = pcb_status u" "\<forall>b a. b \<noteq> Phys \<longrightarrow> mem s' (b, a) = mem u (b, a)"
    using link u(6-9) lo(2) head(2) by auto
  have "started s n (file_bytes s ino) e1 e2 s'" using s'(2) others_kept_trans [OF u(15)]
    unfolding started_def started_term_def u(6) u(7) u(8) u(9) Let_def by blast
  moreover have "rdr (mem s') (PcbArg (pcb_addr n), 0) = rdr (mem u) (PcbArg (pcb_addr n), 0)" using s'(4) by (simp add: rdr_def fun_eq_iff padd_def)
  ultimately show ?thesis using u(1,3,14) head(1) s'(1,3) by (intro exI [of _ s']) (simp add: used_slots_def)
qed

text \<open>The calls that fail.\<close>

lemma sys_execute_full: "card (used_slots s) = 6 \<Longrightarrow> \<exists>s'. sys_execute e1 e2 r s = Some (Returns 0, s') \<and> \<not> iflag s' \<and> pcb_status s' = pcb_status s"
proof -
  assume "card (used_slots s) = 6"
  then have "unat (our_popcount (pcb_status s)) = 6" by (simp add: popcount_used)
  then have "our_popcount (pcb_status s) = 6" by (simp add: word_unat_eq_iff)
  moreover have "iflag (kprintf f as t) = iflag t" for f as and t :: kernel by simp
  ultimately show ?thesis by (simp add: sys_execute_def)
qed

lemma sys_execute_not_found:
  assumes "command_line r a name b arg" and "wf_dir s" and "card (used_slots s) < 6" and "dir_lookup s name = None"
  shows "\<exists>m. locals_only m s \<and> sys_execute e1 e2 r s = Some (Returns (-1), sti (s\<lparr>mem := m\<rparr>))"
proof -
  have "our_popcount (pcb_status s) \<noteq> 6" using assms(3) popcount_used [of s] by auto
  moreover have "sti ((cli s)\<lparr>mem := m\<rparr>) = sti (s\<lparr>mem := m\<rparr>)" for m by (simp add: sti_def cli_def)
  ultimately show ?thesis using execute_lookup [OF assms(1,2), of e1 e2] assms(4) by auto
qed

lemma sys_execute_not_elf:
  assumes "command_line r a name b arg" and "wf_dir s" and "card (used_slots s) < 6" and "dir_lookup s name = Some j"
    and "wf_file s (unat (entry_ino s j))" and "4 \<le> file_size s (unat (entry_ino s j))" and "take 4 (file_bytes s (unat (entry_ino s j))) \<noteq> elf_magic"
  shows "\<exists>s'. sys_execute e1 e2 r s = Some (Returns (-1), s') \<and> iflag s' \<and> used_slots s' = insert (fst (take_pcb s)) (used_slots s)"
proof -
  let ?ino = "unat (entry_ino s j)"
  obtain u where u: "sys_execute e1 e2 r s = (if is_elf u then start_program e1 e2 (pcb_addr (fst (take_pcb s))) u else Some (Returns (-1), sti u))"
    "used_slots u = insert (fst (take_pcb s)) (used_slots s)"
    "read_list (mem u) file_data (min 30 (file_size s ?ino)) = take 30 (file_bytes s ?ino)"
    using execute_created [OF assms(1-4) refl assms(5), of e1 e2] by metis
  have "\<not> is_elf u" using file_head(1) [of "mem u" "file_bytes s ?ino"] u(3) assms(6,7) by (simp add: is_elf_iff elf_magic_def file_bytes_def)
  then show ?thesis using u(1,2) by (intro exI [of _ "sti u"]) (simp add: used_slots_def)
qed

subsection \<open>Ending a program\<close>

lemma halt_slot:
  assumes "n < 32"
  shows "unat ((END_OF_KERNEL_PAGE - pcb_addr n) div PCB_PLUS_STACK - 1) = n"
proof -
  have "END_OF_KERNEL_PAGE - pcb_addr n = of_nat (0x2000 * (n + 1))" by (simp add: pcb_addr_def algebra_simps)
  then have "(END_OF_KERNEL_PAGE - pcb_addr n) div PCB_PLUS_STACK = of_nat (n + 1)"
    using assms by (simp add: word_arith_nat_div unat_of_nat_u32 del: of_nat_Suc of_nat_add of_nat_mult)
  then show ?thesis using assms by (simp add: unat_of_nat_u32)
qed

definition exit_value :: "u8 \<Rightarrow> kernel \<Rightarrow> int" where
  "exit_value status s = (if except_raised s then 256 else uint status)"

lemma sint_status: "sint (ucast (status :: u8) AND 0xFF :: u32) = uint status"
proof -
  have lt: "unat status < 2 ^ 31" by (rule less_le_trans [OF unsigned_less]) simp
  have "(ucast status :: u32) AND 0xFF = take_bit 8 (ucast status)" by (simp add: take_bit_eq_mask mask_eq_exp_minus_1)
  also have "\<dots> = ucast status" by (rule bit_word_eqI) (auto simp: bit_simps dest: bit_imp_le_length)
  also have "\<dots> = of_nat (unat status)" by (simp add: unsigned_of_nat)
  finally have "sint (ucast status AND 0xFF :: u32) = int (unat status)"
    using lt by (simp only: sint_of_nat_u32)
  then show ?thesis by simp
qed

lemma sys_halt_spec:
  assumes n: "n < 32" "cur_pcb s = pcb_addr n" and par: "parent_task (pcbs s (pcb_addr n)) = p" "p \<noteq> 0"
    and k: "page_addr (pcbs s p) = prog_page k" "k < 6"
  shows "\<exists>s'. sys_halt status e1 e2 s = Some (ExecuteReturns (esp (pcbs s p)) (ebp (pcbs s p)) (exit_value status s), s')
    \<and> iflag s' \<and> \<not> except_raised s' \<and> cur_pcb s' = p \<and> cur_task (terminals s' (sched_term_id s)) = p \<and> tss_esp0 s' = esp0 (pcbs s p)
    \<and> used_slots s' = used_slots s - {n} \<and> ld32 (mem s') (prog_dir s') = prog_page k + 0x87
    \<and> (\<forall>i < 8. flags (io_files (pcbs s' (pcb_addr n)) i) = NOT_USED)
    \<and> pcbs s' = (pcbs s)(pcb_addr n := (pcbs s (pcb_addr n))\<lparr>io_files := free_from 0 (io_files (pcbs s (pcb_addr n)))\<rparr>)
    \<and> terminals s' = (terminals s)(sched_term_id s := (terminals s (sched_term_id s))\<lparr>cur_task := p\<rparr>)
    \<and> mem s' = st32 (mem s) (prog_dir s) (prog_page k + 0x87)"
proof -
  let ?c = "pcb_addr n"
  have nz: "?c \<noteq> 0" using pcb_addr_nonzero n(1) by blast
  define s1 where "s1 = s\<lparr>mem := st32 (mem s) (prog_dir s) (prog_page k + 0x87), pcb_status := pcb_status s AND NOT (2 ^ n)\<rparr>"
  define s2 where "s2 = upd_pcb ?c (\<lambda>b. b\<lparr>io_files := free_from 0 (io_files b)\<rparr>) s1"
  define s3 where "s3 = (upd_term (sched_term_id s) (\<lambda>t. t\<lparr>cur_task := p\<rparr>) s2)\<lparr>cur_pcb := p, tss_esp0 := esp0 (pcbs s p)\<rparr>"
  have map: "snd (map_page (page_addr (pcbs s p)) PROGRAM_VIRT True True True True s) = s\<lparr>mem := st32 (mem s) (prog_dir s) (prog_page k + 0x87)\<rparr>"
    using map_program [OF k(2), of s] k(1) by (simp add: upd_mem_def)
  have cl: "snd (close_pcb ?c s1) = s2" using close_pcb_spec [of s1] nz n(2) by (simp add: s1_def s2_def)
  have s2: "sched_term_id s2 = sched_term_id s" "cur_pcb s2 = ?c" "parent_task (pcbs s2 ?c) = p" "esp (pcbs s2 p) = esp (pcbs s p)"
    "ebp (pcbs s2 p) = ebp (pcbs s p)" "esp0 (pcbs s2 p) = esp0 (pcbs s p)"
    using par n(2) by (simp_all add: s2_def s1_def)
  have c1: "cur_pcb s1 = ?c" using n(2) by (simp add: s1_def)
  have fl: "flush_tlb t = t" for t by (simp add: flush_tlb_def)
  have "sys_halt status e1 e2 s = (case we_are_done (ucast status AND 0xFF) s3 of (r, s') \<Rightarrow> Some (ExecuteReturns (esp (pcbs s p)) (ebp (pcbs s p)) r, s'))"
    using n(2) nz par map halt_slot [OF n(1)] s2 unfolding sys_halt_def Let_def
    by (simp add: s1_def [symmetric] c1 cl fl s3_def)
  moreover have "we_are_done (ucast status AND 0xFF) s3 = (exit_value status s, sti (s3\<lparr>except_raised := False\<rparr>))"
    by (auto simp: we_are_done_def exit_value_def sint_status s3_def s2_def s1_def)
  ultimately show ?thesis
    by (auto simp: s3_def s2_def s1_def used_slots_def free_from_def ld32_st32_same bit_simps)
qed

subsection \<open>Properties\<close>

text \<open>
  C9: \<^verbatim>\<open>sys_execute\<close> starts a program. For a command line that names an executable of the image, while fewer than
  six processes exist, control goes to the entry point of the file's header with the stack at the end of
  the program's page; the file is loaded byte for byte where virtual address 0x8048000 is mapped, in the
  4 MB page of the lowest free slot; that slot is taken, the process has its argument and exactly the two
  standard descriptors, its kernel stack and the link to its parent and terminal are set, and interrupts
  are on.\<close>

theorem sys_execute_starts:
  assumes "command_line r a name b arg" and "wf_dir s" and "card (used_slots s) < 6" and "dir_lookup s name = Some j"
    and "ino = unat (entry_ino s j)" and "load_ok s (fst (take_pcb s)) ino"
    and "28 \<le> file_size s ino" and "take 4 (file_bytes s ino) = elf_magic"
    and "starting_new_shell s \<or> cur_task (terminals s (vis_term_id s)) \<noteq> 0"
  shows "\<exists>s'. sys_execute e1 e2 r s = Some (Enters (elf_entry (file_bytes s ino)) 0x83FFFFC, s')
    \<and> started s (fst (take_pcb s)) (file_bytes s ino) e1 e2 s' \<and> used_slots s' = insert (fst (take_pcb s)) (used_slots s)
    \<and> cstr (rdr (mem s') (PcbArg (pcb_addr (fst (take_pcb s))), 0)) arg"
  using assms by (rule sys_execute_spec)

text \<open>
  C17: The failures of \<^verbatim>\<open>sys_execute\<close>. A name that is not in the directory gives -1 and leaves everything but the call's own
  locals as it was, with interrupts on. A file that is not an executable gives -1 as well, but the process
  slot stays taken. At the limit of six processes the call returns 0, not -1, and interrupts stay off.\<close>

theorem sys_execute_failures:
  assumes "command_line r a name b arg" and "wf_dir s"
  shows "(card (used_slots s) = 6 \<longrightarrow> (\<exists>s'. sys_execute e1 e2 r s = Some (Returns 0, s') \<and> \<not> iflag s' \<and> pcb_status s' = pcb_status s))
    \<and> (card (used_slots s) < 6 \<and> dir_lookup s name = None \<longrightarrow>
         (\<exists>m. locals_only m s \<and> sys_execute e1 e2 r s = Some (Returns (-1), sti (s\<lparr>mem := m\<rparr>))))
    \<and> (\<forall>j. card (used_slots s) < 6 \<and> dir_lookup s name = Some j \<and> wf_file s (unat (entry_ino s j)) \<and> 4 \<le> file_size s (unat (entry_ino s j))
         \<and> take 4 (file_bytes s (unat (entry_ino s j))) \<noteq> elf_magic \<longrightarrow>
         (\<exists>s'. sys_execute e1 e2 r s = Some (Returns (-1), s') \<and> iflag s' \<and> used_slots s' = insert (fst (take_pcb s)) (used_slots s)))"
  using sys_execute_full [of s e1 e2 r] sys_execute_not_found [OF assms, of e1 e2] sys_execute_not_elf [OF assms, of _ e1 e2] by blast

text \<open>
  C14: \<^verbatim>\<open>sys_halt\<close> of a process with a parent makes the parent's \<^verbatim>\<open>execute\<close> return: on the parent's saved stack, with the exit
  status between 0 and 255, or 256 when the process was ended by an exception; the slot is free again and
  no other changes, all descriptors are closed, the parent's page is mapped at the program's address, and
  the parent is the current process and the terminal's task.\<close>

theorem sys_halt_returns_to_parent:
  assumes "n < 32" and "cur_pcb s = pcb_addr n" and "parent_task (pcbs s (pcb_addr n)) = p" and "p \<noteq> 0"
    and "page_addr (pcbs s p) = prog_page k" and "k < 6"
  shows "\<exists>s'. sys_halt status e1 e2 s = Some (ExecuteReturns (esp (pcbs s p)) (ebp (pcbs s p)) (exit_value status s), s')
    \<and> iflag s' \<and> \<not> except_raised s' \<and> cur_pcb s' = p \<and> cur_task (terminals s' (sched_term_id s)) = p \<and> tss_esp0 s' = esp0 (pcbs s p)
    \<and> used_slots s' = used_slots s - {n} \<and> ld32 (mem s') (prog_dir s') = prog_page k + 0x87
    \<and> (\<forall>i < 8. flags (io_files (pcbs s' (pcb_addr n)) i) = NOT_USED)"
  using sys_halt_spec [OF assms, of status e1 e2] by blast

theorem sys_halt_returns_to_parent_witness:
  "let s = sample_fs\<lparr>cur_pcb := 0x7FC000, pcb_status := 3,
         pcbs := (\<lambda>_. blank_pcb)(0x7FC000 := blank_pcb\<lparr>parent_task := 0x7FE000\<rparr>, 0x7FE000 := blank_pcb\<lparr>page_addr := 0x800000, esp := 11, ebp := 12\<rparr>)\<rparr>
   in \<exists>s'. sys_halt 5 1 2 s = Some (ExecuteReturns 11 12 5, s') \<and> cur_pcb s' = 0x7FE000 \<and> 1 \<notin> used_slots s'"
proof -
  define s where "s = sample_fs\<lparr>cur_pcb := 0x7FC000, pcb_status := 3,
         pcbs := (\<lambda>_. blank_pcb)(0x7FC000 := blank_pcb\<lparr>parent_task := 0x7FE000\<rparr>, 0x7FE000 := blank_pcb\<lparr>page_addr := 0x800000, esp := 11, ebp := 12\<rparr>)\<rparr>"
  have s: "cur_pcb s = pcb_addr 1" "parent_task (pcbs s (pcb_addr 1)) = 0x7FE000" "page_addr (pcbs s 0x7FE000) = prog_page 0"
    "esp (pcbs s 0x7FE000) = 11" "ebp (pcbs s 0x7FE000) = 12" "exit_value 5 s = 5"
    by (simp_all add: s_def pcb_addr_def prog_page_def exit_value_def) (simp add: blank_kernel_def)
  obtain s' where "sys_halt 5 1 2 s = Some (ExecuteReturns 11 12 5, s')" "cur_pcb s' = 0x7FE000" "used_slots s' = used_slots s - {1}"
    using sys_halt_returns_to_parent [OF _ s(1,2) _ s(3), of 5 1 2] s(4-6) by auto
  then show ?thesis by (simp add: s_def [symmetric])
qed

text \<open>An image with an executable: 28 bytes, with entry point 0x8048000.\<close>

definition prog_image :: memory where
  "prog_image = sample_image((Phys, 0x411000) := 28, (Phys, 0x412000) := 0x7F, (Phys, 0x412001) := 0x45, (Phys, 0x412002) := 0x4C,
     (Phys, 0x412003) := 0x46, (Phys, 0x412019) := 0x80, (Phys, 0x41201A) := 4, (Phys, 0x41201B) := 8)"

abbreviation prog_fs :: kernel where "prog_fs \<equiv> (blank_kernel prog_image)\<lparr>starting_new_shell := True\<rparr>"

lemma prog_counts:
  "fs_addr prog_fs = 0x410000" "num_entries prog_fs = 1" "num_inodes prog_fs = 1" "num_blocks prog_fs = 1"
  "img_size prog_fs = 12288" "mem prog_fs = prog_image" "cr3 prog_fs = 0x401000" "used_slots prog_fs = {}" "fst (take_pcb prog_fs) = 0"
  by (simp_all add: blank_kernel_def num_entries_def num_inodes_def num_blocks_def img_size_def fs_word_def ld32_def prog_image_def sample_image_def
      used_slots_def take_pcb_def find_empty_pcb_def find_slot.simps)

lemma prog_file:
  "file_size prog_fs 0 = 28" "block_no prog_fs 0 0 = 0" "entry_name prog_fs 0 = [0x61]" "entry_ino prog_fs 0 = 0"
  "take 4 (file_bytes prog_fs 0) = elf_magic" "elf_entry (file_bytes prog_fs 0) = 0x8048000"
proof -
  have f: "mem (blank_kernel m) = m" "fs_addr (blank_kernel m) = 0x410000" for m by (simp_all add: blank_kernel_def)
  show *: "file_size prog_fs 0 = 28" "block_no prog_fs 0 0 = 0" "entry_ino prog_fs 0 = 0"
    by (simp_all add: file_size_def block_no_def entry_ino_def img_def ld32_def f prog_image_def sample_image_def)
  have b: "file_byte prog_fs 0 i = prog_image (Phys, 0x412000 + of_nat i)" if "i < 4096" for i
    using that by (simp add: file_byte_def * prog_counts img_def f)
  show "entry_name prog_fs 0 = [0x61]"
    by (simp add: entry_name_def field_str_def img_def read_list_def rdr_def f prog_image_def sample_image_def upt_rec)
  have fb: "file_bytes prog_fs 0 = map (\<lambda>i. prog_image (Phys, 0x412000 + of_nat i)) [0..<28]"
    by (simp add: file_bytes_def * b)
  have "[0..<4] = [0, 1, 2, 3 :: nat]" by (simp add: upt_rec)
  then show "take 4 (file_bytes prog_fs 0) = elf_magic"
    unfolding fb by (simp add: take_map elf_magic_def prog_image_def)
  show "elf_entry (file_bytes prog_fs 0) = 0x8048000"
    unfolding fb by (simp add: elf_entry_def prog_image_def sample_image_def)
qed

lemma prog_ok: "wf_dir prog_fs" "load_ok prog_fs 0 0" "dir_lookup prog_fs [0x61] = Some 0"
proof -
  have wf: "wf_image prog_fs" "wf_file prog_fs 0" by (simp_all add: wf_image_def wf_file_def prog_counts prog_file)
  then show "wf_dir prog_fs" by (simp add: wf_dir_def prog_counts)
  show "dir_lookup prog_fs [0x61] = Some 0" by (simp add: dir_lookup_def prog_counts prog_file)
  have "separate (Phys, 0x401080) 4 (Phys, 0x410000) 12288" "separate (Phys, 0x848000) 28 (Phys, 0x410000) 12288"
    "separate (Phys, 0x848000) 28 (Phys, 0x401080) 4" by (rule separate_le; simp)+
  then show "load_ok prog_fs 0 0" using wf by (simp add: load_ok_def img_separate_def img_def prog_counts prog_file prog_page_def)
qed

lemma prog_command: "command_line (lit ''a b'') 0 [0x61] 1 [0x62]"
  using cstr_lit [of "''a b''"] by (simp add: command_line_def)

theorem sys_execute_starts_witness:
  "\<exists>s'. sys_execute 1 2 (lit ''a b'') prog_fs = Some (Enters 0x8048000 0x83FFFFC, s') \<and> used_slots s' = {0}
     \<and> cstr (rdr (mem s') (PcbArg 0x7FE000, 0)) [0x62]"
  using sys_execute_starts [OF prog_command prog_ok(1) _ prog_ok(3), of 0 1 2] prog_ok(2)
  by (auto simp: prog_counts prog_file pcb_addr_def)

theorem sys_execute_failures_witness:
  "\<exists>m. locals_only m sample_fs \<and> sys_execute 1 2 (lit ''zz'') sample_fs = Some (Returns (-1), sti (sample_fs\<lparr>mem := m\<rparr>))"
proof -
  have "command_line (lit ''zz'') 0 [0x7A, 0x7A] 0 []" using cstr_lit [of "''zz''"] by (simp add: command_line_def)
  moreover have "used_slots sample_fs = {}" by (simp add: used_slots_def blank_kernel_def)
  moreover have "dir_lookup sample_fs [0x7A, 0x7A] = None" by (simp add: dir_lookup_def sample_file)
  ultimately show ?thesis using sys_execute_failures [of "lit ''zz''" 0 "[0x7A, 0x7A]" 0 "[]" sample_fs 1 2] by simp
qed

text \<open>
  C18: \<^verbatim>\<open>sys_open\<close> on every branch. For a name of the directory of a known file type it returns the lowest free
  descriptor of the current process, in use and at position 0. The descriptor has the inode number of the entry and the
  operations of its type, after the device's own open; but a name that begins with \<^verbatim>\<open>stdin\<close> or \<^verbatim>\<open>stdout\<close> gives the
  operations of that stream and inode 0 instead, and no open operation runs. For an unknown name, an unknown type or when
  all eight descriptors are in use it returns -1. Besides that descriptor only locals of the kernel and what the
  device's open does change.\<close>

theorem sys_open_lowest:
  assumes "wf_dir s" and "cstr fname name" and "cur_pcb s \<noteq> 0"
  shows "\<exists>m. locals_only m s \<and> sys_open fname s = Some (case open_target s name of
      None \<Rightarrow> (-1, s\<lparr>mem := m\<rparr>)
    | Some (i, j, ops) \<Rightarrow>
        if device_name name
        then (int i, upd_fd (cur_pcb s) i (\<lambda>d. d\<lparr>file_pos := 0, flags := IN_USE, file_ops := stream_ops name, inode := 0\<rparr>) (s\<lparr>mem := m\<rparr>))
        else (int i, snd (the (op_open ops) (upd_fd (cur_pcb s) i
          (\<lambda>d. d\<lparr>file_pos := 0, flags := IN_USE, inode := entry_ino s j, file_ops := ops\<rparr>) (s\<lparr>mem := m\<rparr>)))))"
proof (cases "device_name name")
  case True
  then show ?thesis using sys_open_slot [OF assms] open_slot_stream [OF assms(2) True] by (fastforce split: option.split)
next
  case False
  show ?thesis unfolding if_not_P [OF False] by (rule sys_open_spec [OF assms(1,2) False assms(3)])
qed

text \<open>
  C19: Opening and closing. After a successful open of descriptor 2 or above, closing it returns 0, the set of
  descriptors in use is what it was before the open, reading and writing through it are refused, and no
  other descriptor has changed.\<close>

theorem sys_open_close:
  assumes "wf_dir s" and "cstr fname name" and "\<not> device_name name" and "cur_pcb s \<noteq> 0" and "open_target s name = Some (i, j, ops)" and "2 \<le> i"
  shows "\<exists>s1 s2. sys_open fname s = Some (int i, s1) \<and> fd_used s1 = insert i (fd_used s) \<and> i \<notin> fd_used s
    \<and> sys_close (int i) s1 = (0, s2) \<and> fd_used s2 = fd_used s \<and> (\<forall>k. k \<noteq> i \<longrightarrow> cur_fd s2 k = cur_fd s k)
    \<and> sys_read hs (int i) buf nbytes s2 = Some (-1, s2) \<and> sys_write (int i) buf nbytes s2 = (-1, s2)"
proof -
  obtain s1 where s1: "sys_open fname s = Some (int i, s1)" "cur_pcb s1 = cur_pcb s" "i < 8" "i \<notin> fd_used s"
    "cur_fd s1 = (cur_fd s)(i := \<lparr>file_ops = ops, inode = entry_ino s j, file_pos = 0, flags = IN_USE\<rparr>)" "op_close ops \<noteq> None"
    using sys_open_Some [OF assms(1-5)] by auto
  define s2 where "s2 = upd_fd (cur_pcb s1) i (\<lambda>f. f\<lparr>flags := NOT_USED, file_ops := empty_f_ops_tab\<rparr>) s1"
  have c: "sys_close (int i) s1 = (0, s2)" using sys_close_spec [OF assms(6) s1(3), of s1] s1 assms(4) by (simp add: s2_def)
  have f: "cur_fd s2 = (cur_fd s)(i := \<lparr>file_ops = empty_f_ops_tab, inode = entry_ino s j, file_pos = 0, flags = NOT_USED\<rparr>)"
    using s1(5) by (auto simp: s2_def cur_fd_def fun_eq_iff)
  then have "sys_read hs (int i) buf nbytes s2 = Some (-1, s2)" "sys_write (int i) buf nbytes s2 = (-1, s2)" by (simp_all add: sys_read_def sys_write_def)
  moreover have "fd_used s1 = insert i (fd_used s)" "fd_used s2 = fd_used s" using s1(3-5) f by (auto simp: fd_used_def)
  ultimately show ?thesis using s1(1,4) c f by (intro exI [of _ s1] exI [of _ s2]) simp
qed

text \<open>
  \<^verbatim>\<open>sys_getargs\<close> copies the argument of the current process with its terminating NUL to the buffer and returns 0, or
  returns -1 and copies nothing when there is no argument, when it does not fit with its NUL, or when the
  buffer is null.\<close>

theorem sys_getargs_copies:
  assumes "cstr (rdr (mem s) (PcbArg (cur_pcb s), 0)) arg" and "length arg < 2 ^ 31"
  shows "sys_getargs buf nbytes s =
    (if arg = [] \<or> nbytes < int (length arg) + 1 \<or> buf = 0 then Some (-1, s)
     else Some (0, s\<lparr>mem := write_list (mem s) (user_ptr buf s) (arg @ [0])\<rparr>))"
  using assms by (rule sys_getargs_spec)

theorem sys_getargs_copies_witness:
  "sys_getargs 0x8000000 0 (blank_kernel (\<lambda>_. 0)) = Some (-1, blank_kernel (\<lambda>_. 0))"
  using sys_getargs_copies [of "blank_kernel (\<lambda>_. 0)" "[]" "0x8000000" 0] by (simp add: cstr_def rdr_def blank_kernel_def)

text \<open>A process with its standard descriptors open.\<close>

definition sample_proc :: kernel where
  "sample_proc = sample_fs\<lparr>cur_pcb := 0x7FE000, pcbs := (\<lambda>_. blank_pcb\<lparr>io_files := (\<lambda>i. if i < 2
     then \<lparr>file_ops = (if i = 0 then stdin else stdout), inode = 0, file_pos = 0, flags = IN_USE\<rparr> else blank_fdesc)\<rparr>)\<rparr>"

lemma sample_proc_open:
  "wf_dir sample_proc" "cur_pcb sample_proc \<noteq> 0" "open_target sample_proc [0x61] = Some (2, 0, regf_jt)" "cstr (lit ''a'') [0x61]" "\<not> device_name [0x61]"
proof -
  have same: "same_image sample_fs sample_proc" by (simp add: same_image_def sample_proc_def)
  note c = same_image_counts [OF same]
  have e: "entry_type sample_proc 0 = 2" by (simp add: entry_type_def sample_proc_def img_def ld32_def sample_image_def)
  have m: "mem sample_proc = sample_image" by (simp add: sample_proc_def)
  show "wf_dir sample_proc" using sample_wf(2) by (simp add: wf_dir_def wf_image_def c) (simp add: sample_proc_def)
  have "entry_name sample_proc 0 = entry_name sample_fs 0" by (simp add: entry_name_def c m)
  then have "dir_lookup sample_proc [0x61] = Some 0" by (simp add: dir_lookup_def c sample_file)
  moreover have "first_free (io_files (pcbs sample_proc (cur_pcb sample_proc))) = Some 2"
    by (simp add: first_free_def sample_proc_def blank_fdesc_def upt_rec)
  ultimately show "open_target sample_proc [0x61] = Some (2, 0, regf_jt)" by (simp add: open_target_def e tableaux_def)
  show "cur_pcb sample_proc \<noteq> 0" by (simp add: sample_proc_def)
  show "cstr (lit ''a'') [0x61]" using cstr_lit [of "''a''"] by simp
  show "\<not> device_name [0x61]" by (simp add: device_name_def)
qed

theorem sys_open_lowest_witness:
  "\<exists>m. sys_open (lit ''a'') sample_proc = Some (2, upd_fd 0x7FE000 2 (\<lambda>d. d\<lparr>file_pos := 0, flags := IN_USE, inode := 0, file_ops := regf_jt\<rparr>) (sample_proc\<lparr>mem := m\<rparr>))"
proof -
  have "entry_ino sample_proc 0 = 0" "cur_pcb sample_proc = 0x7FE000"
    by (simp_all add: entry_ino_def sample_proc_def img_def ld32_def sample_image_def)
  then show ?thesis using sys_open_lowest [OF sample_proc_open(1,4,2)] sample_proc_open(3,5) by (auto simp: fsys_open_file_def)
qed

theorem sys_open_close_witness:
  "\<exists>s1 s2. sys_open (lit ''a'') sample_proc = Some (2, s1) \<and> sys_close 2 s1 = (0, s2) \<and> fd_used s2 = fd_used sample_proc"
  using sys_open_close [OF sample_proc_open(1,4,5,2,3), of "[]" 0 0] by auto

end
