(* ===== verification/Timer.thy ===== *)
theory Timer
  imports Syscalls
begin

text \<open>
  The programmable interval timer and the scheduler, \<^verbatim>\<open>student-distrib/timer.c\<close>. The main results: the divisor
  written is the one of the frequency asked for; the timer interrupt runs the terminals in turn, saves
  the stack of the one it leaves and resumes the one it enters on its own stack, page and screen.
\<close>

abbreviation PIT_IRQ :: u32 where "PIT_IRQ \<equiv> 0"
abbreviation PIT_FREQ :: u32 where "PIT_FREQ \<equiv> 25"
abbreviation BASE_FREQ :: u32 where "BASE_FREQ \<equiv> 1193180"
abbreviation CHANNEL1_PORT :: u16 where "CHANNEL1_PORT \<equiv> 0x40"
abbreviation COMMAND_PORT :: u16 where "COMMAND_PORT \<equiv> 0x43"

text \<open>A frequency of zero would make the division fault.\<close>

definition set_pit_freq :: "u32 \<Rightarrow> kernel \<Rightarrow> kernel option" where
  "set_pit_freq hz s =
     (if hz = 0 then None
      else let divisor = BASE_FREQ div hz;
               s = outb 0x36 COMMAND_PORT s;
               s = outb (ucast (divisor AND 0xFF)) CHANNEL1_PORT s
           in Some (outb (ucast (signed_drop_bit 8 divisor)) CHANNEL1_PORT s))"

definition pit_init :: "kernel \<Rightarrow> kernel option" where
  "pit_init s = do {
     s \<leftarrow> set_pit_freq PIT_FREQ s;
     Some (enable_irq PIT_IRQ s)
   }"

definition switch_tasks :: "u32 \<Rightarrow> u32 \<Rightarrow> int \<Rightarrow> kernel \<Rightarrow> (outcome \<times> kernel) option" where
  "switch_tasks r_esp r_ebp new_term_id s =
     (if new_term_id \<noteq> sched_term_id s
      then let s = upd_term (sched_term_id s) (\<lambda>t. t\<lparr>t_esp := r_esp, t_ebp := r_ebp\<rparr>) s;
               s = s\<lparr>sched_term_id := new_term_id\<rparr>;
               s = s\<lparr>cur_pcb := cur_task (terminals s new_term_id)\<rparr>
           in if cur_pcb s = NULL
              then do {
                (r, s) \<leftarrow> sys_execute r_esp r_ebp (lit ''shell'') (s\<lparr>starting_new_shell := True\<rparr>);
                Some (case r of Returns _ \<Rightarrow> Returns 0 | _ \<Rightarrow> r, s)
              }
              else let s = s\<lparr>starting_new_shell := False\<rparr>;
                       s = snd (map_page (page_addr (pcbs s (cur_pcb s))) PROGRAM_VIRT True True True True s);
                       s = snd (map_page (vid_mem (terminals s new_term_id)) VIDMAP_VIRT_ADDR False True True True s);
                       s = flush_tlb s;
                       s = s\<lparr>tss_esp0 := esp0 (pcbs s (cur_pcb s))\<rparr>
                   in Some (Switched (t_esp (terminals s new_term_id)) (t_ebp (terminals s new_term_id)), s)
      else Some (Returns 0, s))"

text \<open>The last \<^verbatim>\<open>sti\<close> runs on the stack of the task that was switched to.\<close>

definition pit_interrupt :: "u32 \<Rightarrow> u32 \<Rightarrow> kernel \<Rightarrow> (outcome \<times> kernel) option" where
  "pit_interrupt r_esp r_ebp s = do {
     let s = cli s;
     let s = send_eoi PIT_IRQ s;
     let next_tid = (sched_term_id s + 1) mod MAX_TERM_NUM;
     (r, s) \<leftarrow> switch_tasks r_esp r_ebp next_tid s;
     Some (r, sti s)
   }"

subsection \<open>The divisor\<close>

text \<open>
  The two bytes written are the 16-bit divisor of the frequency, for every frequency from 19 Hz on;
  below, the divisor does not fit in 16 bits.
\<close>

lemma set_pit_freq_divisor:
  assumes "19 \<le> unat hz"
  shows "\<exists>lo hi. set_pit_freq hz s = Some (s\<lparr>out_trace := out_trace s @ [(COMMAND_PORT, 0x36), (CHANNEL1_PORT, lo), (CHANNEL1_PORT, hi)]\<rparr>)
    \<and> 256 * unat hi + unat lo = 1193180 div unat hz"
proof -
  define d where "d = BASE_FREQ div hz"
  have nz: "hz \<noteq> 0" using assms by auto
  have ud: "unat d = 1193180 div unat hz" by (simp add: d_def unat_div)
  have "1193180 div unat hz \<le> 1193180 div 19" using assms by (rule div_le_mono2 [rotated]) simp
  then have lt: "unat d < 65536" using ud by simp
  have "\<not> bit (unat d) 31" using lt by (simp add: bit_iff_odd)
  then have pos: "\<not> bit d 31" by (simp add: bit_unsigned_iff)
  have lo: "unat (ucast (d AND 0xFF) :: u8) = unat d mod 256"
  proof -
    have "d AND 0xFF = take_bit 8 d" by (simp add: take_bit_eq_mask mask_eq_exp_minus_1)
    then have "unat (d AND 0xFF) = unat d mod 256" by (simp add: unat_mod take_bit_eq_mod)
    then show ?thesis by (simp add: unsigned_ucast_eq take_bit_eq_mod)
  qed
  have "signed_drop_bit 8 d = drop_bit 8 d" 
  proof (rule bit_word_eqI)
    fix n
    assume "n < LENGTH(32)"
    then show "bit (signed_drop_bit 8 d) n = bit (drop_bit 8 d) n"
      using pos bit_imp_le_length [of d "8 + n"] by (auto simp: bit_signed_drop_bit_iff bit_drop_bit_eq)
  qed
  then have hi: "unat (ucast (signed_drop_bit 8 d) :: u8) = unat d div 256"
    using lt by (simp add: unsigned_ucast_eq drop_bit_eq_div take_bit_eq_mod unat_div)
  show ?thesis
    using nz lo hi ud mult_div_mod_eq [of 256 "unat d"]
    by (intro exI [of _ "ucast (d AND 0xFF)"] exI [of _ "ucast (signed_drop_bit 8 d)"]) (simp add: set_pit_freq_def Let_def d_def outb_def)
qed

subsection \<open>The scheduler\<close>

text \<open>All three terminals have a task, whose program is in one of the six program pages.\<close>

definition sched_ok :: "kernel \<Rightarrow> bool" where
  "sched_ok s \<longleftrightarrow> wf_paging s \<and> sched_term_id s \<in> {0..<3}
     \<and> (\<forall>i \<in> {0..<3}. cur_task (terminals s i) \<noteq> 0 \<and> vid_mem (terminals s i) \<noteq> 0
          \<and> (\<exists>k < 6. page_addr (pcbs s (cur_task (terminals s i))) = prog_page k))"

definition next_term :: "kernel \<Rightarrow> int" where
  "next_term s = (sched_term_id s + 1) mod 3"

lemma prog_page_nonzero: "k < 6 \<Longrightarrow> prog_page k \<noteq> 0 \<and> prog_page k AND TOP_10_BITS = prog_page k"
  using slot_cases [of k] by (auto simp: prog_page_def)

text \<open>The two mappings of a task switch.\<close>

lemma mem_twice:
  fixes s :: kernel
  assumes "s1 = s\<lparr>mem := m1\<rparr>" and "s2 = s1\<lparr>mem := m2\<rparr>"
  shows "s2 = s\<lparr>mem := m2\<rparr>"
  unfolding assms(2) by (subst assms(1)) simp

lemma map_task:
  assumes "wf_paging s" and "k < 6" and "vid \<noteq> 0"
  defines "s1 \<equiv> snd (map_page (prog_page k) PROGRAM_VIRT True True True True s)"
  defines "s2 \<equiv> snd (map_page vid VIDMAP_VIRT_ADDR False True True True s1)"
  shows "s2 = s\<lparr>mem := mem s2\<rparr> \<and> wf_paging s2
    \<and> abs_space s2 = (abs_space s)(32 := Large (large_page (prog_page k) True True), 34 := Table True True (Map.empty(0 \<mapsto> small_page vid True True)))"
proof -
  have d: "dir_ix PROGRAM_VIRT = 32" "dir_ix VIDMAP_VIRT_ADDR = 34" "tab_ix VIDMAP_VIRT_ADDR = 0"
    by (simp_all add: drop_bit_eq_div)
  have a1: "as_map (prog_page k) PROGRAM_VIRT True True True True (abs_space s) = Some ((abs_space s)(32 := Large (large_page (prog_page k) True True)))"
    using prog_page_nonzero [OF assms(2)] by (simp add: as_map_def d)
  note m1 = map_page_abs [OF assms(1) a1, folded s1_def]
  have a2: "as_map vid VIDMAP_VIRT_ADDR False True True True (abs_space s1) =
      Some ((abs_space s)(32 := Large (large_page (prog_page k) True True), 34 := Table True True (Map.empty(0 \<mapsto> small_page vid True True))))"
    using assms(3) by (simp add: as_map_def d m1)
  note m2 = map_page_abs [OF m1(2) a2, folded s2_def]
  have "s1 = s\<lparr>mem := mem s1\<rparr>" unfolding s1_def by (rule map_page_frame(1) [OF assms(1), of _ _ _ _ _ _ "fst (map_page (prog_page k) PROGRAM_VIRT True True True True s)"]) simp
  moreover have "s2 = s1\<lparr>mem := mem s2\<rparr>" unfolding s2_def by (rule map_page_frame(1) [OF m1(2), of _ _ _ _ _ _ "fst (map_page vid VIDMAP_VIRT_ADDR False True True True s1)"]) simp
  ultimately have "s2 = s\<lparr>mem := mem s2\<rparr>" by (rule mem_twice)
  then show ?thesis using m2 by simp
qed

lemma paging_same:
  assumes "mem s' = mem s" and "cr3 s' = cr3 s"
  shows "wf_paging s' = wf_paging s" and "abs_space s' = abs_space s"
proof -
  have "pde s' = pde s" "pte s' = pte s" by (intro ext; simp only: pde_def pte_def assms)+
  then show "wf_paging s' = wf_paging s" "abs_space s' = abs_space s"
    using assms by (simp add: wf_paging_def, intro ext, simp add: abs_space_def)
qed

lemma map_page_mem_only: "snd (map_page a b c d e f s) = s\<lparr>mem := mem (snd (map_page a b c d e f s))\<rparr>"
  unfolding map_page_def Let_def by (simp add: upd_mem_def)

lemma upd_term_eq: "upd_term i f s = s\<lparr>terminals := (terminals s)(i := f (terminals s i))\<rparr>"
  by (simp add: upd_term_def)

lemma switch_tasks_spec:
  assumes wf: "wf_paging s" and new: "n \<noteq> sched_term_id s" and task: "cur_task (terminals s n) = p" "p \<noteq> 0" and vid: "vid_mem (terminals s n) \<noteq> 0"
    and page: "page_addr (pcbs s p) = prog_page k" "k < 6"
  shows "\<exists>m. switch_tasks e1 e2 n s = Some (Switched (t_esp (terminals s n)) (t_ebp (terminals s n)),
      s\<lparr>mem := m, terminals := (terminals s)(sched_term_id s := (terminals s (sched_term_id s))\<lparr>t_esp := e1, t_ebp := e2\<rparr>),
        sched_term_id := n, cur_pcb := p, starting_new_shell := False, tss_esp0 := esp0 (pcbs s p)\<rparr>)
    \<and> wf_paging (s\<lparr>mem := m\<rparr>)
    \<and> abs_space (s\<lparr>mem := m\<rparr>) = (abs_space s)(32 := Large (large_page (prog_page k) True True),
        34 := Table True True (Map.empty(0 \<mapsto> small_page (vid_mem (terminals s n)) True True)))"
proof -
  define t where "t = s\<lparr>terminals := (terminals s)(sched_term_id s := (terminals s (sched_term_id s))\<lparr>t_esp := e1, t_ebp := e2\<rparr>),
        sched_term_id := n, cur_pcb := p, starting_new_shell := False\<rparr>"
  note same = paging_same [of t s]
  have wt: "wf_paging t" and ab: "abs_space t = abs_space s" using wf same by (simp_all add: t_def)
  define u where "u = snd (map_page (vid_mem (terminals s n)) VIDMAP_VIRT_ADDR False True True True
    (snd (map_page (prog_page k) PROGRAM_VIRT True True True True t)))"
  note m = map_task [OF wt page(2) vid, folded u_def]
  have keep: "terminals (snd (map_page a b c d e f w)) = terminals w" for a b c d e f w
    by (subst map_page_mem_only) simp
  obtain m where u: "u = t\<lparr>mem := m\<rparr>" using m by blast
  have "switch_tasks e1 e2 n s = Some (Switched (t_esp (terminals s n)) (t_ebp (terminals s n)), u\<lparr>tss_esp0 := esp0 (pcbs u (cur_pcb u))\<rparr>)"
    using new task page unfolding switch_tasks_def Let_def upd_term_eq
    by (simp add: flush_tlb_def keep u_def t_def)
  also have "u\<lparr>tss_esp0 := esp0 (pcbs u (cur_pcb u))\<rparr> =
      s\<lparr>mem := m, terminals := (terminals s)(sched_term_id s := (terminals s (sched_term_id s))\<lparr>t_esp := e1, t_ebp := e2\<rparr>),
        sched_term_id := n, cur_pcb := p, starting_new_shell := False, tss_esp0 := esp0 (pcbs s p)\<rparr>"
    unfolding u by (simp add: t_def)
  finally have "switch_tasks e1 e2 n s = Some (Switched (t_esp (terminals s n)) (t_ebp (terminals s n)),
      s\<lparr>mem := m, terminals := (terminals s)(sched_term_id s := (terminals s (sched_term_id s))\<lparr>t_esp := e1, t_ebp := e2\<rparr>),
        sched_term_id := n, cur_pcb := p, starting_new_shell := False, tss_esp0 := esp0 (pcbs s p)\<rparr>)" .
  moreover have "wf_paging (s\<lparr>mem := m\<rparr>) = wf_paging u \<and> abs_space (s\<lparr>mem := m\<rparr>) = abs_space u"
    using paging_same [of "s\<lparr>mem := m\<rparr>" u] by (simp add: u t_def)
  ultimately show ?thesis using m ab by (intro exI [of _ m]) simp
qed

lemma pit_interrupt_spec:
  assumes "sched_ok s"
  defines "n \<equiv> next_term s"
  defines "p \<equiv> cur_task (terminals s n)"
  shows "\<exists>s' k. pit_interrupt e1 e2 s = Some (Switched (t_esp (terminals s n)) (t_ebp (terminals s n)), s')
    \<and> terminals s' = (terminals s)(sched_term_id s := (terminals s (sched_term_id s))\<lparr>t_esp := e1, t_ebp := e2\<rparr>)
    \<and> sched_term_id s' = n \<and> cur_pcb s' = p \<and> tss_esp0 s' = esp0 (pcbs s p) \<and> pcbs s' = pcbs s \<and> iflag s'
    \<and> k < 6 \<and> page_addr (pcbs s p) = prog_page k \<and> wf_paging s'
    \<and> abs_space s' = (abs_space s)(32 := Large (large_page (prog_page k) True True),
        34 := Table True True (Map.empty(0 \<mapsto> small_page (vid_mem (terminals s n)) True True)))"
proof -
  define t where "t = send_eoi PIT_IRQ (cli s)"
  have t: "t = s\<lparr>iflag := False, out_trace := out_trace s @ [(MASTER_8259_PORT, 0x60)]\<rparr>"
    by (simp add: t_def send_eoi_def cli_def outb_def)
  have n: "n \<in> {0..<3}" "n \<noteq> sched_term_id t"
    using assms(1) by (auto simp: n_def next_term_def sched_ok_def t) presburger
  obtain k where k: "p \<noteq> 0" "vid_mem (terminals s n) \<noteq> 0" "k < 6" "page_addr (pcbs s p) = prog_page k"
    using assms(1) n(1) unfolding sched_ok_def p_def by blast
  have w: "wf_paging t" "abs_space t = abs_space s" using assms(1) paging_same [of t s] by (simp_all add: t sched_ok_def)
  obtain m where m: "switch_tasks e1 e2 n t = Some (Switched (t_esp (terminals t n)) (t_ebp (terminals t n)),
      t\<lparr>mem := m, terminals := (terminals t)(sched_term_id t := (terminals t (sched_term_id t))\<lparr>t_esp := e1, t_ebp := e2\<rparr>),
        sched_term_id := n, cur_pcb := p, starting_new_shell := False, tss_esp0 := esp0 (pcbs t p)\<rparr>)"
    "wf_paging (t\<lparr>mem := m\<rparr>)"
    "abs_space (t\<lparr>mem := m\<rparr>) = (abs_space t)(32 := Large (large_page (prog_page k) True True),
        34 := Table True True (Map.empty(0 \<mapsto> small_page (vid_mem (terminals t n)) True True)))"
    using switch_tasks_spec [OF w(1) n(2) _ k(1) _ _ k(3), of e1 e2] k(2,4) by (auto simp: t p_def)
  define u where "u = t\<lparr>mem := m, terminals := (terminals t)(sched_term_id t := (terminals t (sched_term_id t))\<lparr>t_esp := e1, t_ebp := e2\<rparr>),
        sched_term_id := n, cur_pcb := p, starting_new_shell := False, tss_esp0 := esp0 (pcbs t p)\<rparr>"
  have "pit_interrupt e1 e2 s = Some (Switched (t_esp (terminals s n)) (t_ebp (terminals s n)), sti u)"
    using m(1) unfolding pit_interrupt_def Let_def t_def [symmetric] by (simp add: n_def next_term_def u_def t)
  moreover note paging_same [of "sti u" "t\<lparr>mem := m\<rparr>"]
  ultimately show ?thesis using m(2,3) k w(2) by (intro exI [of _ "sti u"] exI [of _ k]) (simp add: u_def t)
qed

lemma sched_ok_next:
  assumes "sched_ok s" and "terminals s' = (terminals s)(i := (terminals s i)\<lparr>t_esp := e1, t_ebp := e2\<rparr>)"
    and "sched_term_id s' = next_term s" and "pcbs s' = pcbs s" and "wf_paging s'"
  shows "sched_ok s'"
  using assms by (simp add: sched_ok_def next_term_def)

text \<open>
  C10: The timer interrupt runs the terminals in turn. When every terminal has a task, it saves the stack of the task it
  leaves in that task's terminal, makes the task of the next terminal the current one, and resumes it on the stack saved
  for that terminal, with its kernel stack in the task state segment, its own program page at the
  program's addresses and its own terminal's video page at the vidmap address; nothing else
  of the terminals and the processes changes, and interrupts are on again.\<close>

theorem pit_interrupt_resumes:
  assumes "sched_ok s"
  shows "let n = (sched_term_id s + 1) mod 3; p = cur_task (terminals s n)
    in \<exists>s'. pit_interrupt e1 e2 s = Some (Switched (t_esp (terminals s n)) (t_ebp (terminals s n)), s')
      \<and> terminals s' = (terminals s)(sched_term_id s := (terminals s (sched_term_id s))\<lparr>t_esp := e1, t_ebp := e2\<rparr>)
      \<and> sched_term_id s' = n \<and> cur_pcb s' = p \<and> tss_esp0 s' = esp0 (pcbs s p) \<and> pcbs s' = pcbs s \<and> iflag s'
      \<and> (\<forall>v. resolve_virt_addr v s' =
           (if dir_ix v = 32 then page_addr (pcbs s p) + (v AND LAST_22_BITS)
            else if dir_ix v = 34 then if tab_ix v = 0 then (vid_mem (terminals s n) AND ALL_BUT_LAST_12_BITS) + (v AND LAST_12_BITS) else 0
            else resolve_virt_addr v s))"
proof -
  obtain s' k where s': "pit_interrupt e1 e2 s = Some (Switched (t_esp (terminals s (next_term s))) (t_ebp (terminals s (next_term s))), s')"
    "terminals s' = (terminals s)(sched_term_id s := (terminals s (sched_term_id s))\<lparr>t_esp := e1, t_ebp := e2\<rparr>)"
    "sched_term_id s' = next_term s" "cur_pcb s' = cur_task (terminals s (next_term s))"
    "tss_esp0 s' = esp0 (pcbs s (cur_task (terminals s (next_term s))))" "pcbs s' = pcbs s" "iflag s'"
    "k < 6" "page_addr (pcbs s (cur_task (terminals s (next_term s)))) = prog_page k" "wf_paging s'"
    "abs_space s' = (abs_space s)(32 := Large (large_page (prog_page k) True True),
        34 := Table True True (Map.empty(0 \<mapsto> small_page (vid_mem (terminals s (next_term s))) True True)))"
    using pit_interrupt_spec [OF assms, of e1 e2] by blast
  have "wf_paging s" using assms by (simp add: sched_ok_def)
  then show ?thesis
    using s' prog_page_nonzero [OF s'(8)] unfolding next_term_def Let_def
    by (intro exI [of _ s']) (simp add: resolve_lookup as_lookup_def large_page_def small_page_def)
qed

text \<open>
  C23: Three timer interrupts come back to the program they began with: with every terminal in use, the third
  interrupt resumes the task the first one left, on exactly the stack it was left on, as the current
  process of the terminal it was left on.\<close>

theorem pit_three_turns:
  assumes "sched_ok s"
  shows "\<exists>r1 s1 r2 s2 s3. pit_interrupt e1 e2 s = Some (r1, s1) \<and> pit_interrupt f1 f2 s1 = Some (r2, s2)
    \<and> pit_interrupt g1 g2 s2 = Some (Switched e1 e2, s3) \<and> sched_term_id s3 = sched_term_id s
    \<and> cur_pcb s3 = cur_task (terminals s (sched_term_id s)) \<and> sched_ok s3"
proof -
  obtain r1 s1 where s1: "pit_interrupt e1 e2 s = Some (r1, s1)"
    "terminals s1 = (terminals s)(sched_term_id s := (terminals s (sched_term_id s))\<lparr>t_esp := e1, t_ebp := e2\<rparr>)"
    "sched_term_id s1 = next_term s" "pcbs s1 = pcbs s" "wf_paging s1"
    using pit_interrupt_spec [OF assms, of e1 e2] by blast
  note o1 = sched_ok_next [OF assms s1(2-5)]
  obtain r2 s2 where s2: "pit_interrupt f1 f2 s1 = Some (r2, s2)"
    "terminals s2 = (terminals s1)(sched_term_id s1 := (terminals s1 (sched_term_id s1))\<lparr>t_esp := f1, t_ebp := f2\<rparr>)"
    "sched_term_id s2 = next_term s1" "pcbs s2 = pcbs s1" "wf_paging s2"
    using pit_interrupt_spec [OF o1, of f1 f2] by blast
  note o2 = sched_ok_next [OF o1 s2(2-5)]
  obtain s3 where s3: "pit_interrupt g1 g2 s2 = Some (Switched (t_esp (terminals s2 (next_term s2))) (t_ebp (terminals s2 (next_term s2))), s3)"
    "terminals s3 = (terminals s2)(sched_term_id s2 := (terminals s2 (sched_term_id s2))\<lparr>t_esp := g1, t_ebp := g2\<rparr>)"
    "sched_term_id s3 = next_term s2" "pcbs s3 = pcbs s2" "wf_paging s3" "cur_pcb s3 = cur_task (terminals s2 (next_term s2))"
    using pit_interrupt_spec [OF o2, of g1 g2] by blast
  have r: "0 \<le> sched_term_id s" "sched_term_id s < 3" using assms by (simp_all add: sched_ok_def)
  have n1: "next_term s \<noteq> sched_term_id s" using r unfolding next_term_def by presburger
  have n3: "next_term s2 = sched_term_id s" using r unfolding next_term_def s2(3) s1(3) by presburger
  have "terminals s2 (sched_term_id s) = (terminals s (sched_term_id s))\<lparr>t_esp := e1, t_ebp := e2\<rparr>"
    using n1 by (simp add: s2(2) s1(2,3))
  then show ?thesis using s1(1) s2(1) s3(1,3,6) sched_ok_next [OF o2 s3(2-5)] n3 by auto
qed

text \<open>A concrete state with three tasks.\<close>

definition three_tasks :: kernel where
  "three_tasks = (blank_kernel (\<lambda>_. 0))\<lparr>
     terminals := (\<lambda>i. (terminals (blank_kernel (\<lambda>_. 0)) i)\<lparr>cur_task := 0x7FE000 - 0x2000 * of_int i, vid_mem := 0xB9000, t_esp := of_int i, t_ebp := 0\<rparr>),
     pcbs := \<lambda>_. blank_pcb\<lparr>page_addr := 0xC00000\<rparr>\<rparr>"

lemma three_tasks_ok: "sched_ok three_tasks"
proof -
  have "\<exists>k < 6. 0xC00000 = prog_page k" by (intro exI [of _ 1]) (simp add: prog_page_def)
  moreover have "wf_paging three_tasks" by (simp add: three_tasks_def wf_paging_def pde_def blank_kernel_def ld32_def)
  moreover have "cur_task (terminals three_tasks i) \<noteq> 0" if "i \<in> {0..<3}" for i
  proof -
    have "i = 0 \<or> i = 1 \<or> i = 2" using that by auto
    then show ?thesis by (auto simp: three_tasks_def)
  qed
  moreover have "vid_mem (terminals three_tasks i) \<noteq> 0" "page_addr (pcbs three_tasks p) = 0xC00000" "sched_term_id three_tasks = 0" for i p
    by (simp_all add: three_tasks_def blank_kernel_def)
  ultimately show ?thesis by (simp add: sched_ok_def)
qed

theorem pit_interrupt_resumes_witness:
  "\<exists>s'. pit_interrupt 7 8 three_tasks = Some (Switched 1 0, s') \<and> cur_pcb s' = 0x7FC000 \<and> resolve_virt_addr 0x8048000 s' = 0xC48000"
proof -
  have t: "sched_term_id three_tasks = 0" "t_esp (terminals three_tasks 1) = 1" "t_ebp (terminals three_tasks 1) = 0"
    "cur_task (terminals three_tasks 1) = 0x7FC000" "page_addr (pcbs three_tasks 0x7FC000) = 0xC00000"
    by (simp_all add: three_tasks_def blank_kernel_def)
  show ?thesis using pit_interrupt_resumes [OF three_tasks_ok, of 7 8] by (auto simp: t Let_def drop_bit_eq_div)
qed

theorem pit_three_turns_witness:
  "\<exists>r1 s1 r2 s2 s3. pit_interrupt 11 12 three_tasks = Some (r1, s1) \<and> pit_interrupt 21 22 s1 = Some (r2, s2)
    \<and> pit_interrupt 31 32 s2 = Some (Switched 11 12, s3) \<and> cur_pcb s3 = 0x7FE000"
proof -
  have t: "sched_term_id three_tasks = 0" "cur_task (terminals three_tasks 0) = 0x7FE000"
    by (simp_all add: three_tasks_def blank_kernel_def)
  show ?thesis using pit_three_turns [OF three_tasks_ok, of 11 12 21 22 31 32] by (auto simp: t)
qed

end
