(* ===== verification/Mouse.thy ===== *)
theory Mouse
  imports Keyboard
begin

text \<open>
  The mouse driver, \<^verbatim>\<open>student-distrib/mouse.c\<close>. The main results: the driver's waits end whatever the controller
  answers; for every sequence of bytes the pointer stays on the screen and the byte counter within
  its buffer.
\<close>

abbreviation MOUSE_IRQ :: u32 where "MOUSE_IRQ \<equiv> 12"

subsection \<open>The code\<close>

fun wait_data :: "nat \<Rightarrow> kernel \<Rightarrow> kernel" where
  "wait_data 0 s = s"
| "wait_data (Suc k) s = (let (v, s) = inb STATUS_PORT s in if v AND 1 = 1 then s else wait_data k s)"

fun wait_signal :: "nat \<Rightarrow> kernel \<Rightarrow> kernel" where
  "wait_signal 0 s = s"
| "wait_signal (Suc k) s = (let (v, s) = inb STATUS_PORT s in if v AND 2 = 0 then s else wait_signal k s)"

definition mouse_wait :: "bool \<Rightarrow> kernel \<Rightarrow> kernel" where
  "mouse_wait type s = (let time_out = 100000 in if \<not> type then wait_data time_out s else wait_signal time_out s)"

definition mouse_open :: "kernel \<Rightarrow> int \<times> kernel" where
  "mouse_open s = (0, s)"

definition mouse_close :: "u32 \<Rightarrow> kernel \<Rightarrow> int \<times> kernel" where
  "mouse_close fd s = (0, s)"

definition mouse_read :: "kernel \<Rightarrow> u8 \<times> kernel" where
  "mouse_read s = (let s = mouse_wait False s; (v, s) = inb DATA_PORT s in (ucast v, s))"

definition mouse_write :: "u8 \<Rightarrow> kernel \<Rightarrow> kernel" where
  "mouse_write a_write s =
     (let s = mouse_wait True s;
          s = outb 0xD4 STATUS_PORT s;
          s = mouse_wait True s
      in outb a_write DATA_PORT s)"

definition mouse_init :: "kernel \<Rightarrow> kernel" where
  "mouse_init s =
     (let s = mouse_wait True s;
          s = outb 0xA8 STATUS_PORT s;
          s = mouse_wait True s;
          s = outb 0x20 STATUS_PORT s;
          s = mouse_wait False s;
          (v, s) = inb DATA_PORT s;
          status_byte = ucast (v OR 2);
          s = mouse_wait True s;
          s = outb 0x60 STATUS_PORT s;
          s = mouse_wait True s;
          s = outb status_byte DATA_PORT s;
          s = mouse_write 0xF6 s;
          s = snd (mouse_read s);
          s = mouse_write 0xF4 s;
          s = snd (mouse_read s)
      in enable_irq MOUSE_IRQ s)"

text \<open>The movement along one axis of \<open>extent\<close> positions; positions are signed bytes.\<close>

definition move_axis :: "u8 \<Rightarrow> bool \<Rightarrow> int \<Rightarrow> u8 \<Rightarrow> u8" where
  "move_axis byte neg extent pos =
     (let delta = uint (byte AND 1)
      in if delta \<noteq> 0
         then let delta = (if neg then - delta else delta);
                  pos = of_int (sint pos + delta);
                  pos = (if sint pos < 0 then 0 else pos)
              in if sint pos \<ge> extent then of_int (extent - 1) else pos
         else pos)"

text \<open>The messages about the buttons pressed.\<close>

definition report_buttons :: "u8 \<Rightarrow> kernel \<Rightarrow> kernel" where
  "report_buttons b s =
     (let s = (if b AND 4 \<noteq> 0 then kprintf (''Middle button is pressed!'' @ [CHR 0x0A]) [] s else s);
          s = (if b AND 2 \<noteq> 0 then kprintf (''Right button is pressed!'' @ [CHR 0x0A]) [] s else s)
      in if b AND 1 \<noteq> 0 then kprintf (''Left button is pressed!'' @ [CHR 0x0A]) [] s else s)"

definition mouse_packet :: "kernel \<Rightarrow> kernel" where
  "mouse_packet s =
     (let b = mouse_bytes s ! 1
      in if b AND 0x80 \<noteq> 0 \<or> b AND 0x40 \<noteq> 0 then s
         else
           let s = s\<lparr>y_neg := b AND 0x20 = 0\<rparr>;
               s = s\<lparr>x_neg := b AND 0x10 \<noteq> 0\<rparr>;
               s = report_buttons b s;
               s = set_char (old_char s) (fg_color s) (bg_color s) (mouse_y_pos s) (mouse_x_pos s) s;
               s = s\<lparr>mouse_x_pos := move_axis (mouse_bytes s ! 2) (x_neg s) 80 (mouse_x_pos s)\<rparr>;
               s = s\<lparr>mouse_y_pos := move_axis (mouse_bytes s ! 0) (y_neg s) 25 (mouse_y_pos s)\<rparr>;
               s = s\<lparr>old_char := get_char (mouse_y_pos s) (mouse_x_pos s) s\<rparr>
           in set_char 32 3 1 (mouse_y_pos s) (mouse_x_pos s) s)"

text \<open>A store past the end of \<^verbatim>\<open>mouse_bytes\<close> would be undefined.\<close>

definition mouse_interrupt :: "kernel \<Rightarrow> kernel option" where
  "mouse_interrupt s =
     (let (v, s) = inb DATA_PORT s
      in if cycle s \<ge> 3 then None
         else let s = s\<lparr>mouse_bytes := (mouse_bytes s)[cycle s := ucast v], cycle := cycle s + 1\<rparr>;
                  s = send_eoi MOUSE_IRQ s
              in Some (if cycle s = 3 then mouse_packet (s\<lparr>cycle := 0\<rparr>) else s))"

subsection \<open>The waits end\<close>

text \<open>
  The status reads a wait makes: up to the first ready answer of the controller, counted from the next
  answer \<open>c\<close>, and \<open>n\<close> of them when none of those is ready.
\<close>

definition answer_ready :: "bool \<Rightarrow> u8 \<Rightarrow> bool" where
  "answer_ready type v = (if type then (ucast v :: u32) AND 2 = 0 else (ucast v :: u32) AND 1 = 1)"

definition status_reads :: "bool \<Rightarrow> (nat \<Rightarrow> u16 \<Rightarrow> u8) \<Rightarrow> nat \<Rightarrow> nat \<Rightarrow> nat" where
  "status_reads type e c n = min n (Suc (length (takeWhile (\<lambda>i. \<not> answer_ready type (e i STATUS_PORT)) [c..<c + n])))"

lemma status_reads_0 [simp]: "status_reads type e c 0 = 0"
  by (simp add: status_reads_def)

lemma status_reads_Suc:
  "status_reads type e c (Suc n) = (if answer_ready type (e c STATUS_PORT) then 1 else Suc (status_reads type e (Suc c) n))"
proof -
  have "[c..<c + Suc n] = c # [Suc c..<Suc c + n]" by (simp add: upt_rec)
  then show ?thesis by (simp add: status_reads_def)
qed

lemma wait_data_reads: "wait_data n s = s\<lparr>in_cnt := in_cnt s + status_reads False (in_env s) (in_cnt s) n\<rparr>"
  by (induction n arbitrary: s) (simp_all add: inb_def status_reads_Suc answer_ready_def)

lemma wait_signal_reads: "wait_signal n s = s\<lparr>in_cnt := in_cnt s + status_reads True (in_env s) (in_cnt s) n\<rparr>"
  by (induction n arbitrary: s) (simp_all add: inb_def status_reads_Suc answer_ready_def)

lemma mouse_wait_eq: "mouse_wait type s = s\<lparr>in_cnt := in_cnt s + status_reads type (in_env s) (in_cnt s) 100000\<rparr>"
  unfolding mouse_wait_def Let_def by (cases type) (simp_all only: wait_data_reads wait_signal_reads simp_thms if_True if_False)

lemma status_reads_first:
  assumes "i < n" "answer_ready type (e (c + i) STATUS_PORT)" "\<And>j. j < i \<Longrightarrow> \<not> answer_ready type (e (c + j) STATUS_PORT)"
  shows "status_reads type e c n = Suc i"
  using assms
proof (induction n arbitrary: c i)
  case (Suc n)
  show ?case
  proof (cases i)
    case 0
    then show ?thesis using Suc.prems(2) by (simp add: status_reads_Suc)
  next
    case (Suc k)
    have no: "\<not> answer_ready type (e c STATUS_PORT)" using Suc.prems(3) [of 0] Suc by simp
    have "status_reads type e (Suc c) n = Suc k"
      using Suc.prems(1,2) Suc.prems(3) [of "Suc _"] Suc by (intro Suc.IH) simp_all
    then show ?thesis using no Suc by (simp add: status_reads_Suc)
  qed
qed simp

text \<open>
  C35: A wait for the controller always returns, whatever the controller answers: it only reads the
  status port, at most 100000 times, and where the answers become ready at the read \<open>i\<close> it returns right after it.\<close>

theorem mouse_wait_ends:
  "(\<exists>k \<le> 100000. mouse_wait type s = s\<lparr>in_cnt := in_cnt s + k\<rparr>)
   \<and> (i < 100000 \<and> answer_ready type (in_env s (in_cnt s + i) STATUS_PORT)
        \<and> (\<forall>j < i. \<not> answer_ready type (in_env s (in_cnt s + j) STATUS_PORT))
      \<longrightarrow> mouse_wait type s = s\<lparr>in_cnt := in_cnt s + Suc i\<rparr>)"
proof (intro conjI impI)
  show "\<exists>k \<le> 100000. mouse_wait type s = s\<lparr>in_cnt := in_cnt s + k\<rparr>"
    unfolding mouse_wait_eq by (intro exI [of _ "status_reads type (in_env s) (in_cnt s) 100000"]) (simp add: status_reads_def)
next
  assume "i < 100000 \<and> answer_ready type (in_env s (in_cnt s + i) STATUS_PORT)
    \<and> (\<forall>j < i. \<not> answer_ready type (in_env s (in_cnt s + j) STATUS_PORT))"
  then have "status_reads type (in_env s) (in_cnt s) 100000 = Suc i"
    by (intro status_reads_first) simp_all
  then show "mouse_wait type s = s\<lparr>in_cnt := in_cnt s + Suc i\<rparr>" by (simp only: mouse_wait_eq)
qed

theorem mouse_wait_ends_witness:
  "in_cnt (mouse_wait False ((blank_kernel (\<lambda>_. 0))\<lparr>in_env := \<lambda>n p. if n = 2 then 1 else 0\<rparr>)) = 3"
  using mouse_wait_ends [of False "(blank_kernel (\<lambda>_. 0))\<lparr>in_env := \<lambda>n p. if n = 2 then 1 else 0\<rparr>" 2]
  by (simp add: answer_ready_def blank_kernel_def)

subsection \<open>The pointer stays on the screen\<close>

text \<open>The driver's state: the byte counter within its buffer, the pointer on the screen.\<close>

definition mouse_ok :: "kernel \<Rightarrow> bool" where
  "mouse_ok s \<longleftrightarrow> cycle s < 3 \<and> length (mouse_bytes s) = 3
     \<and> 0 \<le> sint (mouse_x_pos s) \<and> sint (mouse_x_pos s) < 80 \<and> 0 \<le> sint (mouse_y_pos s) \<and> sint (mouse_y_pos s) < 25"

lemma sint_of_int8: "- 128 \<le> k \<Longrightarrow> k < 128 \<Longrightarrow> sint (of_int k :: u8) = k"
  by (simp add: sint_sbintrunc' signed_take_bit_int_eq_self)

text \<open>One movement is a step of at most one position, clamped to the extent.\<close>

lemma move_axis_sint:
  assumes "0 \<le> sint pos" "sint pos < extent" "extent \<le> 80"
  shows "sint (move_axis byte neg extent pos) =
    max 0 (min (extent - 1) (sint pos + (if bit byte 0 then if neg then - 1 else 1 else 0)))"
proof -
  have b: "uint (byte AND 1) = of_bool (bit byte 0)" by (simp add: and_one_eq mod_2_eq_odd bit_0)
  have s1: "sint (of_int (sint pos + 1) :: u8) = sint pos + 1" using assms by (intro sint_of_int8) linarith+
  have s2: "sint (of_int (sint pos - 1) :: u8) = sint pos - 1" using assms by (intro sint_of_int8) linarith+
  have s3: "sint (of_int (extent - 1) :: u8) = extent - 1" using assms by (intro sint_of_int8) linarith+
  show ?thesis unfolding move_axis_def b Let_def
    using assms s1 s2 s3 by (cases "bit byte 0"; cases neg) (auto simp del: of_int_add of_int_diff)
qed

text \<open>A packet without overflow moves the pointer; the other packets are dropped.\<close>

definition packet_move :: "u8 \<Rightarrow> bool \<Rightarrow> int \<Rightarrow> int \<Rightarrow> int" where
  "packet_move byte neg extent p = max 0 (min (extent - 1) (p + (if bit byte 0 then if neg then - 1 else 1 else 0)))"

lemma packet_move_bounds: "0 < extent \<Longrightarrow> 0 \<le> packet_move b n extent p \<and> packet_move b n extent p < extent"
  by (auto simp: packet_move_def)

lemma set_char_fields [simp]:
  fixes s :: kernel
  shows "cycle (set_char c f b y x s) = cycle s" "mouse_bytes (set_char c f b y x s) = mouse_bytes s"
    "mouse_x_pos (set_char c f b y x s) = mouse_x_pos s" "mouse_y_pos (set_char c f b y x s) = mouse_y_pos s"
    "x_neg (set_char c f b y x s) = x_neg s" "y_neg (set_char c f b y x s) = y_neg s"
  by (simp_all add: set_char_def Let_def)

lemma if_kprintf [simp]:
  fixes s :: kernel
  shows "mouse_bytes (if b then kprintf f a s else s) = mouse_bytes s" "cycle (if b then kprintf f a s else s) = cycle s"
    "mouse_x_pos (if b then kprintf f a s else s) = mouse_x_pos s" "mouse_y_pos (if b then kprintf f a s else s) = mouse_y_pos s"
    "x_neg (if b then kprintf f a s else s) = x_neg s" "y_neg (if b then kprintf f a s else s) = y_neg s"
  by simp_all

lemma report_buttons_fields [simp]:
  "cycle (report_buttons b s) = cycle s" "mouse_bytes (report_buttons b s) = mouse_bytes s"
  "mouse_x_pos (report_buttons b s) = mouse_x_pos s" "mouse_y_pos (report_buttons b s) = mouse_y_pos s"
  "x_neg (report_buttons b s) = x_neg s" "y_neg (report_buttons b s) = y_neg s"
  by (simp_all add: report_buttons_def Let_def)

lemma mouse_packet_axes:
  "mouse_x_pos (mouse_packet s) =
     (if mouse_bytes s ! 1 AND 0x80 \<noteq> 0 \<or> mouse_bytes s ! 1 AND 0x40 \<noteq> 0 then mouse_x_pos s
      else move_axis (mouse_bytes s ! 2) (mouse_bytes s ! 1 AND 0x10 \<noteq> 0) 80 (mouse_x_pos s))"
  "mouse_y_pos (mouse_packet s) =
     (if mouse_bytes s ! 1 AND 0x80 \<noteq> 0 \<or> mouse_bytes s ! 1 AND 0x40 \<noteq> 0 then mouse_y_pos s
      else move_axis (mouse_bytes s ! 0) (mouse_bytes s ! 1 AND 0x20 = 0) 25 (mouse_y_pos s))"
  "cycle (mouse_packet s) = cycle s" "mouse_bytes (mouse_packet s) = mouse_bytes s"
  unfolding mouse_packet_def by (simp_all add: Let_def)

lemma mouse_packet_pos:
  assumes "mouse_ok s"
  shows "sint (mouse_x_pos (mouse_packet s)) =
      (if bit (mouse_bytes s ! 1) 7 \<or> bit (mouse_bytes s ! 1) 6 then sint (mouse_x_pos s)
       else packet_move (mouse_bytes s ! 2) (bit (mouse_bytes s ! 1) 4) 80 (sint (mouse_x_pos s)))
    \<and> sint (mouse_y_pos (mouse_packet s)) =
      (if bit (mouse_bytes s ! 1) 7 \<or> bit (mouse_bytes s ! 1) 6 then sint (mouse_y_pos s)
       else packet_move (mouse_bytes s ! 0) (\<not> bit (mouse_bytes s ! 1) 5) 25 (sint (mouse_y_pos s)))"
proof -
  have b: "(v AND 0x80 \<noteq> 0) = bit v 7" "(v AND 0x40 \<noteq> 0) = bit v 6" "(v AND 0x20 = 0) = (\<not> bit v 5)" "(v AND 0x10 \<noteq> 0) = bit v 4"
    for v :: u8
    using and_exp_eq_0_iff_not_bit [of v 7] and_exp_eq_0_iff_not_bit [of v 6] and_exp_eq_0_iff_not_bit [of v 5]
      and_exp_eq_0_iff_not_bit [of v 4] by simp_all
  have x: "sint (move_axis u n 80 (mouse_x_pos s)) = packet_move u n 80 (sint (mouse_x_pos s))" for u n
    using assms unfolding packet_move_def mouse_ok_def by (intro move_axis_sint) simp_all
  have y: "sint (move_axis u n 25 (mouse_y_pos s)) = packet_move u n 25 (sint (mouse_y_pos s))" for u n
    using assms unfolding packet_move_def mouse_ok_def by (intro move_axis_sint) simp_all
  show ?thesis by (simp add: mouse_packet_axes b x y)
qed

lemma mouse_packet_ok:
  assumes "mouse_ok s"
  shows "mouse_ok (mouse_packet s)"
  using mouse_packet_pos [OF assms] packet_move_bounds [of 80] packet_move_bounds [of 25] assms
  by (simp add: mouse_ok_def mouse_packet_axes(3,4))

lemma send_eoi_mouse [simp]:
  "cycle (send_eoi 12 s) = cycle s" "mouse_bytes (send_eoi 12 s) = mouse_bytes s"
  "mouse_x_pos (send_eoi 12 s) = mouse_x_pos s" "mouse_y_pos (send_eoi 12 s) = mouse_y_pos s"
  by (simp_all add: send_eoi_def Let_def)

lemma mouse_interrupt_ok:
  assumes "mouse_ok s"
  shows "\<exists>s'. mouse_interrupt s = Some s' \<and> mouse_ok s' \<and> cycle s' = (cycle s + 1) mod 3"
proof -
  define t where "t = send_eoi 12 ((snd (inb DATA_PORT s))\<lparr>mouse_bytes := (mouse_bytes s)[cycle s := ucast (fst (inb DATA_PORT s))],
    cycle := cycle s + 1\<rparr>)"
  have c: "cycle s < 3" using assms by (simp add: mouse_ok_def)
  have i: "mouse_interrupt s = Some (if cycle t = 3 then mouse_packet (t\<lparr>cycle := 0\<rparr>) else t)"
    using c by (simp add: mouse_interrupt_def inb_def Let_def t_def)
  have t: "cycle t = cycle s + 1" "length (mouse_bytes t) = 3" "mouse_x_pos t = mouse_x_pos s" "mouse_y_pos t = mouse_y_pos s"
    using assms by (simp_all add: t_def mouse_ok_def inb_def)
  show ?thesis
  proof (cases "cycle s = 2")
    case True
    have "mouse_ok (t\<lparr>cycle := 0\<rparr>)" using assms t by (simp add: mouse_ok_def)
    then show ?thesis using i t True mouse_packet_ok by (simp add: mouse_packet_axes(3))
  next
    case False
    then show ?thesis using i t c assms by (simp add: mouse_ok_def)
  qed
qed

text \<open>\<open>n\<close> mouse interrupts one after the other.\<close>

fun mouse_interrupts :: "nat \<Rightarrow> kernel \<Rightarrow> kernel option" where
  "mouse_interrupts 0 s = Some s"
| "mouse_interrupts (Suc n) s = Option.bind (mouse_interrupt s) (mouse_interrupts n)"

lemma mouse_interrupts_spec:
  "mouse_ok s \<Longrightarrow> \<exists>s'. mouse_interrupts n s = Some s' \<and> mouse_ok s' \<and> cycle s' = (cycle s + n) mod 3"
proof (induction n arbitrary: s)
  case 0
  then show ?case by (simp add: mouse_ok_def)
next
  case (Suc n)
  obtain t where t: "mouse_interrupt s = Some t" "mouse_ok t" "cycle t = (cycle s + 1) mod 3"
    using mouse_interrupt_ok [OF Suc.prems] by auto
  then show ?case using Suc.IH [OF t(2)] by (simp add: mod_add_left_eq)
qed

text \<open>
  C34: Whatever bytes the mouse sends, no interrupt stores outside the packet buffer, the
  handler stays in step with the packets of three bytes, and the pointer never leaves the 80 by 25 screen.\<close>

theorem mouse_stays_on_screen:
  assumes "mouse_ok s"
  shows "\<exists>s'. mouse_interrupts n s = Some s' \<and> cycle s' = (cycle s + n) mod 3 \<and> length (mouse_bytes s') = 3
    \<and> sint (mouse_x_pos s') \<in> {0..<80} \<and> sint (mouse_y_pos s') \<in> {0..<25}"
  using mouse_interrupts_spec [OF assms, of n] by (auto simp: mouse_ok_def)

theorem mouse_stays_on_screen_witness:
  "\<exists>s'. mouse_interrupts 7 ((blank_kernel (\<lambda>_. 0))\<lparr>mouse_bytes := [0, 0, 0], mouse_x_pos := 79, mouse_y_pos := 24\<rparr>) = Some s'
    \<and> cycle s' = 1 \<and> sint (mouse_x_pos s') \<in> {0..<80}"
  using mouse_stays_on_screen [of "(blank_kernel (\<lambda>_. 0))\<lparr>mouse_bytes := [0, 0, 0], mouse_x_pos := 79, mouse_y_pos := 24\<rparr>" 7]
  by (auto simp: mouse_ok_def blank_kernel_def)

end
