(* ===== verification/Idt.thy ===== *)
theory Idt
  imports Timer Mouse
begin

text \<open>
  The interrupt descriptor table and the exception handlers, \<^verbatim>\<open>student-distrib/idt_handle.c\<close>, with the descriptor
  layouts of \<^verbatim>\<open>x86_desc.h\<close>. The main results: after \<^verbatim>\<open>idt_init\<close> every vector the kernel serves has its
  handler, exactly the system call gate is open to user code and exactly it leaves interrupts on,
  and every other vector is absent; an exception ends the running program with the value 256.
\<close>

subsection \<open>Gate descriptors\<close>

record idt_desc_t =
  offset_15_00 :: u16
  seg_selector :: u16
  reserved4 :: u8
  reserved3 :: bool
  reserved2 :: bool
  reserved1 :: bool
  gate_size :: bool
  reserved0 :: bool
  dpl :: "2 word"
  present :: bool
  offset_31_16 :: u16

abbreviation KERNEL_CS :: u16 where "KERNEL_CS \<equiv> 0x0010"
abbreviation USED_EXCEPTIONS :: nat where "USED_EXCEPTIONS \<equiv> 20"
abbreviation PIC_INTRS :: nat where "PIC_INTRS \<equiv> 16"
abbreviation NUM_VEC :: nat where "NUM_VEC \<equiv> 256"

definition SET_TRAP_GATE :: "idt_desc_t \<Rightarrow> idt_desc_t" where
  "SET_TRAP_GATE str = str\<lparr>seg_selector := KERNEL_CS, reserved4 := 0, reserved3 := True, reserved2 := True,
     reserved1 := True, gate_size := True, reserved0 := False, dpl := 0, present := True\<rparr>"

definition SET_INTR_GATE :: "idt_desc_t \<Rightarrow> idt_desc_t" where
  "SET_INTR_GATE str = str\<lparr>seg_selector := KERNEL_CS, reserved4 := 0, reserved3 := False, reserved2 := True,
     reserved1 := True, gate_size := True, reserved0 := False, dpl := 0, present := True\<rparr>"

definition SET_IDT_ENTRY :: "idt_desc_t \<Rightarrow> u32 \<Rightarrow> idt_desc_t" where
  "SET_IDT_ENTRY str handler = str\<lparr>offset_31_16 := ucast (drop_bit 16 (handler AND 0xFFFF0000)),
     offset_15_00 := ucast (handler AND 0xFFFF)\<rparr>"

subsection \<open>idt_init\<close>

text \<open>
  The wrappers of \<^verbatim>\<open>idt_handle_wrap.S\<close>: exception \<open>i\<close>, interrupt line \<open>i\<close>, the system call. Their addresses are
  given by the linker and are a parameter.
\<close>

datatype wrapper = Exception nat | Line nat | Syscall

definition except_ptr :: "nat \<Rightarrow> wrapper" where
  "except_ptr i = Exception i"

text \<open>The entries of \<^verbatim>\<open>intr_ptr\<close> that are not 0.\<close>

definition intr_ptr :: "nat \<Rightarrow> wrapper option" where
  "intr_ptr i = (if i \<in> {0, 1, 8, 12} then Some (Line i) else None)"

type_synonym idt_table = "nat \<Rightarrow> idt_desc_t"

fun fill_exceptions :: "nat \<Rightarrow> (wrapper \<Rightarrow> u32) \<Rightarrow> idt_desc_t \<Rightarrow> idt_table \<Rightarrow> idt_table" where
  "fill_exceptions 0 addr idt_entry idt = idt"
| "fill_exceptions (Suc k) addr idt_entry idt =
     (let i = USED_EXCEPTIONS - Suc k; idt_entry = SET_IDT_ENTRY idt_entry (addr (except_ptr i))
      in fill_exceptions k addr idt_entry (idt(i := idt_entry)))"

fun fill_empty :: "nat \<Rightarrow> idt_desc_t \<Rightarrow> idt_table \<Rightarrow> idt_table" where
  "fill_empty 0 empty_entry idt = idt"
| "fill_empty (Suc k) empty_entry idt = fill_empty k empty_entry (idt(NUM_VEC - Suc k := empty_entry))"

fun fill_lines :: "nat \<Rightarrow> (wrapper \<Rightarrow> u32) \<Rightarrow> idt_desc_t \<Rightarrow> idt_table \<Rightarrow> idt_table" where
  "fill_lines 0 addr idt_entry idt = idt"
| "fill_lines (Suc k) addr idt_entry idt =
     (let i = PIC_INTRS - Suc k
      in case intr_ptr i of
           None \<Rightarrow> fill_lines k addr idt_entry idt
         | Some w \<Rightarrow> let idt_entry = SET_IDT_ENTRY idt_entry (addr w)
                    in fill_lines k addr idt_entry (idt(i + 32 := idt_entry)))"

text \<open>
  \<open>junk\<close> and \<open>junk'\<close> are the indeterminate initial values of the two local descriptors. The table is returned;
  loading its register has no other effect on the model.
\<close>

definition idt_init :: "(wrapper \<Rightarrow> u32) \<Rightarrow> idt_desc_t \<Rightarrow> idt_desc_t \<Rightarrow> idt_table \<Rightarrow> idt_table" where
  "idt_init addr junk junk' idt =
     (let empty_entry = junk'\<lparr>present := False\<rparr>;
          idt_entry = SET_INTR_GATE junk;
          idt = fill_exceptions USED_EXCEPTIONS addr idt_entry idt;
          idt = fill_empty (NUM_VEC - USED_EXCEPTIONS) empty_entry idt;
          idt = fill_lines PIC_INTRS addr idt_entry idt;
          idt_entry = SET_TRAP_GATE idt_entry;
          idt_entry = idt_entry\<lparr>dpl := 3\<rparr>;
          idt_entry = SET_IDT_ENTRY idt_entry (addr Syscall)
      in idt(128 := idt_entry))"

subsection \<open>Exception handlers\<close>

definition PRINT_MESSAGE :: "string \<Rightarrow> u32 \<Rightarrow> u32 \<Rightarrow> kernel \<Rightarrow> (outcome \<times> kernel) option" where
  "PRINT_MESSAGE message e_esp e_ebp s =
     (let s = kprintf (message @ [CHR 0x0A]) [] s;
          s = s\<lparr>except_raised := True\<rparr>
      in sys_halt 0 e_esp e_ebp s)"

text \<open>The messages, by vector; vector 14 is the page fault, which also prints the faulting address.\<close>

definition except_message :: "nat \<Rightarrow> string" where
  "except_message i =
     [''Divide-by-zero fault occurred. Do you even math?'',
      ''RESERVED. You got an exception for intel used only...'',
      ''Non-maskable interrupt triggered. Hardware wants attention bad.'',
      ''Breakpoint thrown. How long is this going to take?'',
      ''Overflow detected. It'' @ [CHR 0x27] @ ''s too big.'',
      ''Bounds exceeded. Try a tigher fit.'',
      ''Invalid opcode used. This is x86, bruh...'',
      ''Device not available fault. You gonna wait today.'',
      ''Double fault, abort! RIP, GG.'',
      ''Coprocessor Segment Overrun (reserved). Really shouldn'' @ [CHR 0x27] @ ''t be getting this...'',
      ''Invalid task state segment. No context switching for you, ha.'',
      ''Segment not present. Is your brain segment present?'',
      ''Stack segment fault. Have fun debugging.'',
      ''General protection fault. You'' @ [CHR 0x27] @ ''re violating me.'',
      [],
      ''Intel reserved. Why are you even getting this?!'',
      ''x87 FPU Floating-Point Error. No one actually knows...'',
      ''Alignment check faulted. Guess your brain also needs re-alignment.'',
      ''Machine check failed, abort! Another RIP, GG.'',
      ''Floating point exception. IDEK, but GL.''] ! i"

definition page_fault :: "u32 \<Rightarrow> u32 \<Rightarrow> u32 \<Rightarrow> kernel \<Rightarrow> (outcome \<times> kernel) option" where
  "page_fault cr2 e_esp e_ebp s =
     (let s = kprintf (''Page fault encountered with error %x'' @ [CHR 0x0A]) [ArgW cr2] s;
          s = s\<lparr>except_raised := True\<rparr>
      in sys_halt 0 e_esp e_ebp s)"

definition exception :: "nat \<Rightarrow> u32 \<Rightarrow> u32 \<Rightarrow> u32 \<Rightarrow> kernel \<Rightarrow> (outcome \<times> kernel) option" where
  "exception i cr2 e_esp e_ebp s =
     (if i = 14 then page_fault cr2 e_esp e_ebp s else PRINT_MESSAGE (except_message i) e_esp e_ebp s)"

subsection \<open>The table after idt_init\<close>

text \<open>The handler address of a gate, as the processor reads it.\<close>

definition gate_addr :: "idt_desc_t \<Rightarrow> u32" where
  "gate_addr g = push_bit 16 (ucast (offset_31_16 g)) OR ucast (offset_15_00 g)"

text \<open>The wrapper a vector is meant to have.\<close>

definition served :: "nat \<Rightarrow> wrapper option" where
  "served v = (if v < 20 then Some (Exception v) else if v \<in> {32, 33, 40, 44} then Some (Line (v - 32))
     else if v = 128 then Some Syscall else None)"

lemma SET_IDT_ENTRY_twice [simp]: "SET_IDT_ENTRY (SET_IDT_ENTRY e a) b = SET_IDT_ENTRY e b"
  by (simp add: SET_IDT_ENTRY_def)

lemma gate_addr_entry [simp]: "gate_addr (SET_IDT_ENTRY e a) = a"
proof (rule bit_word_eqI)
  fix n
  assume n: "n < LENGTH(32)"
  have m: "(0xFFFF :: u32) = mask 16" "(0xFFFF0000 :: u32) = push_bit 16 (mask 16)" by (simp_all add: mask_eq_exp_minus_1)
  show "bit (gate_addr (SET_IDT_ENTRY e a)) n = bit a n"
    using n unfolding gate_addr_def SET_IDT_ENTRY_def m by (auto simp: bit_simps)
qed

lemma fill_exceptions_nth:
  "k \<le> 20 \<Longrightarrow> fill_exceptions k addr e t v = (if 20 - k \<le> v \<and> v < 20 then SET_IDT_ENTRY e (addr (Exception v)) else t v)"
proof (induction k arbitrary: e t)
  case (Suc k)
  then show ?case by (auto simp: Let_def except_ptr_def)
qed auto

lemma fill_empty_nth: "k \<le> 256 \<Longrightarrow> fill_empty k e t v = (if 256 - k \<le> v \<and> v < 256 then e else t v)"
  by (induction k arbitrary: t) auto

lemma fill_lines_nth:
  "k \<le> 16 \<Longrightarrow> fill_lines k addr e t v =
     (if 48 - k \<le> v \<and> v < 48 then case intr_ptr (v - 32) of None \<Rightarrow> t v | Some w \<Rightarrow> SET_IDT_ENTRY e (addr w) else t v)"
proof (induction k arbitrary: e t)
  case (Suc k)
  have v: "v - 32 = 16 - Suc k \<longleftrightarrow> v = 48 - Suc k" if "48 - Suc k \<le> v" using that Suc.prems by auto
  show ?case
  proof (cases "intr_ptr (16 - Suc k)")
    case None
    then show ?thesis using Suc v by (cases "v = 48 - Suc k") auto
  next
    case (Some w)
    have "16 - Suc k + 32 = 48 - Suc k" using Suc.prems by simp
    then show ?thesis using Suc Some v by (cases "v = 48 - Suc k") (auto simp: Let_def split: option.split)
  qed
qed auto

lemma idt_init_nth:
  assumes "v < 256"
  shows "idt_init addr junk junk' t v = (case served v of
      None \<Rightarrow> junk'\<lparr>present := False\<rparr>
    | Some Syscall \<Rightarrow> SET_IDT_ENTRY ((SET_TRAP_GATE (SET_INTR_GATE junk))\<lparr>dpl := 3\<rparr>) (addr Syscall)
    | Some w \<Rightarrow> SET_IDT_ENTRY (SET_INTR_GATE junk) (addr w))"
proof -
  have i: "intr_ptr (v - 32) = (if v \<in> {32, 33, 40, 44} then Some (Line (v - 32)) else None)" if "32 \<le> v"
    using that by (auto simp: intr_ptr_def)
  show ?thesis
    using assms i unfolding idt_init_def Let_def served_def
    by (auto simp: fill_exceptions_nth fill_empty_nth fill_lines_nth)
qed

text \<open>
  C16: The interrupt table after \<^verbatim>\<open>idt_init\<close>. Of the 256 vectors exactly the 20 exceptions, the four device lines in use and the
  system call are present; each leads to its own wrapper, in the kernel's code segment, through a 32-bit gate. User code can
  raise only the system call: every other gate needs privilege level 0, and every other gate
  masks interrupts on entry. This holds whatever the descriptors contained before. (The comment at
  \<^verbatim>\<open>idt_handle.h:18\<close> calls the trap gate the one for exceptions; \<^verbatim>\<open>idt_init\<close> gives the exceptions interrupt gates and
  uses the trap gate for the system call only.)\<close>

theorem idt_init_gates:
  assumes "v < 256"
  shows "let g = idt_init addr junk junk' t v in
    case served v of None \<Rightarrow> \<not> present g
    | Some w \<Rightarrow> present g \<and> gate_addr g = addr w \<and> seg_selector g = KERNEL_CS \<and> gate_size g \<and> reserved1 g \<and> reserved2 g \<and> \<not> reserved0 g
        \<and> dpl g = (if w = Syscall then 3 else 0) \<and> reserved3 g = (w = Syscall)"
proof -
  have k: "present (SET_IDT_ENTRY e a) = present e" "seg_selector (SET_IDT_ENTRY e a) = seg_selector e" "gate_size (SET_IDT_ENTRY e a) = gate_size e"
    "reserved0 (SET_IDT_ENTRY e a) = reserved0 e" "reserved1 (SET_IDT_ENTRY e a) = reserved1 e" "reserved2 (SET_IDT_ENTRY e a) = reserved2 e"
    "reserved3 (SET_IDT_ENTRY e a) = reserved3 e" "dpl (SET_IDT_ENTRY e a) = dpl e" for e a
    by (simp_all add: SET_IDT_ENTRY_def)
  show ?thesis unfolding Let_def idt_init_nth [OF assms]
    by (auto simp: k SET_TRAP_GATE_def SET_INTR_GATE_def split: option.split wrapper.split)
qed

theorem idt_init_gates_witness:
  "\<forall>j j' t. let g = idt_init (\<lambda>w. if w = Syscall then 0x401234 else 0x400000) j j' t 0x80 in present g \<and> gate_addr g = 0x401234 \<and> dpl g = 3"
  using idt_init_gates [of "0x80" "\<lambda>w. if w = Syscall then 0x401234 else 0x400000"] by (simp add: served_def Let_def)

subsection \<open>Exceptions end the program\<close>

lemma kprintf_other_terminal: "j \<noteq> sched_term_id s \<Longrightarrow> terminals (kprintf f a s) j = terminals s j"
  using kprintf_out [of f a s] by auto

lemma kprintf_frame:
  "term_ok (terminals s (sched_term_id s)) \<Longrightarrow> \<not> in_range (Phys, vid_mem (terminals s (sched_term_id s))) 4000 q \<Longrightarrow> mem (kprintf f a s) q = mem s q"
  using kprintf_out [of f a s] puts_loop_frame(2) by metis

lemma st32_frame: "\<not> in_range p 4 q \<Longrightarrow> st32 m p v q = m q"
  unfolding st32_write_list by (rule write_list_other) (simp add: eval_nat_numeral)

text \<open>What the end of a program changes: its own descriptors, the current task of its terminal, one entry of the page directory.\<close>

definition only_ended :: "nat \<Rightarrow> u32 \<Rightarrow> kernel \<Rightarrow> kernel \<Rightarrow> bool" where
  "only_ended n p s s' \<longleftrightarrow>
     pcbs s' = (pcbs s)(pcb_addr n := (pcbs s (pcb_addr n))\<lparr>io_files := free_from 0 (io_files (pcbs s (pcb_addr n)))\<rparr>)
     \<and> used_slots s' = used_slots s - {n}
     \<and> cur_task (terminals s' (sched_term_id s)) = p \<and> (\<forall>j. j \<noteq> sched_term_id s \<longrightarrow> terminals s' j = terminals s j)
     \<and> (term_ok (terminals s (sched_term_id s)) \<longrightarrow>
          (\<forall>q. \<not> in_range (Phys, vid_mem (terminals s (sched_term_id s))) 4000 q \<and> \<not> in_range (prog_dir s) 4 q \<longrightarrow> mem s' q = mem s q))"

lemma halt_after_message:
  assumes "n < 32" "cur_pcb s = pcb_addr n" "parent_task (pcbs s (pcb_addr n)) = p" "p \<noteq> 0" "page_addr (pcbs s p) = prog_page k" "k < 6"
  shows "\<exists>s'. sys_halt 0 e1 e2 ((kprintf f a s)\<lparr>except_raised := True\<rparr>) = Some (ExecuteReturns (esp (pcbs s p)) (ebp (pcbs s p)) 256, s')
    \<and> iflag s' \<and> \<not> except_raised s' \<and> cur_pcb s' = p \<and> tss_esp0 s' = esp0 (pcbs s p) \<and> ld32 (mem s') (prog_dir s') = prog_page k + 0x87 \<and> only_ended n p s s'"
proof -
  let ?s = "(kprintf f a s)\<lparr>except_raised := True\<rparr>"
  obtain s' where s': "sys_halt 0 e1 e2 ?s = Some (ExecuteReturns (esp (pcbs s p)) (ebp (pcbs s p)) 256, s')"
    "iflag s'" "\<not> except_raised s'" "cur_pcb s' = p" "tss_esp0 s' = esp0 (pcbs s p)" "ld32 (mem s') (prog_dir s') = prog_page k + 0x87"
    "used_slots s' = used_slots s - {n}" "pcbs s' = (pcbs s)(pcb_addr n := (pcbs s (pcb_addr n))\<lparr>io_files := free_from 0 (io_files (pcbs s (pcb_addr n)))\<rparr>)"
    and t: "terminals s' = (terminals ?s)(sched_term_id s := (terminals ?s (sched_term_id s))\<lparr>cur_task := p\<rparr>)"
    and m: "mem s' = st32 (mem ?s) (prog_dir ?s) (prog_page k + 0x87)"
    using sys_halt_spec [of n ?s p k 0 e1 e2] assms by (auto simp: exit_value_def used_slots_def)
  have "prog_dir ?s = prog_dir s" by simp
  then have "mem s' q = mem s q" if "term_ok (terminals s (sched_term_id s))" "\<not> in_range (Phys, vid_mem (terminals s (sched_term_id s))) 4000 q" "\<not> in_range (prog_dir s) 4 q" for q
    using that kprintf_frame [of s q f a] st32_frame [of "prog_dir s" q] by (simp add: m)
  then have "only_ended n p s s'" using s'(7,8) by (simp add: only_ended_def t kprintf_other_terminal)
  then show ?thesis using s' by blast
qed

text \<open>
  C15: An exception in a program that has a parent ends that program and nothing else: after the message, the
  parent's \<^verbatim>\<open>execute\<close> returns 256, a value no exit status can have, on the parent's saved stack; the parent's
  page is mapped again and its kernel stack set, the flag that recorded the exception is clear, and interrupts are on. The
  slot of the program is free and its descriptors are closed; every other process control block, every other
  terminal and all memory but the screen with the message and the one entry of the page directory are as
  before. (The comment at \<^verbatim>\<open>idt_handle.c:69\<close> says that the handlers stall the system indefinitely; since they
  call \<^verbatim>\<open>sys_halt\<close> they do not.)\<close>

theorem exception_ends_program:
  assumes "n < 32" and "cur_pcb s = pcb_addr n" and "parent_task (pcbs s (pcb_addr n)) = p" and "p \<noteq> 0"
    and "page_addr (pcbs s p) = prog_page k" and "k < 6"
  shows "\<exists>s'. exception i cr2 e1 e2 s = Some (ExecuteReturns (esp (pcbs s p)) (ebp (pcbs s p)) 256, s')
    \<and> iflag s' \<and> \<not> except_raised s' \<and> cur_pcb s' = p \<and> tss_esp0 s' = esp0 (pcbs s p) \<and> ld32 (mem s') (prog_dir s') = prog_page k + 0x87 \<and> only_ended n p s s'"
  unfolding exception_def page_fault_def PRINT_MESSAGE_def Let_def
  using halt_after_message [OF assms] by (cases "i = 14") simp_all

theorem exception_ends_program_witness:
  "let s = sample_fs\<lparr>cur_pcb := 0x7FC000, pcb_status := 3,
         pcbs := (\<lambda>_. blank_pcb)(0x7FC000 := blank_pcb\<lparr>parent_task := 0x7FE000\<rparr>, 0x7FE000 := blank_pcb\<lparr>page_addr := 0x800000, esp := 11, ebp := 12\<rparr>)\<rparr>
   in \<exists>s'. exception 14 0xDEADBEEF 1 2 s = Some (ExecuteReturns 11 12 256, s') \<and> cur_pcb s' = 0x7FE000"
proof -
  define s where "s = sample_fs\<lparr>cur_pcb := 0x7FC000, pcb_status := 3,
         pcbs := (\<lambda>_. blank_pcb)(0x7FC000 := blank_pcb\<lparr>parent_task := 0x7FE000\<rparr>, 0x7FE000 := blank_pcb\<lparr>page_addr := 0x800000, esp := 11, ebp := 12\<rparr>)\<rparr>"
  have s: "cur_pcb s = pcb_addr 1" "parent_task (pcbs s (pcb_addr 1)) = 0x7FE000" "page_addr (pcbs s 0x7FE000) = prog_page 0"
    "esp (pcbs s 0x7FE000) = 11" "ebp (pcbs s 0x7FE000) = 12"
    by (simp_all add: s_def pcb_addr_def prog_page_def)
  have "\<exists>s'. exception 14 0xDEADBEEF 1 2 s = Some (ExecuteReturns 11 12 256, s') \<and> cur_pcb s' = 0x7FE000"
    using exception_ends_program [OF _ s(1,2) _ s(3), of 14 "0xDEADBEEF" 1 2] s(4,5) by auto
  then show ?thesis by (simp add: s_def [symmetric])
qed

end
