(* ===== verification/Boot.thy ===== *)
theory Boot
  imports Idt
begin

text \<open>
  The start of the kernel, \<^verbatim>\<open>student-distrib/kernel.c\<close>: the report on the Multiboot information, the descriptors
  for the LDT and the TSS, the initialisation of all the components in the order of the code, and the
  first program. The addresses of assembly symbols are parameters.
\<close>

subsection \<open>Descriptors\<close>

record seg_desc_t =
  seg_lim_15_00 :: u16
  base_15_00 :: u16
  base_23_16 :: u8
  seg_type :: "4 word"
  seg_sys :: bool
  seg_dpl :: "2 word"
  seg_present :: bool
  seg_lim_19_16 :: "4 word"
  avail :: bool
  seg_reserved :: bool
  opsize :: bool
  granularity :: bool
  base_31_24 :: u8

abbreviation KERNEL_DS :: u16 where "KERNEL_DS \<equiv> 0x0018"
abbreviation KERNEL_LDT :: u16 where "KERNEL_LDT \<equiv> 0x0038"
abbreviation KERNEL_TSS :: u16 where "KERNEL_TSS \<equiv> 0x0030"
abbreviation TSS_SIZE :: u32 where "TSS_SIZE \<equiv> 104"

text \<open>The macros \<^verbatim>\<open>SET_LDT_PARAMS\<close> and \<^verbatim>\<open>SET_TSS_PARAMS\<close>, which have the same body.\<close>

definition SET_TSS_PARAMS :: "seg_desc_t \<Rightarrow> u32 \<Rightarrow> u32 \<Rightarrow> seg_desc_t" where
  "SET_TSS_PARAMS str addr lim = str\<lparr>
     base_31_24 := ucast (drop_bit 24 (addr AND 0xFF000000)),
     base_23_16 := ucast (drop_bit 16 (addr AND 0x00FF0000)),
     base_15_00 := ucast (addr AND 0x0000FFFF),
     seg_lim_19_16 := ucast (drop_bit 16 (lim AND 0x000F0000)),
     seg_lim_15_00 := ucast (lim AND 0x0000FFFF)\<rparr>"

definition SET_LDT_PARAMS :: "seg_desc_t \<Rightarrow> u32 \<Rightarrow> u32 \<Rightarrow> seg_desc_t" where
  "SET_LDT_PARAMS str addr lim = SET_TSS_PARAMS str addr lim"

text \<open>The addresses and sizes that come from \<^verbatim>\<open>x86_desc.S\<close>, and the tables \<^verbatim>\<open>entry\<close> fills.\<close>

record symbols =
  ldt_addr :: u32
  ldt_size :: u32
  tss_addr :: u32
  tss_size :: u32
  wrapper_addr :: "wrapper \<Rightarrow> u32"

record tables =
  idt :: idt_table
  ldt_desc_ptr :: seg_desc_t
  tss_desc_ptr :: seg_desc_t
  ldt_segment_selector :: u16
  ss0 :: u16
  ldtr :: u16
  tr :: u16

definition ldt_entry :: "symbols \<Rightarrow> seg_desc_t \<Rightarrow> seg_desc_t" where
  "ldt_entry sy junk = SET_LDT_PARAMS (junk\<lparr>granularity := False, opsize := True, seg_reserved := False, avail := False,
     seg_present := True, seg_dpl := 0, seg_sys := False, seg_type := 2\<rparr>) (ldt_addr sy) (ldt_size sy)"

definition tss_entry :: "symbols \<Rightarrow> seg_desc_t \<Rightarrow> seg_desc_t" where
  "tss_entry sy junk = SET_TSS_PARAMS (junk\<lparr>granularity := False, opsize := False, seg_reserved := False, avail := False,
     seg_lim_19_16 := ucast (TSS_SIZE AND 0x000F0000), seg_present := True, seg_dpl := 0, seg_sys := False, seg_type := 9,
     seg_lim_15_00 := ucast (TSS_SIZE AND 0x0000FFFF)\<rparr>) (tss_addr sy) (tss_size sy)"

definition boot_tables :: "symbols \<Rightarrow> seg_desc_t \<Rightarrow> tables \<Rightarrow> kernel \<Rightarrow> tables \<times> kernel" where
  "boot_tables sy junk t s =
     (let t = t\<lparr>ldt_desc_ptr := ldt_entry sy junk, ldtr := KERNEL_LDT\<rparr>;
          t = t\<lparr>tss_desc_ptr := tss_entry sy junk, ldt_segment_selector := KERNEL_LDT, ss0 := KERNEL_DS\<rparr>;
          s = s\<lparr>tss_esp0 := 0x800000\<rparr>
      in (t\<lparr>tr := KERNEL_TSS\<rparr>, s))"

subsection \<open>Multiboot information\<close>

abbreviation MULTIBOOT_BOOTLOADER_MAGIC :: u32 where "MULTIBOOT_BOOTLOADER_MAGIC \<equiv> 0x2BADB002"

definition CHECK_FLAG :: "u32 \<Rightarrow> nat \<Rightarrow> bool" where
  "CHECK_FLAG flgs b \<longleftrightarrow> flgs AND push_bit b 1 \<noteq> 0"

text \<open>A word of a structure in memory, at a byte offset.\<close>

definition word_at :: "kernel \<Rightarrow> u32 \<Rightarrow> u32 \<Rightarrow> u32" where
  "word_at s a off = ld32 (mem s) (Phys, a + off)"

definition nl :: "string \<Rightarrow> string" where
  "nl str = str @ [CHR 0x0A]"

fun print_bytes :: "nat \<Rightarrow> u32 \<Rightarrow> kernel \<Rightarrow> kernel" where
  "print_bytes 0 a s = s"
| "print_bytes (Suc k) a s = print_bytes k (a + 1) (kprintf ''0x%x '' [ArgW (scast (mem s (Phys, a)))] s)"

fun print_modules :: "nat \<Rightarrow> u32 \<Rightarrow> u32 \<Rightarrow> kernel \<Rightarrow> kernel" where
  "print_modules 0 mod_count md s = s"
| "print_modules (Suc k) mod_count md s =
     (let s = kprintf (nl ''Module %d loaded at address: 0x%#x'') [ArgW mod_count, ArgW (word_at s md 0)] s;
          s = kprintf (nl ''Module %d ends at address: 0x%#x'') [ArgW mod_count, ArgW (word_at s md 4)] s;
          s = kprintf (nl ''First few bytes of module:'') [] s;
          s = print_bytes 16 (word_at s md 0) s;
          s = kprintf (nl []) [] s
      in print_modules k (mod_count + 1) (md + 16) s)"

text \<open>The loop over the memory map need not end on a malformed map.\<close>

partial_function (option) print_mmap :: "u32 \<Rightarrow> u32 \<Rightarrow> kernel \<Rightarrow> kernel option" where
  "print_mmap mmap limit s =
     (if mmap < limit
      then let s = kprintf (nl '' size = 0x%x,     base_addr = 0x%#x%#x'' @ nl ''     type = 0x%x,  length    = 0x%#x%#x'')
                     [ArgW (word_at s mmap 0), ArgW (word_at s mmap 8), ArgW (word_at s mmap 4),
                      ArgW (word_at s mmap 20), ArgW (word_at s mmap 16), ArgW (word_at s mmap 12)] s
           in print_mmap (mmap + word_at s mmap 0 + 4) limit s
      else Some s)"

text \<open>The report; the result says whether the start goes on.\<close>

definition boot_info :: "u32 \<Rightarrow> u32 \<Rightarrow> kernel \<Rightarrow> (bool \<times> kernel) option" where
  "boot_info magic mbi s =
     (let s = clear_screen s
      in if magic \<noteq> MULTIBOOT_BOOTLOADER_MAGIC
         then Some (False, kprintf (nl ''Invalid magic number: 0x%#x'') [ArgW magic] s)
         else
           let flgs = \<lambda>s. word_at s mbi 0;
               s = kprintf (nl ''flags = 0x%#x'') [ArgW (flgs s)] s;
               s = (if CHECK_FLAG (flgs s) 0
                    then kprintf (nl ''mem_lower = %uKB, mem_upper = %uKB'') [ArgW (word_at s mbi 4), ArgW (word_at s mbi 8)] s else s);
               s = (if CHECK_FLAG (flgs s) 1 then kprintf (nl ''boot_device = 0x%#x'') [ArgW (word_at s mbi 12)] s else s);
               s = (if CHECK_FLAG (flgs s) 2
                    then kprintf (nl ''cmdline = %s'') [ArgS (string_at (mem s) (Phys, word_at s mbi 16))] s else s);
               s = (if CHECK_FLAG (flgs s) 3
                    then let md = word_at s mbi 24;
                             s = s\<lparr>fs_addr := word_at s md 0\<rparr>
                         in print_modules (unat (word_at s mbi 20)) 0 md s
                    else s)
           in if CHECK_FLAG (flgs s) 4 \<and> CHECK_FLAG (flgs s) 5
              then Some (False, kprintf (nl ''Both bits 4 and 5 are set.'') [] s)
              else
                let s = (if CHECK_FLAG (flgs s) 5
                         then kprintf (nl ''elf_sec: num = %u, size = 0x%#x, addr = 0x%#x, shndx = 0x%#x'')
                                [ArgW (word_at s mbi 28), ArgW (word_at s mbi 32), ArgW (word_at s mbi 36), ArgW (word_at s mbi 40)] s
                         else s)
                in if CHECK_FLAG (flgs s) 6
                   then do {
                     let s = kprintf (nl ''mmap_addr = 0x%#x, mmap_length = 0x%x'') [ArgW (word_at s mbi 48), ArgW (word_at s mbi 44)] s;
                     s \<leftarrow> print_mmap (word_at s mbi 48) (word_at s mbi 48 + word_at s mbi 44) s;
                     Some (True, s)
                   }
                   else Some (True, s))"

subsection \<open>entry\<close>

definition boot_devices :: "kernel \<Rightarrow> kernel option" where
  "boot_devices s = do {
     let s = keyboard_init s;
     let s = rtc_init s;
     let s = mouse_init s;
     let s = paging_init s;
     s \<leftarrow> pit_init s;
     let s = clear_screen s;
     let s = set_color 3 0 s;
     let s = multi_term_init s;
     let s = snd (puts_color 0 (bytes_of (nl ''testing'')) 3 4 s);
     Some (sti s)
   }"

text \<open>
  \<open>None\<close> for the outcome: the start was given up, or the first program could not be started and the processor
  is halted.
\<close>

definition entry :: "symbols \<Rightarrow> seg_desc_t \<Rightarrow> idt_desc_t \<Rightarrow> idt_desc_t \<Rightarrow> u32 \<Rightarrow> u32 \<Rightarrow> u32 \<Rightarrow> u32 \<Rightarrow> tables \<Rightarrow> kernel
    \<Rightarrow> (outcome option \<times> tables \<times> kernel) option" where
  "entry sy junk gate gate' e_esp e_ebp magic addr t s = do {
     (go, s) \<leftarrow> boot_info magic addr s;
     if \<not> go then Some (None, t, s)
     else do {
       let (t, s) = boot_tables sy junk t s;
       let s = i8259_init s;
       let t = t\<lparr>idt := idt_init (wrapper_addr sy) gate gate' (idt t)\<rparr>;
       s \<leftarrow> boot_devices s;
       (r, s) \<leftarrow> sys_execute e_esp e_ebp (lit ''shell'') s;
       Some (case r of Returns _ \<Rightarrow> None | _ \<Rightarrow> Some r, t, s)
     }
   }"

end
