(* ===== verification/Gdt.thy ===== *)
theory Gdt
  imports Boot
begin

text \<open>
  The descriptor tables of \<^verbatim>\<open>student-distrib/x86_desc.S\<close> and the first instructions of the kernel, \<^verbatim>\<open>boot.S\<close>. The main
  result: with the descriptors that \<^verbatim>\<open>entry\<close> fills in, each selector of \<^verbatim>\<open>x86_desc.h\<close> names the segment it is meant to
  name, flat and at the right privilege.
\<close>

subsection \<open>x86_desc.S\<close>

type_synonym u64 = "64 word"

abbreviation USER_CS :: u16 where "USER_CS \<equiv> 0x0023"
abbreviation USER_DS :: u16 where "USER_DS \<equiv> 0x002B"

text \<open>The global descriptor table as it is assembled: eight descriptors of 8 bytes.\<close>

definition gdt :: "u64 list" where
  "gdt = [0, 0, 0x00CF9A000000FFFF, 0x00CF92000000FFFF, 0x00CFFA000000FFFF, 0x00CFF2000000FFFF, 0, 0]"

text \<open>The sizes of the tables, as the assembler computes them from the labels: one less than the number of bytes.\<close>

definition gdt_limit :: u16 where "gdt_limit = 8 * of_nat (length gdt) - 1"

definition idt_limit :: u16 where "idt_limit = 8 * of_nat NUM_VEC - 1"

definition desc_symbols :: "u32 \<Rightarrow> u32 \<Rightarrow> (wrapper \<Rightarrow> u32) \<Rightarrow> symbols" where
  "desc_symbols ldt tss wrappers = \<lparr>ldt_addr = ldt, ldt_size = 4 * 8 - 1, tss_addr = tss, tss_size = 104 - 1, wrapper_addr = wrappers\<rparr>"

text \<open>The fields of a descriptor, by the layout of \<^verbatim>\<open>seg_desc_t\<close>.\<close>

definition seg_desc_of :: "u64 \<Rightarrow> seg_desc_t" where
  "seg_desc_of q = \<lparr>seg_lim_15_00 = ucast q, base_15_00 = ucast (drop_bit 16 q), base_23_16 = ucast (drop_bit 32 q),
     seg_type = ucast (drop_bit 40 q), seg_sys = bit q 44, seg_dpl = ucast (drop_bit 45 q), seg_present = bit q 47,
     seg_lim_19_16 = ucast (drop_bit 48 q), avail = bit q 52, seg_reserved = bit q 53, opsize = bit q 54, granularity = bit q 55,
     base_31_24 = ucast (drop_bit 56 q)\<rparr>"

text \<open>The table after \<^verbatim>\<open>entry\<close> has stored the descriptors of the TSS and the LDT in it.\<close>

definition gdt_entry :: "tables \<Rightarrow> nat \<Rightarrow> seg_desc_t" where
  "gdt_entry t i = (if i = 6 then tss_desc_ptr t else if i = 7 then ldt_desc_ptr t else seg_desc_of (gdt ! i))"

subsection \<open>boot.S\<close>

definition multiboot_header :: "u32 list" where
  "multiboot_header = [0x1BADB002, 0x00000003, - (0x1BADB002 + 0x00000003)]"

record cpu =
  cs :: u16
  ss :: u16
  ds :: u16
  es :: u16
  fs :: u16
  gs :: u16
  gdtr :: "u16 \<times> u32"
  stack_ptr :: u32

definition push32 :: "u32 \<Rightarrow> cpu \<times> kernel \<Rightarrow> cpu \<times> kernel" where
  "push32 v = (\<lambda>(c, s). let c = c\<lparr>stack_ptr := stack_ptr c - 4\<rparr> in (c, upd_mem (\<lambda>m. st32 m (Phys, stack_ptr c) v) s))"

text \<open>From \<^verbatim>\<open>start\<close> to the call of \<^verbatim>\<open>entry\<close>; \<open>addr\<close> is the address of the table, \<open>eax\<close> and \<open>ebx\<close> come from the boot loader.\<close>

definition boot_start :: "u32 \<Rightarrow> u32 \<Rightarrow> u32 \<Rightarrow> cpu \<Rightarrow> kernel \<Rightarrow> cpu \<times> kernel" where
  "boot_start addr eax ebx c s =
     (let s = cli s;
          c = c\<lparr>gdtr := (gdt_limit, addr)\<rparr>;
          c = c\<lparr>cs := KERNEL_CS\<rparr>;
          c = c\<lparr>stack_ptr := 0x800000\<rparr>;
          c = c\<lparr>ss := KERNEL_DS, ds := KERNEL_DS, es := KERNEL_DS, fs := KERNEL_DS, gs := KERNEL_DS\<rparr>
      in push32 eax (push32 ebx (c, s)))"

text \<open>The call: \<^verbatim>\<open>entry\<close> finds its arguments above the return address \<open>ret_addr\<close>.\<close>

definition boot_call :: "u32 \<Rightarrow> symbols \<Rightarrow> seg_desc_t \<Rightarrow> idt_desc_t \<Rightarrow> idt_desc_t \<Rightarrow> u32 \<Rightarrow> u32 \<Rightarrow> tables \<Rightarrow> cpu \<times> kernel
    \<Rightarrow> (outcome option \<times> tables \<times> kernel) option" where
  "boot_call ret_addr sy junk gate gate' e_esp e_ebp t st =
     (let (c, s) = push32 ret_addr st
      in entry sy junk gate gate' e_esp e_ebp (ld32 (mem s) (Phys, stack_ptr c + 4)) (ld32 (mem s) (Phys, stack_ptr c + 8)) t s)"

subsection \<open>Segments\<close>

text \<open>What the processor makes of a descriptor: its base, the last offset inside, and the parts of a selector.\<close>

definition seg_base :: "seg_desc_t \<Rightarrow> u32" where
  "seg_base d = word_cat (word_cat (base_31_24 d) (base_23_16 d) :: u16) (base_15_00 d)"

definition seg_limit :: "seg_desc_t \<Rightarrow> u32" where
  "seg_limit d = (let lim = word_cat (seg_lim_19_16 d) (seg_lim_15_00 d) in if granularity d then push_bit 12 lim OR 0xFFF else lim)"

definition sel_index :: "u16 \<Rightarrow> nat" where "sel_index sel = unat (drop_bit 3 sel)"

definition sel_rpl :: "u16 \<Rightarrow> nat" where "sel_rpl sel = unat (sel AND 3)"

lemma bit_masks: "bit (0xFFFF :: int) n \<longleftrightarrow> n < 16" "bit (0xFF :: int) n \<longleftrightarrow> n < 8" "bit (0xF :: int) n \<longleftrightarrow> n < 4"
  using bit_mask_iff [where 'a = int, of 16 n] bit_mask_iff [where 'a = int, of 8 n] bit_mask_iff [where 'a = int, of 4 n]
  by (auto simp: mask_eq_exp_minus_1)

lemma seg_base_params: "seg_base (SET_TSS_PARAMS d a lim) = a"
  unfolding seg_base_def SET_TSS_PARAMS_def by (rule bit_word_eqI) (auto simp: bit_simps bit_masks not_less)

lemma seg_limit_params: "\<not> granularity d \<Longrightarrow> lim < 2 ^ 20 \<Longrightarrow> seg_limit (SET_TSS_PARAMS d a lim) = lim"
proof -
  assume g: "\<not> granularity d" and "lim < 2 ^ 20"
  then have "unat lim < 2 ^ 20" by (simp add: word_less_nat_alt)
  then have "unat (take_bit 20 lim) = unat lim" by (simp add: unsigned_take_bit_eq take_bit_nat_eq_self)
  then have t: "take_bit 20 lim = lim" by (simp add: unsigned_word_eqI)
  have "\<not> bit lim n" if "20 \<le> n" for n using that by (subst t [symmetric]) (simp add: bit_take_bit_iff)
  then have lt: "bit lim n \<Longrightarrow> n - 16 < 4" for n using not_less [of n 20] by fastforce
  show ?thesis using g unfolding seg_limit_def SET_TSS_PARAMS_def Let_def
    by (simp, intro bit_word_eqI) (auto simp: bit_simps bit_masks not_less lt)
qed

definition flat_segment :: "seg_desc_t \<Rightarrow> bool \<Rightarrow> nat \<Rightarrow> bool" where
  "flat_segment d code ring \<longleftrightarrow> seg_present d \<and> seg_sys d \<and> seg_base d = 0 \<and> seg_limit d = 0xFFFFFFFF
     \<and> seg_type d = (if code then 10 else 2) \<and> unat (seg_dpl d) = ring"

definition system_segment :: "seg_desc_t \<Rightarrow> u32 \<Rightarrow> u32 \<Rightarrow> 4 word \<Rightarrow> bool" where
  "system_segment d start lim ty \<longleftrightarrow> seg_present d \<and> \<not> seg_sys d \<and> seg_base d = start \<and> seg_limit d = lim \<and> seg_type d = ty \<and> seg_dpl d = 0"

lemma gdt_flat:
  "flat_segment (seg_desc_of (gdt ! 2)) True 0" "flat_segment (seg_desc_of (gdt ! 3)) False 0"
  "flat_segment (seg_desc_of (gdt ! 4)) True 3" "flat_segment (seg_desc_of (gdt ! 5)) False 3"
  by (simp_all add: flat_segment_def seg_desc_of_def gdt_def seg_base_def seg_limit_def drop_bit_eq_div word_cat_eq Let_def)

lemma tss_entry_system: "system_segment (tss_entry (desc_symbols ldt tss wr) junk) tss 103 9"
  by (simp add: system_segment_def tss_entry_def desc_symbols_def seg_base_params seg_limit_params) (simp add: SET_TSS_PARAMS_def)

lemma ldt_entry_system: "system_segment (ldt_entry (desc_symbols ldt tss wr) junk) ldt 31 2"
  by (simp add: system_segment_def ldt_entry_def SET_LDT_PARAMS_def desc_symbols_def seg_base_params seg_limit_params) (simp add: SET_TSS_PARAMS_def)

lemma multiboot_checksum: "sum_list multiboot_header = 0"
  by (simp add: multiboot_header_def)

text \<open>\<^verbatim>\<open>entry\<close> gets what the boot loader left in \<^verbatim>\<open>eax\<close> and \<^verbatim>\<open>ebx\<close> as its arguments, with interrupts off.\<close>

lemma boot_call_arguments:
  "\<exists>s'. boot_call ret_addr sy junk gate gate' e_esp e_ebp t (boot_start addr eax ebx c s) = entry sy junk gate gate' e_esp e_ebp eax ebx t s' \<and> \<not> iflag s'"
proof -
  define s' where "s' = snd (push32 ret_addr (boot_start addr eax ebx c s))"
  have m: "mem s' = st32 (st32 (st32 (mem s) (Phys, 0x7FFFFC) ebx) (Phys, 0x7FFFF8) eax) (Phys, 0x7FFFF4) ret_addr"
    by (simp add: s'_def boot_start_def push32_def Let_def)
  have "ld32 (mem s') (Phys, 0x7FFFF8) = eax" "ld32 (mem s') (Phys, 0x7FFFFC) = ebx" unfolding m by (simp_all add: ld32_st32 al4_def)
  then show ?thesis by (intro exI [of _ s']) (simp add: boot_call_def s'_def boot_start_def push32_def Let_def)
qed

subsection \<open>Properties\<close>

text \<open>
  C20: After \<^verbatim>\<open>entry\<close> has filled in its descriptors, every selector of \<^verbatim>\<open>x86_desc.h\<close> names the right entry of the table: the
  kernel and user segments are present, start at 0 and reach to the end of the address space, the code segments
  are code and the data segments are writable data, the kernel's at privilege 0 and the user's at privilege 3 like
  their selectors; the task state segment and the local descriptor table have the base and size of their tables
  and can be loaded by the kernel only.\<close>

theorem gdt_selectors:
  "let g = (\<lambda>sel. gdt_entry (fst (boot_tables (desc_symbols ldt tss wr) junk t s)) (sel_index sel))
   in flat_segment (g KERNEL_CS) True (sel_rpl KERNEL_CS) \<and> sel_rpl KERNEL_CS = 0
     \<and> flat_segment (g KERNEL_DS) False (sel_rpl KERNEL_DS) \<and> sel_rpl KERNEL_DS = 0
     \<and> flat_segment (g USER_CS) True (sel_rpl USER_CS) \<and> sel_rpl USER_CS = 3
     \<and> flat_segment (g USER_DS) False (sel_rpl USER_DS) \<and> sel_rpl USER_DS = 3
     \<and> system_segment (g KERNEL_TSS) tss 103 9 \<and> system_segment (g KERNEL_LDT) ldt 31 2"
proof -
  have i: "sel_index KERNEL_CS = 2" "sel_index KERNEL_DS = 3" "sel_index USER_CS = 4" "sel_index USER_DS = 5" "sel_index KERNEL_TSS = 6" "sel_index KERNEL_LDT = 7"
    by (simp_all add: sel_index_def drop_bit_eq_div)
  have r: "sel_rpl KERNEL_CS = 0" "sel_rpl KERNEL_DS = 0" "sel_rpl USER_CS = 3" "sel_rpl USER_DS = 3" by (simp_all add: sel_rpl_def)
  show ?thesis unfolding Let_def i r
    by (simp add: gdt_entry_def gdt_flat boot_tables_def Let_def tss_entry_system ldt_entry_system)
qed

end
