(* ===== verification/Userlib.thy ===== *)
theory Userlib
  imports Syscalls
begin

text \<open>
  What the user programs are built on: the support library \<^verbatim>\<open>syscalls/ece391support.c\<close> and the system calls as a
  program sees them, \<^verbatim>\<open>ece391syscall.h\<close> and \<^verbatim>\<open>ece391syscall.S\<close>.

  A local array of a program is the list of its bytes; an access outside of it is undefined and gives
  \<open>None\<close>. The system is an argument of every program, a record of its calls over a state of the world;
  the theory \<open>UserKernel\<close> gives that record for the kernel of this development. The interfaces at the end are the
  contracts the programs rely on: a console to write to, and an open object to read from.
\<close>

subsection \<open>Arrays\<close>

type_synonym bytes = "u8 list"

definition at :: "bytes \<Rightarrow> int \<Rightarrow> u8 option" where
  "at buf i = (if 0 \<le> i \<and> i < int (length buf) then Some (buf ! nat i) else None)"

definition put :: "bytes \<Rightarrow> int \<Rightarrow> u8 \<Rightarrow> bytes option" where
  "put buf i v = (if 0 \<le> i \<and> i < int (length buf) then Some (buf[nat i := v]) else None)"

text \<open>A string literal: its characters and the terminator.\<close>

definition text_of :: "string \<Rightarrow> bytes" where
  "text_of str = bytes_of str @ [0]"

definition line_of_text :: "string \<Rightarrow> bytes" where
  "line_of_text str = bytes_of str @ [10, 0]"

subsection \<open>The support library\<close>

fun ece391_strlen :: "bytes \<Rightarrow> nat option" where
  "ece391_strlen [] = None"
| "ece391_strlen (c # s) = (if c \<noteq> 0 then map_option Suc (ece391_strlen s) else Some 0)"

text \<open>\<^verbatim>\<open>ece391_strcpy\<close> between two places of one array, as its only caller uses it.\<close>

function ece391_strcpy :: "bytes \<Rightarrow> nat \<Rightarrow> nat \<Rightarrow> bytes option" where
  "ece391_strcpy buf dst src =
     (if src < length buf \<and> dst < length buf
      then if buf ! src \<noteq> 0 then ece391_strcpy (buf[dst := buf ! src]) (Suc dst) (Suc src)
           else Some (buf[dst := buf ! src])
      else None)"
  by pat_completeness auto
termination
  by (relation "measure (\<lambda>(buf, dst, src). length buf - src)") auto

fun ece391_strcmp :: "bytes \<Rightarrow> bytes \<Rightarrow> int option" where
  "ece391_strcmp (x # s1) (y # s2) =
     (if x = y then if x = 0 then Some 0 else ece391_strcmp s1 s2 else Some (uint x - uint y))"
| "ece391_strcmp _ _ = None"

fun strncmp_loop :: "bytes \<Rightarrow> bytes \<Rightarrow> nat \<Rightarrow> int option" where
  "strncmp_loop (x # s1) (y # s2) n =
     (if x = y then if x = 0 \<or> n - 1 = 0 then Some 0 else strncmp_loop s1 s2 (n - 1) else Some (uint x - uint y))"
| "strncmp_loop _ _ _ = None"

definition ece391_strncmp :: "bytes \<Rightarrow> bytes \<Rightarrow> nat \<Rightarrow> int option" where
  "ece391_strncmp s1 s2 n = (if n = 0 then Some 0 else strncmp_loop s1 s2 n)"

function reverse_loop :: "bytes \<Rightarrow> int \<Rightarrow> int \<Rightarrow> bytes option" where
  "reverse_loop s b e =
     (if b < e
      then do {
        tmp \<leftarrow> at s e;
        c \<leftarrow> at s b;
        s \<leftarrow> put s e c;
        s \<leftarrow> put s b tmp;
        reverse_loop s (b + 1) (e - 1)
      }
      else Some s)"
  by pat_completeness auto
termination
  by (relation "measure (\<lambda>(s, b, e). nat (e - b))") auto

definition ece391_strrev :: "bytes \<Rightarrow> bytes option" where
  "ece391_strrev s = do {
     len \<leftarrow> ece391_strlen s;
     let e = int len - 1;
     if e \<le> 0 then Some s else reverse_loop s 0 e
   }"

text \<open>A radix below 2 faults or does not end, and one above 36 reads past the table of digits.\<close>

partial_function (option) digit_loop :: "nat \<Rightarrow> bytes \<Rightarrow> nat \<Rightarrow> nat \<Rightarrow> (bytes \<times> nat) option" where
  "digit_loop newval buf newbuf radix =
     (if newval > 0
      then if radix = 0 \<or> newval mod radix \<ge> 36 then None
           else do {
             buf \<leftarrow> put buf (int newbuf) (of_char (lookup_digits ! (newval mod radix)));
             digit_loop (newval div radix) buf (Suc newbuf) radix
           }
      else Some (buf, newbuf))"

definition ece391_itoa :: "u32 \<Rightarrow> bytes \<Rightarrow> nat \<Rightarrow> bytes option" where
  "ece391_itoa value buf radix =
     (if value = 0
      then do {
        buf \<leftarrow> put buf 0 (of_char CHR ''0'');
        put buf 1 0
      }
      else do {
        (buf, newbuf) \<leftarrow> digit_loop (unat value) buf 0 radix;
        buf \<leftarrow> put buf (int newbuf) 0;
        ece391_strrev buf
      })"

subsection \<open>The system as a program sees it\<close>

text \<open>
  The calls of \<^verbatim>\<open>ece391syscall.h\<close>. A call that gets a buffer gets its bytes, up to the end of the array it is in;
  one that fills it gives the new bytes. \<open>os_trap\<close> is the bare instruction with a call number. A call that does
  not return is \<open>None\<close>.
\<close>

record 'w os =
  os_execute :: "bytes \<Rightarrow> 'w \<Rightarrow> (int \<times> 'w) option"
  os_read :: "int \<Rightarrow> bytes \<Rightarrow> int \<Rightarrow> 'w \<Rightarrow> (int \<times> bytes \<times> 'w) option"
  os_write :: "int \<Rightarrow> bytes \<Rightarrow> int \<Rightarrow> 'w \<Rightarrow> (int \<times> 'w) option"
  os_open :: "bytes \<Rightarrow> 'w \<Rightarrow> (int \<times> 'w) option"
  os_close :: "int \<Rightarrow> 'w \<Rightarrow> (int \<times> 'w) option"
  os_getargs :: "bytes \<Rightarrow> int \<Rightarrow> 'w \<Rightarrow> (int \<times> bytes \<times> 'w) option"
  os_vidmap :: "u32 \<Rightarrow> 'w \<Rightarrow> (int \<times> 'w) option"
  os_trap :: "int \<Rightarrow> 'w \<Rightarrow> (int \<times> 'w) option"

definition ece391_fdputs :: "'w os \<Rightarrow> int \<Rightarrow> bytes \<Rightarrow> 'w \<Rightarrow> 'w option" where
  "ece391_fdputs os fd s w = do {
     n \<leftarrow> ece391_strlen s;
     (_, w) \<leftarrow> os_write os fd s (int n) w;
     Some w
   }"

declare ece391_strcpy.simps [simp del] reverse_loop.simps [simp del]

subsection \<open>Interfaces\<close>

text \<open>
  A system with a console: a write to descriptor 1 shows the bytes. \<open>room\<close> is the size of the buffers the calls
  may get, \<open>shown\<close> what is displayed, \<open>display\<close> the effect of bytes on it.
\<close>

locale console_os =
  fixes os :: "'w os"
    and inv :: "'w \<Rightarrow> bool"
    and shown :: "'w \<Rightarrow> 'd"
    and display :: "bytes \<Rightarrow> 'd \<Rightarrow> 'd"
    and room :: nat
  assumes write_console: "inv w \<Longrightarrow> n \<le> length buf \<Longrightarrow> length buf \<le> room \<Longrightarrow>
      \<exists>w'. os_write os 1 buf (int n) w = Some (int n, w') \<and> inv w' \<and> shown w' = display (take n buf) (shown w)"
    and display_Nil: "display [] d = d"
    and display_append: "display (xs @ ys) d = display ys (display xs d)"
begin

lemma fdputs_shows:
  assumes "inv w" and "ece391_strlen s = Some n" and "length s \<le> room"
  shows "\<exists>w'. ece391_fdputs os 1 s w = Some w' \<and> inv w' \<and> shown w' = display (take n s) (shown w)"
proof -
  have "n \<le> length s" using assms(2) by (induction s arbitrary: n) (auto split: if_splits)
  then show ?thesis using write_console [OF assms(1) _ assms(3), of n] assms(2) by (auto simp: ece391_fdputs_def)
qed

end

text \<open>
  A descriptor that delivers a list of items, one for each read of \<open>size\<close> bytes, with writes to the
  console in between.
\<close>

locale reader_os = console_os os inv shown display room
  for os :: "'w os" and inv :: "'w \<Rightarrow> bool" and shown :: "'w \<Rightarrow> 'd" and display :: "bytes \<Rightarrow> 'd \<Rightarrow> 'd" and room :: nat +
  fixes fd :: int
    and items :: "'w \<Rightarrow> bytes list"
    and size :: nat
  assumes read_end: "inv w \<Longrightarrow> items w = [] \<Longrightarrow> size \<le> length buf \<Longrightarrow> length buf \<le> room \<Longrightarrow>
      \<exists>buf' w'. os_read os fd buf (int size) w = Some (0, buf', w') \<and> inv w' \<and> shown w' = shown w"
    and read_next: "inv w \<Longrightarrow> items w = x # xs \<Longrightarrow> size \<le> length buf \<Longrightarrow> length buf \<le> room \<Longrightarrow>
      \<exists>buf' w'. os_read os fd buf (int size) w = Some (int (length x), buf', w') \<and> inv w' \<and> shown w' = shown w
        \<and> items w' = xs \<and> length buf' = length buf \<and> take (length x) buf' = x"
    and item_size: "inv w \<Longrightarrow> x \<in> set (items w) \<Longrightarrow> x \<noteq> [] \<and> length x \<le> size"
    and write_items: "inv w \<Longrightarrow> n \<le> length buf \<Longrightarrow> length buf \<le> room \<Longrightarrow>
      os_write os 1 buf (int n) w = Some (r, w') \<Longrightarrow> items w' = items w"
begin

lemma write_next:
  assumes "inv w" and "n \<le> length buf" and "length buf \<le> room"
  shows "\<exists>w'. os_write os 1 buf (int n) w = Some (int n, w') \<and> inv w' \<and> shown w' = display (take n buf) (shown w)
    \<and> items w' = items w"
  using write_console [OF assms] write_items [OF assms] by blast

end

end
