(* ===== verification/Programs.thy ===== *)
theory Programs
  imports Userlib
begin

text \<open>
  The user programs of the directory \<^verbatim>\<open>syscalls\<close>, each a function of the system it runs on. The result is the value
  of \<^verbatim>\<open>main\<close>, which the start-up code passes to \<^verbatim>\<open>halt\<close>, and the state of the world. A loop that may run for
  ever, like the one of the shell, is a partial function.
\<close>

subsection \<open>hello, testprint\<close>

definition hello_main :: "'w os \<Rightarrow> bytes \<Rightarrow> 'w \<Rightarrow> (int \<times> 'w) option" where
  "hello_main os buf w = do {
     w \<leftarrow> ece391_fdputs os 1 (text_of (''Hi, what'' @ [CHR 0x27] @ ''s your name? '')) w;
     (cnt, buf, w) \<leftarrow> os_read os 0 buf 1023 w;
     if cnt = -1
     then do {
       w \<leftarrow> ece391_fdputs os 1 (line_of_text (''Can'' @ [CHR 0x27] @ ''t read name from keyboard.'')) w;
       Some (3, w)
     }
     else do {
       buf \<leftarrow> put buf cnt 0;
       w \<leftarrow> ece391_fdputs os 1 (text_of ''Hello, '') w;
       w \<leftarrow> ece391_fdputs os 1 buf w;
       Some (0, w)
     }
   }"

definition testprint_main :: "'w os \<Rightarrow> 'w \<Rightarrow> (int \<times> 'w) option" where
  "testprint_main os w = do {
     w \<leftarrow> ece391_fdputs os 1 (line_of_text ''Hello, if this ran, the program was correct. Yay!'') w;
     Some (0, w)
   }"

subsection \<open>cat, ls\<close>

partial_function (option) cat_loop :: "'w os \<Rightarrow> int \<Rightarrow> bytes \<Rightarrow> 'w \<Rightarrow> (int \<times> 'w) option" where
  "cat_loop os fd buf w = do {
     (cnt, buf, w) \<leftarrow> os_read os fd buf 1024 w;
     if cnt = 0 then Some (0, w)
     else if cnt = -1
     then do {
       w \<leftarrow> ece391_fdputs os 1 (line_of_text ''file read failed'') w;
       Some (3, w)
     }
     else do {
       (r, w) \<leftarrow> os_write os 1 buf cnt w;
       if r = -1 then Some (3, w) else cat_loop os fd buf w
     }
   }"

definition cat_main :: "'w os \<Rightarrow> bytes \<Rightarrow> 'w \<Rightarrow> (int \<times> 'w) option" where
  "cat_main os buf w = do {
     (r, buf, w) \<leftarrow> os_getargs os buf 1024 w;
     if r \<noteq> 0
     then do {
       w \<leftarrow> ece391_fdputs os 1 (line_of_text ''could not read arguments'') w;
       Some (3, w)
     }
     else do {
       (fd, w) \<leftarrow> os_open os buf w;
       if fd = -1
       then do {
         w \<leftarrow> ece391_fdputs os 1 (line_of_text ''file not found'') w;
         Some (2, w)
       }
       else cat_loop os fd buf w
     }
   }"

partial_function (option) ls_loop :: "'w os \<Rightarrow> int \<Rightarrow> bytes \<Rightarrow> 'w \<Rightarrow> (int \<times> 'w) option" where
  "ls_loop os fd buf w = do {
     (cnt, buf, w) \<leftarrow> os_read os fd buf 32 w;
     if cnt = 0 then Some (0, w)
     else if cnt = -1
     then do {
       w \<leftarrow> ece391_fdputs os 1 (line_of_text ''directory entry read failed'') w;
       Some (3, w)
     }
     else do {
       buf \<leftarrow> put buf cnt 10;
       (r, w) \<leftarrow> os_write os 1 buf (cnt + 1) w;
       if r = -1 then Some (3, w) else ls_loop os fd buf w
     }
   }"

definition ls_main :: "'w os \<Rightarrow> bytes \<Rightarrow> 'w \<Rightarrow> (int \<times> 'w) option" where
  "ls_main os buf w = do {
     (fd, w) \<leftarrow> os_open os (text_of ''.'') w;
     if fd = -1
     then do {
       w \<leftarrow> ece391_fdputs os 1 (line_of_text ''directory open failed'') w;
       Some (2, w)
     }
     else ls_loop os fd buf w
   }"

subsection \<open>The shell\<close>

text \<open>The report on the value of \<^verbatim>\<open>execute\<close>.\<close>

definition shell_report :: "'w os \<Rightarrow> int \<Rightarrow> 'w \<Rightarrow> 'w option" where
  "shell_report os rval w =
     (if rval = -1 then ece391_fdputs os 1 (line_of_text ''no such command'') w
      else if rval = 256 then ece391_fdputs os 1 (line_of_text ''program terminated by exception'') w
      else if rval \<noteq> 0 then ece391_fdputs os 1 (line_of_text ''program terminated abnormally'') w
      else Some w)"

text \<open>The line without its newline, terminated.\<close>

definition shell_line :: "int \<Rightarrow> bytes \<Rightarrow> bytes option" where
  "shell_line cnt buf = do {
     cnt \<leftarrow> (if cnt > 0 then do {
               c \<leftarrow> at buf (cnt - 1);
               Some (if c = 10 then cnt - 1 else cnt)
             } else Some cnt);
     put buf cnt 0
   }"

partial_function (option) shell_loop :: "'w os \<Rightarrow> bytes \<Rightarrow> 'w \<Rightarrow> (int \<times> 'w) option" where
  "shell_loop os buf w = do {
     w \<leftarrow> ece391_fdputs os 1 (text_of ''391OS> '') w;
     (cnt, buf, w) \<leftarrow> os_read os 0 buf 1023 w;
     if cnt = -1
     then do {
       w \<leftarrow> ece391_fdputs os 1 (line_of_text ''read from keyboard failed'') w;
       Some (3, w)
     }
     else do {
       buf \<leftarrow> shell_line cnt buf;
       diff \<leftarrow> ece391_strcmp buf (text_of ''exit'');
       if diff = 0 then Some (0, w)
       else do {
         c \<leftarrow> at buf 0;
         if c = 0 then shell_loop os buf w
         else do {
           (rval, w) \<leftarrow> os_execute os buf w;
           w \<leftarrow> shell_report os rval w;
           shell_loop os buf w
         }
       }
     }
   }"

definition shell_main :: "'w os \<Rightarrow> bytes \<Rightarrow> 'w \<Rightarrow> (int \<times> 'w) option" where
  "shell_main os buf w = do {
     w \<leftarrow> ece391_fdputs os 1 (line_of_text ''Starting 391 Shell'') w;
     shell_loop os buf w
   }"

subsection \<open>counter\<close>

fun count_loop :: "nat \<Rightarrow> 'w os \<Rightarrow> u32 \<Rightarrow> bytes \<Rightarrow> 'w \<Rightarrow> 'w option" where
  "count_loop 0 os i buf w = Some w"
| "count_loop (Suc k) os i buf w = do {
     buf \<leftarrow> ece391_itoa (i + 1) buf 10;
     w \<leftarrow> ece391_fdputs os 1 buf w;
     w \<leftarrow> ece391_fdputs os 1 (line_of_text []) w;
     count_loop k os (i + 1) buf w
   }"

text \<open>The number of steps chosen, or \<open>None\<close> inside for a wrong choice.\<close>

definition counter_choice :: "bytes \<Rightarrow> nat option option" where
  "counter_choice buf = do {
     len \<leftarrow> ece391_strlen buf;
     c \<leftarrow> at buf 0;
     Some (if len > 1 \<or> len = 1 \<and> (c < 48 \<or> c > 50) then None
           else Some (if c = 48 then 100 else if c = 49 then 10000 else if c = 50 then 100000 else 0))
   }"

definition counter_main :: "'w os \<Rightarrow> bytes \<Rightarrow> 'w \<Rightarrow> (int \<times> 'w) option" where
  "counter_main os buf w = do {
     w \<leftarrow> ece391_fdputs os 1 (line_of_text ''Enter the Test Number: (0): 100, (1): 10000, (2): 100000'') w;
     (cnt, buf, w) \<leftarrow> os_read os 0 buf 1023 w;
     if cnt = -1
     then do {
       w \<leftarrow> ece391_fdputs os 1 (line_of_text (''Can'' @ [CHR 0x27] @ ''t read the number from keyboard.'')) w;
       Some (3, w)
     }
     else do {
       buf \<leftarrow> put buf cnt 0;
       choice \<leftarrow> counter_choice buf;
       case choice of
         None \<Rightarrow> do {
           w \<leftarrow> ece391_fdputs os 1 (line_of_text ''Wrong Choice!'') w;
           Some (0, w)
         }
       | Some m \<Rightarrow> do {
           w \<leftarrow> count_loop m os 0 buf w;
           Some (0, w)
         }
     }
   }"

subsection \<open>grep\<close>

text \<open>The end of the line that starts at \<open>line_end\<close>.\<close>

function find_eol :: "bytes \<Rightarrow> int \<Rightarrow> int \<Rightarrow> int option" where
  "find_eol data lst line_end =
     (if line_end < lst
      then do {
        c \<leftarrow> at data line_end;
        if c \<noteq> 10 then find_eol data lst (line_end + 1) else Some line_end
      }
      else Some line_end)"
  by pat_completeness auto
termination
  by (relation "measure (\<lambda>(data, lst, line_end). nat (lst - line_end))") auto

text \<open>Whether the string occurs in the line; \<^verbatim>\<open>s\<close> is an array of signed characters, \<^verbatim>\<open>data\<close> one of unsigned ones.\<close>

function search_line :: "bytes \<Rightarrow> nat \<Rightarrow> bytes \<Rightarrow> int \<Rightarrow> int \<Rightarrow> bool option" where
  "search_line s s_len data check line_end =
     (if check < line_end
      then do {
        c \<leftarrow> at s 0;
        d \<leftarrow> at data check;
        found \<leftarrow> (if sint c = uint d
                   then map_option (\<lambda>r. r = 0) (ece391_strncmp (drop (nat check) data) s s_len) else Some False);
        if found then Some True else search_line s s_len data (check + 1) line_end
      }
      else Some False)"
  by pat_completeness auto
termination
  by (relation "measure (\<lambda>(s, s_len, data, check, line_end). nat (line_end - check))") auto

definition grep_report :: "'w os \<Rightarrow> bytes \<Rightarrow> bytes \<Rightarrow> 'w \<Rightarrow> 'w option" where
  "grep_report os fname line w = do {
     w \<leftarrow> ece391_fdputs os 1 fname w;
     w \<leftarrow> ece391_fdputs os 1 (text_of '':'') w;
     w \<leftarrow> ece391_fdputs os 1 line w;
     ece391_fdputs os 1 (line_of_text []) w
   }"

text \<open>
  The lines in the buffer. An unfinished last line is moved to its start to be completed by the next read, unless it
  fills the buffer from the start or the file is at its end.
\<close>

partial_function (option) lines_loop ::
    "'w os \<Rightarrow> bytes \<Rightarrow> nat \<Rightarrow> bytes \<Rightarrow> int \<Rightarrow> bytes \<Rightarrow> int \<Rightarrow> int \<Rightarrow> 'w \<Rightarrow> (bytes \<times> int \<times> 'w) option" where
  "lines_loop os s s_len fname cnt data lst line_start w = do {
     line_end \<leftarrow> find_eol data lst line_start;
     c \<leftarrow> at data line_end;
     if c \<noteq> 10 \<and> cnt \<noteq> 0 \<and> line_start \<noteq> 0
     then do {
       data \<leftarrow> put data line_end 0;
       data \<leftarrow> ece391_strcpy data 0 (nat line_start);
       Some (data, lst - line_start, w)
     }
     else do {
       data \<leftarrow> put data line_end 0;
       found \<leftarrow> search_line s s_len data line_start line_end;
       w \<leftarrow> (if found then grep_report os fname (drop (nat line_start) data) w else Some w);
       let line_start = line_end + 1;
       if line_start \<ge> lst then Some (data, 0, w)
       else lines_loop os s s_len fname cnt data lst line_start w
     }
   }"

text \<open>The result is whether the whole file was read.\<close>

partial_function (option) file_loop ::
    "'w os \<Rightarrow> bytes \<Rightarrow> nat \<Rightarrow> bytes \<Rightarrow> int \<Rightarrow> bytes \<Rightarrow> int \<Rightarrow> 'w \<Rightarrow> (bool \<times> 'w) option" where
  "file_loop os s s_len fname fd data lst w = do {
     (cnt, rest, w) \<leftarrow> os_read os fd (drop (nat lst) data) (1024 - lst) w;
     let data = take (nat lst) data @ rest;
     if cnt = -1
     then do {
       w \<leftarrow> ece391_fdputs os 1 (line_of_text ''file read failed'') w;
       Some (False, w)
     }
     else do {
       (data, lst, w) \<leftarrow> lines_loop os s s_len fname cnt data (lst + cnt) 0 w;
       if cnt = 0 then Some (True, w) else file_loop os s s_len fname fd data lst w
     }
   }"

definition do_one_file :: "'w os \<Rightarrow> bytes \<Rightarrow> bytes \<Rightarrow> bytes \<Rightarrow> 'w \<Rightarrow> (int \<times> 'w) option" where
  "do_one_file os s fname data w = do {
     s_len \<leftarrow> ece391_strlen s;
     (fd, w) \<leftarrow> os_open os fname w;
     if fd = -1
     then do {
       w \<leftarrow> ece391_fdputs os 1 (line_of_text ''file open failed'') w;
       Some (-1, w)
     }
     else do {
       (ok, w) \<leftarrow> file_loop os s s_len fname fd data 0 w;
       if \<not> ok then Some (-1, w)
       else do {
         (r, w) \<leftarrow> os_close os fd w;
         if r = -1
         then do {
           w \<leftarrow> ece391_fdputs os 1 (line_of_text ''file close failed'') w;
           Some (-1, w)
         }
         else Some (0, w)
       }
     }
   }"

text \<open>\<open>data\<close> is what the array of \<^verbatim>\<open>do_one_file\<close> holds when it is entered, which C leaves open.\<close>

partial_function (option) grep_loop :: "'w os \<Rightarrow> bytes \<Rightarrow> bytes \<Rightarrow> int \<Rightarrow> bytes \<Rightarrow> 'w \<Rightarrow> (int \<times> 'w) option" where
  "grep_loop os search data fd buf w = do {
     (cnt, buf, w) \<leftarrow> os_read os fd buf 32 w;
     if cnt = 0 then Some (0, w)
     else if cnt = -1
     then do {
       w \<leftarrow> ece391_fdputs os 1 (line_of_text ''directory entry read failed'') w;
       Some (3, w)
     }
     else do {
       c \<leftarrow> at buf 0;
       if c = 46 then grep_loop os search data fd buf w
       else do {
         buf \<leftarrow> put buf cnt 0;
         (r, w) \<leftarrow> do_one_file os search buf data w;
         if r \<noteq> 0 then Some (3, w) else grep_loop os search data fd buf w
       }
     }
   }"

definition grep_main :: "'w os \<Rightarrow> bytes \<Rightarrow> bytes \<Rightarrow> bytes \<Rightarrow> 'w \<Rightarrow> (int \<times> 'w) option" where
  "grep_main os search data buf w = do {
     (r, search, w) \<leftarrow> os_getargs os search 1024 w;
     if r \<noteq> 0
     then do {
       w \<leftarrow> ece391_fdputs os 1 (line_of_text ''could not read argument'') w;
       Some (3, w)
     }
     else do {
       (fd, w) \<leftarrow> os_open os (text_of ''.'') w;
       if fd = -1
       then do {
         w \<leftarrow> ece391_fdputs os 1 (line_of_text ''directory open failed'') w;
         Some (2, w)
       }
       else grep_loop os search data fd buf w
     }
   }"

subsection \<open>pingpong\<close>

text \<open>The inner part of the line, columns 2 to 77, blank, with the character at column \<open>j\<close>.\<close>

definition pingpong_draw :: "u8 \<Rightarrow> nat \<Rightarrow> bytes \<Rightarrow> bytes" where
  "pingpong_draw curchar j buf = (fold (\<lambda>i buf. buf[i := 32]) [2..<78] buf)[j := curchar]"

definition pingpong_frame :: "'w os \<Rightarrow> int \<Rightarrow> u8 \<Rightarrow> nat \<Rightarrow> bytes \<times> bytes \<times> 'w \<Rightarrow> (bytes \<times> bytes \<times> 'w) option" where
  "pingpong_frame os rtc_fd curchar j = (\<lambda>(buf, garbage, w). do {
     let buf = pingpong_draw curchar j buf;
     w \<leftarrow> ece391_fdputs os 1 buf w;
     (_, garbage, w) \<leftarrow> os_read os rtc_fd garbage 4 w;
     Some (buf, garbage, w)
   })"

fun pingpong_frames :: "'w os \<Rightarrow> int \<Rightarrow> u8 \<Rightarrow> nat list \<Rightarrow> bytes \<times> bytes \<times> 'w \<Rightarrow> (bytes \<times> bytes \<times> 'w) option" where
  "pingpong_frames os rtc_fd curchar [] st = Some st"
| "pingpong_frames os rtc_fd curchar (j # js) st =
     Option.bind (pingpong_frame os rtc_fd curchar j st) (pingpong_frames os rtc_fd curchar js)"

definition pingpong_next :: "u8 \<Rightarrow> u8" where
  "pingpong_next curchar = (if curchar = of_char CHR ''Z'' then of_char CHR ''A'' else curchar + 1)"

text \<open>The endless loop, cut after a number of rounds; a round moves the character out and back.\<close>

fun pingpong_rounds :: "nat \<Rightarrow> 'w os \<Rightarrow> int \<Rightarrow> u8 \<Rightarrow> bytes \<times> bytes \<times> 'w \<Rightarrow> (bytes \<times> bytes \<times> 'w) option" where
  "pingpong_rounds 0 os rtc_fd curchar st = Some st"
| "pingpong_rounds (Suc k) os rtc_fd curchar st = do {
     st \<leftarrow> pingpong_frames os rtc_fd curchar [2..<78] st;
     st \<leftarrow> pingpong_frames os rtc_fd curchar (rev [2..<78]) st;
     pingpong_rounds k os rtc_fd (pingpong_next curchar) st
   }"

definition pingpong_walls :: bytes where
  "pingpong_walls = (replicate 81 32)[80 := 0, 79 := 10, 78 := of_char CHR ''|'', 1 := of_char CHR ''|'']"

definition pingpong_main :: "nat \<Rightarrow> 'w os \<Rightarrow> bytes \<Rightarrow> 'w \<Rightarrow> 'w option" where
  "pingpong_main rounds os garbage w = do {
     (rtc_fd, w) \<leftarrow> os_open os (text_of ''rtc'') w;
     (_, w) \<leftarrow> os_write os rtc_fd [32, 0, 0, 0] 4 w;
     (_, _, w) \<leftarrow> pingpong_rounds rounds os rtc_fd (of_char CHR ''A'') (pingpong_walls, garbage, w);
     Some w
   }"

declare find_eol.simps [simp del] search_line.simps [simp del]

subsection \<open>cat and ls on any system with the interface\<close>

context reader_os
begin

lemma cat_loop_shows:
  assumes "size = 1024" and "1024 \<le> length buf" and "length buf \<le> room" and "inv w"
  shows "\<exists>w'. cat_loop os fd buf w = Some (0, w') \<and> inv w' \<and> shown w' = display (concat (items w)) (shown w)"
  using assms
proof (induction "items w" arbitrary: buf w)
  case Nil
  then show ?case using read_end [of w buf] by (subst cat_loop.simps) (auto simp: display_Nil)
next
  case (Cons x xs)
  obtain buf1 w1 where r: "os_read os fd buf 1024 w = Some (int (length x), buf1, w1)" "inv w1" "shown w1 = shown w"
    "items w1 = xs" "length buf1 = length buf" "take (length x) buf1 = x"
    using read_next [of w x xs buf] Cons.prems Cons.hyps(2) by force
  have x: "x \<noteq> []" "length x \<le> 1024" using item_size [of w x] Cons.prems(1,4) Cons.hyps(2) [symmetric] by auto
  obtain w2 where w2: "os_write os 1 buf1 (int (length x)) w1 = Some (int (length x), w2)" "inv w2"
    "shown w2 = display x (shown w)" "items w2 = xs"
    using write_next [of w1 "length x" buf1] r x Cons.prems by force
  show ?case
    using Cons.hyps(1) [of w2 buf1] Cons.prems r(1,5) w2 x Cons.hyps(2) [symmetric]
    by (subst cat_loop.simps) (auto simp: display_append)
qed

lemma ls_loop_shows:
  assumes "size = 32" and "33 \<le> length buf" and "length buf \<le> room" and "inv w"
  shows "\<exists>w'. ls_loop os fd buf w = Some (0, w') \<and> inv w' \<and> shown w' = display (concat (map (\<lambda>x. x @ [10]) (items w))) (shown w)"
  using assms
proof (induction "items w" arbitrary: buf w)
  case Nil
  then show ?case using read_end [of w buf] by (subst ls_loop.simps) (auto simp: display_Nil)
next
  case (Cons x xs)
  obtain buf1 w1 where r: "os_read os fd buf 32 w = Some (int (length x), buf1, w1)" "inv w1" "shown w1 = shown w"
    "items w1 = xs" "length buf1 = length buf" "take (length x) buf1 = x"
    using read_next [of w x xs buf] Cons.prems Cons.hyps(2) by force
  have x: "x \<noteq> []" "length x \<le> 32" using item_size [of w x] Cons.prems(1,4) Cons.hyps(2) [symmetric] by auto
  define buf2 where "buf2 = buf1[length x := 10]"
  have b2: "put buf1 (int (length x)) 10 = Some buf2" "length buf2 = length buf" "take (Suc (length x)) buf2 = x @ [10]"
    using r(5,6) x(2) Cons.prems(2) by (simp_all add: put_def buf2_def take_Suc_conv_app_nth)
  obtain w2 where w2: "os_write os 1 buf2 (int (length x) + 1) w1 = Some (int (length x) + 1, w2)" "inv w2"
    "shown w2 = display (x @ [10]) (shown w)" "items w2 = xs"
    using write_next [of w1 "Suc (length x)" buf2] r b2 x Cons.prems by (force simp: add.commute)
  show ?case
    using Cons.hyps(1) [of w2 buf2] Cons.prems r(1) b2(1,2) w2 x Cons.hyps(2) [symmetric]
      display_append [of "[10]" "concat (map (\<lambda>x. x @ [10]) xs)"]
    by (subst ls_loop.simps) (auto simp: display_append)
qed

end

end
