(* ===== verification/Syserr.thy ===== *)
theory Syserr
  imports Userlib
begin

text \<open>
  The program \<^verbatim>\<open>syserr\<close>, \<^verbatim>\<open>syscalls/ece391syserr.c\<close>: the repository's own tests of the system calls on bad arguments.
  Each test returns 0 when the system behaves as expected and 2 otherwise.
\<close>

subsection \<open>Parts of a test\<close>

text \<open>A check that a call is refused: any value but -1 is reported and makes the test fail.\<close>

definition refused :: "'w os \<Rightarrow> string \<Rightarrow> int \<times> 'w \<Rightarrow> int \<Rightarrow> (int \<times> 'w) option" where
  "refused os message = (\<lambda>(r, w) fail.
     if r \<noteq> -1
     then do {
       w \<leftarrow> ece391_fdputs os 1 (line_of_text message) w;
       Some (2, w)
     }
     else Some (fail, w))"

definition verdict :: "'w os \<Rightarrow> string \<Rightarrow> int \<Rightarrow> 'w \<Rightarrow> (int \<times> 'w) option" where
  "verdict os name fail w = do {
     w \<leftarrow> ece391_fdputs os 1 (line_of_text (name @ (if fail \<noteq> 0 then '': FAIL'' else '': PASS''))) w;
     Some (fail, w)
   }"

abbreviation NEG_FD :: int where "NEG_FD \<equiv> -1073741823"
abbreviation BIG_FD :: int where "BIG_FD \<equiv> 1073741823"

subsection \<open>The tests\<close>

definition err_fd :: "string \<Rightarrow> int \<Rightarrow> 'w os \<Rightarrow> bytes \<Rightarrow> 'w \<Rightarrow> (int \<times> 'w) option" where
  "err_fd name fd os buf w = do {
     (r, buf, w) \<leftarrow> os_read os fd buf 31 w;
     (fail, w) \<leftarrow> refused os ''read fail'' (r, w) 0;
     (r, w) \<leftarrow> os_write os fd buf 31 w;
     (fail, w) \<leftarrow> refused os ''write fail'' (r, w) fail;
     (r, w) \<leftarrow> os_close os fd w;
     (fail, w) \<leftarrow> refused os ''close fail'' (r, w) fail;
     verdict os name fail w
   }"

definition err_neg_fd :: "'w os \<Rightarrow> bytes \<Rightarrow> 'w \<Rightarrow> (int \<times> 'w) option" where
  "err_neg_fd os buf w = err_fd ''err_neg_fd'' NEG_FD os buf w"

definition err_big_fd :: "'w os \<Rightarrow> bytes \<Rightarrow> 'w \<Rightarrow> (int \<times> 'w) option" where
  "err_big_fd os buf w = err_fd ''err_big_fd'' BIG_FD os buf w"

fun open_dots :: "nat \<Rightarrow> 'w os \<Rightarrow> nat \<Rightarrow> 'w \<Rightarrow> (nat \<times> 'w) option" where
  "open_dots 0 os cnt w = Some (cnt, w)"
| "open_dots (Suc k) os cnt w = do {
     (r, w) \<leftarrow> os_open os (text_of ''.'') w;
     open_dots k os (if r = -1 then cnt + 1 else cnt) w
   }"

fun close_all :: "int list \<Rightarrow> 'w os \<Rightarrow> 'w \<Rightarrow> 'w option" where
  "close_all [] os w = Some w"
| "close_all (i # is) os w = do {
     (_, w) \<leftarrow> os_close os i w;
     close_all is os w
   }"

definition err_open_lots :: "'w os \<Rightarrow> 'w \<Rightarrow> (int \<times> 'w) option" where
  "err_open_lots os w = do {
     (cnt, w) \<leftarrow> open_dots 7 os 0 w;
     w \<leftarrow> close_all [2, 3, 4, 5, 6, 7] os w;
     verdict os ''err_open_lots'' (if cnt = 1 then 0 else 2) w
   }"

definition err_open :: "'w os \<Rightarrow> 'w \<Rightarrow> (int \<times> 'w) option" where
  "err_open os w = do {
     (r, w) \<leftarrow> os_open os (text_of ''helloo'') w;
     (fail, w) \<leftarrow> refused os ([CHR 0x27] @ ''helloo'' @ [CHR 0x27] @ '' fail'') (r, w) 0;
     (r, w) \<leftarrow> os_open os (text_of ''shel'') w;
     (fail, w) \<leftarrow> refused os ([CHR 0x27] @ ''shel'' @ [CHR 0x27] @ '' fail'') (r, w) fail;
     (r, w) \<leftarrow> os_open os (text_of []) w;
     (fail, w) \<leftarrow> refused os ''empty string fail'' (r, w) fail;
     verdict os ''err_open'' fail w
   }"

fun closes :: "int list \<Rightarrow> 'w os \<Rightarrow> int \<Rightarrow> 'w \<Rightarrow> (int \<times> 'w) option" where
  "closes [] os fail w = Some (fail, w)"
| "closes (i # is) os fail w = do {
     (r, w) \<leftarrow> os_close os i w;
     (fail, w) \<leftarrow> refused os ''close unopened or invalid fd fail'' (r, w) fail;
     closes is os fail w
   }"

fun reads :: "int list \<Rightarrow> 'w os \<Rightarrow> int \<Rightarrow> bytes \<Rightarrow> 'w \<Rightarrow> (int \<times> bytes \<times> 'w) option" where
  "reads [] os fail buf w = Some (fail, buf, w)"
| "reads (i # is) os fail buf w = do {
     (r, buf, w) \<leftarrow> os_read os i buf 31 w;
     (fail, w) \<leftarrow> refused os ''read from unopened fd fail'' (r, w) fail;
     reads is os fail buf w
   }"

fun writes :: "int list \<Rightarrow> 'w os \<Rightarrow> int \<Rightarrow> bytes \<Rightarrow> 'w \<Rightarrow> (int \<times> 'w) option" where
  "writes [] os fail buf w = Some (fail, w)"
| "writes (i # is) os fail buf w = do {
     (r, w) \<leftarrow> os_write os i buf 31 w;
     (fail, w) \<leftarrow> refused os ''write to unopened fd fail'' (r, w) fail;
     writes is os fail buf w
   }"

definition err_unopened :: "'w os \<Rightarrow> bytes \<Rightarrow> 'w \<Rightarrow> (int \<times> 'w) option" where
  "err_unopened os buf w = do {
     (fail, w) \<leftarrow> closes [0, 1, 2, 3, 4, 5, 6, 7] os 0 w;
     (fail, buf, w) \<leftarrow> reads [2, 3, 4, 5, 6, 7] os fail buf w;
     (fail, w) \<leftarrow> writes [2, 3, 4, 5, 6, 7] os fail buf w;
     verdict os ''err_unopened'' fail w
   }"

definition err_vidmap :: "'w os \<Rightarrow> 'w \<Rightarrow> (int \<times> 'w) option" where
  "err_vidmap os w = do {
     (r, w) \<leftarrow> os_vidmap os 0 w;
     (fail, w) \<leftarrow> refused os ''Null pointer fail'' (r, w) 0;
     (r, w) \<leftarrow> os_vidmap os 0x400000 w;
     (fail, w) \<leftarrow> refused os ''Kernel pointer fail fail'' (r, w) fail;
     verdict os ''err_vidmap'' fail w
   }"

definition err_stdin_out :: "'w os \<Rightarrow> bytes \<Rightarrow> 'w \<Rightarrow> (int \<times> 'w) option" where
  "err_stdin_out os buf w = do {
     (r, w) \<leftarrow> os_write os 0 buf 31 w;
     (fail, w) \<leftarrow> refused os ''write to stdin fail'' (r, w) 0;
     (r, buf, w) \<leftarrow> os_read os 1 buf 31 w;
     (fail, w) \<leftarrow> refused os ''read from stdout fail'' (r, w) fail;
     verdict os ''err_stdin_out'' fail w
   }"

definition err_syscall_num :: "'w os \<Rightarrow> 'w \<Rightarrow> (int \<times> 'w) option" where
  "err_syscall_num os w = do {
     (r, w) \<leftarrow> os_trap os 1073741823 w;
     (fail, w) \<leftarrow> refused os ''syscall 0 fail'' (r, w) 0;
     (r, w) \<leftarrow> os_trap os (-1073741823) w;
     (fail, w) \<leftarrow> refused os ''big num syscall fail'' (r, w) fail;
     (r, w) \<leftarrow> os_trap os 0 w;
     (fail, w) \<leftarrow> refused os ''neg num syscall fail'' (r, w) fail;
     verdict os ''err_syscall_num'' fail w
   }"

text \<open>All tests; \<open>t\<close> is what their local array \<^verbatim>\<open>buf\<close> holds when a test is entered.\<close>

definition run_all :: "'w os \<Rightarrow> bytes \<Rightarrow> 'w \<Rightarrow> (int \<times> 'w) option" where
  "run_all os t w = do {
     (f1, w) \<leftarrow> err_neg_fd os t w;
     (f2, w) \<leftarrow> err_big_fd os t w;
     (f3, w) \<leftarrow> err_open_lots os w;
     (f4, w) \<leftarrow> err_open os w;
     (f5, w) \<leftarrow> err_unopened os t w;
     (f6, w) \<leftarrow> err_vidmap os w;
     (f7, w) \<leftarrow> err_stdin_out os t w;
     (f8, w) \<leftarrow> err_syscall_num os w;
     let fail = f1 + f2 + f3 + f4 + f5 + f6 + f7 + f8;
     w \<leftarrow> ece391_fdputs os 1 ([10] @ line_of_text (''Overall Tests: '' @ (if fail \<noteq> 0 then ''FAIL'' else ''PASS''))) w;
     Some (fail, w)
   }"

definition syserr_select :: "'w os \<Rightarrow> bytes \<Rightarrow> int \<Rightarrow> 'w \<Rightarrow> (int \<times> 'w) option" where
  "syserr_select os t select w =
     (if select = 0 then run_all os t w
      else if select = 1 then err_neg_fd os t w
      else if select = 2 then err_big_fd os t w
      else if select = 3 then err_open_lots os w
      else if select = 4 then err_open os w
      else if select = 5 then err_unopened os t w
      else if select = 6 then err_vidmap os w
      else if select = 7 then err_stdin_out os t w
      else if select = 8 then err_syscall_num os w
      else do {
        w \<leftarrow> ece391_fdputs os 1 (text_of ''Invalid test number. Choose from tests 1-8 or 0'') w;
        Some (0, w)
      })"

definition syserr_main :: "'w os \<Rightarrow> bytes \<Rightarrow> bytes \<Rightarrow> 'w \<Rightarrow> (int \<times> 'w) option" where
  "syserr_main os t buf w = do {
     w \<leftarrow> ece391_fdputs os 1 (text_of ''Choose from tests 1-8. 0 to run all: '') w;
     (cnt, buf, w) \<leftarrow> os_read os 0 buf 127 w;
     if cnt = -1
     then do {
       w \<leftarrow> ece391_fdputs os 1 (line_of_text (''Can'' @ [CHR 0x27] @ ''t read test #'')) w;
       Some (2, w)
     }
     else do {
       c \<leftarrow> at buf 0;
       syserr_select os t (uint c - 48) w
     }
   }"

subsection \<open>The tests pass on a system that refuses bad calls\<close>

text \<open>
  What the tests rely on. \<open>used w\<close> is the set of descriptors above 1 that are open. Descriptor 0 can only be read
  and 1 only be written, an open one can be closed, and \<^verbatim>\<open>open\<close> on the directory takes a free one if there is any.
\<close>

definition keeps :: "('w \<Rightarrow> bool) \<Rightarrow> ('w \<Rightarrow> 'd) \<Rightarrow> ('w \<Rightarrow> nat set) \<Rightarrow> 'w \<Rightarrow> 'w \<Rightarrow> bool" where
  "keeps ok shown used w w' \<longleftrightarrow> ok w' \<and> shown w' = shown w \<and> used w' = used w"

text \<open>A test of this name passes: it returns 0 and reports so.\<close>

definition passes :: "('w \<Rightarrow> bool) \<Rightarrow> ('w \<Rightarrow> 'd) \<Rightarrow> (bytes \<Rightarrow> 'd \<Rightarrow> 'd) \<Rightarrow> ('w \<Rightarrow> nat set) \<Rightarrow> string \<Rightarrow> (int \<times> 'w) option \<Rightarrow> 'w \<Rightarrow> bool" where
  "passes ok shown display used name r w \<longleftrightarrow> (\<exists>w'. r = Some (0, w') \<and> ok w' \<and> used w' = used w
     \<and> shown w' = display (bytes_of (name @ '': PASS'') @ [10]) (shown w))"

text \<open>What \<^const>\<open>run_all\<close> shows when every test passes.\<close>

definition pass_line :: "string \<Rightarrow> bytes" where
  "pass_line name = bytes_of (name @ '': PASS'') @ [10]"

definition all_pass :: bytes where
  "all_pass = concat (map pass_line [''err_neg_fd'', ''err_big_fd'', ''err_open_lots'', ''err_open'', ''err_unopened'', ''err_vidmap'',
     ''err_stdin_out'', ''err_syscall_num'']) @ [10] @ pass_line ''Overall Tests''"

locale error_os = console_os os inv shown display room
  for os :: "'w os" and inv :: "'w \<Rightarrow> bool" and shown :: "'w \<Rightarrow> 'd" and display :: "bytes \<Rightarrow> 'd \<Rightarrow> 'd" and room :: nat +
  fixes used :: "'w \<Rightarrow> nat set"
  assumes room: "64 \<le> room"
    and used: "inv w \<Longrightarrow> used w \<subseteq> {2..<8}"
    and bad_read: "inv w \<Longrightarrow> - (2 ^ 31) \<le> fd \<Longrightarrow> fd < 2 ^ 31 \<Longrightarrow> fd \<notin> insert 0 (int ` used w) \<Longrightarrow> length buf = 32 \<Longrightarrow>
      \<exists>buf' w'. os_read os fd buf 31 w = Some (-1, buf', w') \<and> length buf' = 32 \<and> keeps inv shown used w w'"
    and bad_write: "inv w \<Longrightarrow> - (2 ^ 31) \<le> fd \<Longrightarrow> fd < 2 ^ 31 \<Longrightarrow> fd \<notin> insert 1 (int ` used w) \<Longrightarrow> length buf = 32 \<Longrightarrow>
      \<exists>w'. os_write os fd buf 31 w = Some (-1, w') \<and> keeps inv shown used w w'"
    and bad_close: "inv w \<Longrightarrow> - (2 ^ 31) \<le> fd \<Longrightarrow> fd < 2 ^ 31 \<Longrightarrow> fd \<notin> int ` used w \<Longrightarrow>
      \<exists>w'. os_close os fd w = Some (-1, w') \<and> keeps inv shown used w w'"
    and bad_name: "inv w \<Longrightarrow> name \<in> {''helloo'', ''shel'', ''''} \<Longrightarrow> \<exists>w'. os_open os (text_of name) w = Some (-1, w') \<and> keeps inv shown used w w'"
    and open_dot: "inv w \<Longrightarrow> used w \<noteq> {2..<8} \<Longrightarrow> \<exists>i w'. os_open os (text_of ''.'') w = Some (int i, w') \<and> i \<notin> used w
      \<and> inv w' \<and> shown w' = shown w \<and> used w' = insert i (used w)"
    and open_full: "inv w \<Longrightarrow> used w = {2..<8} \<Longrightarrow> \<exists>w'. os_open os (text_of ''.'') w = Some (-1, w') \<and> keeps inv shown used w w'"
    and close_used: "inv w \<Longrightarrow> i \<in> used w \<Longrightarrow> \<exists>w'. os_close os (int i) w = Some (0, w') \<and> inv w' \<and> shown w' = shown w \<and> used w' = used w - {i}"
    and bad_vidmap: "inv w \<Longrightarrow> p \<in> {0, 0x400000} \<Longrightarrow> \<exists>w'. os_vidmap os p w = Some (-1, w') \<and> keeps inv shown used w w'"
    and bad_trap: "inv w \<Longrightarrow> num \<in> {1073741823, -1073741823, 0} \<Longrightarrow> \<exists>w'. os_trap os num w = Some (-1, w') \<and> keeps inv shown used w w'"
    and write_used: "inv w \<Longrightarrow> n \<le> length buf \<Longrightarrow> length buf \<le> room \<Longrightarrow> os_write os 1 buf (int n) w = Some (r, w') \<Longrightarrow> used w' = used w"
begin

lemma says:
  assumes "inv w" and "length str \<le> 60" and "0 \<notin> set (bytes_of str)"
  shows "\<exists>w'. ece391_fdputs os 1 (line_of_text str) w = Some w' \<and> inv w' \<and> shown w' = display (bytes_of str @ [10]) (shown w) \<and> used w' = used w"
proof -
  have z: "ece391_strlen (bytes_of s @ 10 # r) = map_option (\<lambda>k. length s + Suc k) (ece391_strlen r)" if "0 \<notin> set (bytes_of s)" for s r
    using that by (induction s) (auto simp: option.map_comp o_def)
  have n: "ece391_strlen (line_of_text str) = Some (Suc (length str))" using z [OF assms(3), of "[0]"] by (simp add: line_of_text_def)
  have l: "length (line_of_text str) \<le> room" using assms(2) room by (simp add: line_of_text_def)
  obtain w' where w': "os_write os 1 (line_of_text str) (int (Suc (length str))) w = Some (int (Suc (length str)), w')" "inv w'"
    "shown w' = display (bytes_of str @ [10]) (shown w)"
    using write_console [OF assms(1) _ l, of "Suc (length str)"] by (auto simp: line_of_text_def)
  moreover have "used w' = used w" using write_used [OF assms(1) _ l w'(1)] by (simp add: line_of_text_def)
  ultimately show ?thesis using n by (auto simp: ece391_fdputs_def)
qed

lemma verdict_pass:
  assumes "inv w" and "length name \<le> 50" and "0 \<notin> set (bytes_of name)"
  shows "\<exists>w'. verdict os name 0 w = Some (0, w') \<and> inv w' \<and> shown w' = display (bytes_of (name @ '': PASS'') @ [10]) (shown w) \<and> used w' = used w"
  using says [OF assms(1), of "name @ '': PASS''"] assms(2,3) by (auto simp: verdict_def bytes_of_def)

lemma refused_pass [simp]: "refused os message (-1, w) fail = Some (fail, w)"
  by (simp add: refused_def)

lemma keeps_trans: "keeps inv shown used w1 w2 \<Longrightarrow> keeps inv shown used w2 w3 \<Longrightarrow> keeps inv shown used w1 w3"
  by (simp add: keeps_def)

lemma keeps_refl: "inv w \<Longrightarrow> keeps inv shown used w w"
  by (simp add: keeps_def)

lemma keeps_inv: "keeps inv shown used w w' \<Longrightarrow> inv w'" "keeps inv shown used w w' \<Longrightarrow> used w' = used w"
  by (simp_all add: keeps_def)

lemma passes_verdict:
  assumes "keeps inv shown used w w'" and "length name \<le> 50" and "0 \<notin> set (bytes_of name)"
  shows "passes inv shown display used name (verdict os name 0 w') w"
  using verdict_pass [OF keeps_inv(1) [OF assms(1)] assms(2,3)] assms(1) by (auto simp: passes_def keeps_def)

lemma err_fd_passes:
  assumes "inv w" and "length buf = 32" and fd: "- (2 ^ 31) \<le> fd" "fd < 2 ^ 31" "fd < 0 \<or> 8 \<le> fd" and n: "length name \<le> 50" "0 \<notin> set (bytes_of name)"
  shows "passes inv shown display used name (err_fd name fd os buf w) w"
proof -
  have out: "fd \<notin> int ` used v" "fd \<noteq> 0" "fd \<noteq> 1" if "inv v" for v using used [OF that] fd(3) by auto
  obtain b w1 where r: "os_read os fd buf 31 w = Some (-1, b, w1)" "length b = 32" "keeps inv shown used w w1"
    using bad_read [OF assms(1) fd(1,2) _ assms(2)] out [OF assms(1)] by auto
  obtain w2 where w: "os_write os fd b 31 w1 = Some (-1, w2)" "keeps inv shown used w1 w2"
    using bad_write [OF keeps_inv(1) [OF r(3)] fd(1,2) _ r(2)] out [OF keeps_inv(1) [OF r(3)]] by auto
  obtain w3 where c: "os_close os fd w2 = Some (-1, w3)" "keeps inv shown used w2 w3"
    using bad_close [OF keeps_inv(1) [OF w(2)] fd(1,2)] out [OF keeps_inv(1) [OF w(2)]] by auto
  have "err_fd name fd os buf w = verdict os name 0 w3" by (simp add: err_fd_def r(1) w(1) c(1))
  then show ?thesis using passes_verdict [OF keeps_trans [OF keeps_trans [OF r(3) w(2)] c(2)] n] by simp
qed

lemma open_dots_fills:
  assumes "inv w" and "k \<le> card ({2..<8} - used w)"
  shows "\<exists>w'. open_dots k os c w = Some (c, w') \<and> inv w' \<and> shown w' = shown w \<and> card ({2..<8} - used w') + k = card ({2..<8} - used w)"
  using assms
proof (induction k arbitrary: w)
  case (Suc k)
  have "used w \<noteq> {2..<8}" using Suc.prems(2) by (intro notI) simp
  then obtain i w1 where w1: "os_open os (text_of ''.'') w = Some (int i, w1)" "i \<notin> used w" "inv w1" "shown w1 = shown w" "used w1 = insert i (used w)"
    using open_dot [OF Suc.prems(1)] by blast
  have "i \<in> {2..<8} - used w" using used [OF w1(3)] w1(2,5) by blast
  then have "Suc (card ({2..<8} - used w - {i})) = card ({2..<8} - used w)" by (intro card_Suc_Diff1) simp_all
  moreover have "{2..<8} - used w1 = {2..<8} - used w - {i}" using w1(5) by blast
  ultimately have c: "Suc (card ({2..<8} - used w1)) = card ({2..<8} - used w)" by simp
  then have "k \<le> card ({2..<8} - used w1)" using Suc.prems(2) by simp
  then obtain w2 where "open_dots k os c w1 = Some (c, w2)" "inv w2" "shown w2 = shown w1" "card ({2..<8} - used w2) + k = card ({2..<8} - used w1)"
    using Suc.IH [OF w1(3)] by blast
  then show ?case using w1(1,4) c by (intro exI [of _ w2]) simp
qed simp

lemma close_all_frees:
  assumes "inv w" and "used w = set is" and "distinct is"
  shows "\<exists>w'. close_all (map int is) os w = Some w' \<and> inv w' \<and> shown w' = shown w \<and> used w' = {}"
  using assms
proof (induction "is" arbitrary: w)
  case (Cons i "is")
  obtain w1 where w1: "os_close os (int i) w = Some (0, w1)" "inv w1" "shown w1 = shown w" "used w1 = used w - {i}"
    using close_used [OF Cons.prems(1), of i] Cons.prems(2) by auto
  have "used w1 = set is" using w1(4) Cons.prems(2,3) by auto
  then show ?case using Cons.IH [OF w1(2)] Cons.prems(3) w1(1,3) by auto
qed simp

lemma err_open_lots_passes:
  assumes "inv w" and "used w = {}"
  shows "passes inv shown display used ''err_open_lots'' (err_open_lots os w) w"
proof -
  have "open_dots (k + m) os c v = Option.bind (open_dots k os c v) (\<lambda>(c, v). open_dots m os c v)" for k m c v
    
  proof (induction k arbitrary: c v)
    case (Suc k)
    then show ?case by (cases "os_open os (text_of ''.'') v") auto
  qed simp
  from this [of 6 1] have split: "open_dots 7 os 0 w = Option.bind (open_dots 6 os 0 w) (\<lambda>(c, v). open_dots 1 os c v)" by simp
  obtain w1 where w1: "open_dots 6 os 0 w = Some (0, w1)" "inv w1" "shown w1 = shown w" "card ({2..<8} - used w1) = 0"
    using open_dots_fills [OF assms(1), of 6 0] assms(2) by auto
  have "{2..<8} - used w1 = {}" using w1(4) by (simp only: card_eq_0_iff finite_Diff finite_atLeastLessThan simp_thms)
  then have full: "used w1 = {2..<8}" using used [OF w1(2)] by blast
  obtain w2 where w2: "os_open os (text_of ''.'') w1 = Some (-1, w2)" "keeps inv shown used w1 w2" using open_full [OF w1(2) full] by blast
  have "{2..<8} = set [2, 3, 4, 5, 6, 7 :: nat]" by (auto simp: atLeastLessThan_def)
  then have "used w2 = set [2, 3, 4, 5, 6, 7]" using keeps_inv(2) [OF w2(2)] full by simp
  then obtain w3 where w3: "close_all [2, 3, 4, 5, 6, 7] os w2 = Some w3" "inv w3" "shown w3 = shown w2" "used w3 = {}"
    using close_all_frees [OF keeps_inv(1) [OF w2(2)], of "[2, 3, 4, 5, 6, 7]"] by auto
  have "keeps inv shown used w w3" using w1(3) w2(2) w3 assms(2) by (simp add: keeps_def)
  moreover have "err_open_lots os w = verdict os ''err_open_lots'' 0 w3"
    using split w1(1) w2(1) w3(1) by (simp add: err_open_lots_def del: close_all.simps)
  ultimately show ?thesis using passes_verdict [of w w3 "''err_open_lots''"] by simp
qed

lemma err_open_passes:
  assumes "inv w"
  shows "passes inv shown display used ''err_open'' (err_open os w) w"
proof -
  obtain w1 where w1: "os_open os (text_of ''helloo'') w = Some (-1, w1)" "keeps inv shown used w w1" using bad_name [OF assms] by blast
  obtain w2 where w2: "os_open os (text_of ''shel'') w1 = Some (-1, w2)" "keeps inv shown used w1 w2" using bad_name [OF keeps_inv(1) [OF w1(2)]] by blast
  obtain w3 where w3: "os_open os (text_of []) w2 = Some (-1, w3)" "keeps inv shown used w2 w3" using bad_name [OF keeps_inv(1) [OF w2(2)]] by blast
  have "err_open os w = verdict os ''err_open'' 0 w3" by (simp add: err_open_def w1(1) w2(1) w3(1))
  then show ?thesis using passes_verdict [OF keeps_trans [OF keeps_trans [OF w1(2) w2(2)] w3(2)], of "''err_open''"] by simp
qed

text \<open>The loops over descriptors, which find no failure.\<close>

lemma loops_pass:
  assumes "inv w" and "used w = {}" and "\<forall>i \<in> set is. 0 \<le> i \<and> i < 8" and "length buf = 32"
  shows "\<exists>w'. closes is os fail w = Some (fail, w') \<and> keeps inv shown used w w'"
    and "\<forall>i \<in> set is. i \<noteq> 0 \<Longrightarrow> \<exists>buf' w'. reads is os fail buf w = Some (fail, buf', w') \<and> length buf' = 32 \<and> keeps inv shown used w w'"
    and "\<forall>i \<in> set is. i \<noteq> 1 \<Longrightarrow> \<exists>w'. writes is os fail buf w = Some (fail, w') \<and> keeps inv shown used w w'"
proof -
  show "\<exists>w'. closes is os fail w = Some (fail, w') \<and> keeps inv shown used w w'" using assms(1-3)
  proof (induction "is" arbitrary: w)
    case (Cons i "is")
    obtain w1 where w1: "os_close os i w = Some (-1, w1)" "keeps inv shown used w w1" using bad_close [OF Cons.prems(1), of i] Cons.prems by force
    then show ?case using Cons.IH [of w1] Cons.prems keeps_trans [OF w1(2)] by (auto simp: keeps_def)
  qed (simp add: keeps_refl)
  show "\<forall>i \<in> set is. i \<noteq> 0 \<Longrightarrow> \<exists>buf' w'. reads is os fail buf w = Some (fail, buf', w') \<and> length buf' = 32 \<and> keeps inv shown used w w'" using assms
  proof (induction "is" arbitrary: w buf)
    case (Cons i "is")
    obtain b w1 where w1: "os_read os i buf 31 w = Some (-1, b, w1)" "length b = 32" "keeps inv shown used w w1"
      using bad_read [OF Cons.prems(2), of i buf] Cons.prems by force
    then show ?case using Cons.IH [of w1 b] Cons.prems keeps_trans [OF w1(3)] by (auto simp: keeps_def)
  qed (simp add: keeps_refl)
  show "\<forall>i \<in> set is. i \<noteq> 1 \<Longrightarrow> \<exists>w'. writes is os fail buf w = Some (fail, w') \<and> keeps inv shown used w w'" using assms
  proof (induction "is" arbitrary: w)
    case (Cons i "is")
    obtain w1 where w1: "os_write os i buf 31 w = Some (-1, w1)" "keeps inv shown used w w1"
      using bad_write [OF Cons.prems(2), of i buf] Cons.prems by force
    then show ?case using Cons.IH [of w1] Cons.prems keeps_trans [OF w1(2)] by (auto simp: keeps_def)
  qed (simp add: keeps_refl)
qed

lemma err_unopened_passes:
  assumes "inv w" and "used w = {}" and "length buf = 32"
  shows "passes inv shown display used ''err_unopened'' (err_unopened os buf w) w"
proof -
  obtain w1 where w1: "closes [0, 1, 2, 3, 4, 5, 6, 7] os 0 w = Some (0, w1)" "keeps inv shown used w w1"
    using loops_pass(1) [OF assms(1,2) _ assms(3), of "[0, 1, 2, 3, 4, 5, 6, 7]" 0] by auto
  have k1: "inv w1" "used w1 = {}" using keeps_inv [OF w1(2)] assms(2) by simp_all
  obtain b w2 where w2: "reads [2, 3, 4, 5, 6, 7] os 0 buf w1 = Some (0, b, w2)" "length b = 32" "keeps inv shown used w1 w2"
    using loops_pass(2) [OF k1 _ assms(3), of "[2, 3, 4, 5, 6, 7]" 0] by auto
  have k2: "inv w2" "used w2 = {}" using keeps_inv [OF w2(3)] k1(2) by simp_all
  obtain w3 where w3: "writes [2, 3, 4, 5, 6, 7] os 0 b w2 = Some (0, w3)" "keeps inv shown used w2 w3"
    using loops_pass(3) [OF k2 _ w2(2), of "[2, 3, 4, 5, 6, 7]" 0] by auto
  have "err_unopened os buf w = verdict os ''err_unopened'' 0 w3"
    unfolding err_unopened_def w1(1) bind.bind_lunit case_prod_conv w2(1) w3(1) ..
  then show ?thesis using passes_verdict [OF keeps_trans [OF keeps_trans [OF w1(2) w2(3)] w3(2)], of "''err_unopened''"] by simp
qed

lemma err_vidmap_passes:
  assumes "inv w"
  shows "passes inv shown display used ''err_vidmap'' (err_vidmap os w) w"
proof -
  obtain w1 where w1: "os_vidmap os 0 w = Some (-1, w1)" "keeps inv shown used w w1" using bad_vidmap [OF assms] by blast
  obtain w2 where w2: "os_vidmap os 0x400000 w1 = Some (-1, w2)" "keeps inv shown used w1 w2" using bad_vidmap [OF keeps_inv(1) [OF w1(2)]] by blast
  have "err_vidmap os w = verdict os ''err_vidmap'' 0 w2" by (simp add: err_vidmap_def w1(1) w2(1))
  then show ?thesis using passes_verdict [OF keeps_trans [OF w1(2) w2(2)], of "''err_vidmap''"] by simp
qed

lemma err_stdin_out_passes:
  assumes "inv w" and "length buf = 32"
  shows "passes inv shown display used ''err_stdin_out'' (err_stdin_out os buf w) w"
proof -
  have out: "0 \<notin> int ` used v" "1 \<notin> int ` used v" if "inv v" for v using used [OF that] by auto
  obtain w1 where w1: "os_write os 0 buf 31 w = Some (-1, w1)" "keeps inv shown used w w1"
    using bad_write [OF assms(1) _ _ _ assms(2), of 0] out [OF assms(1)] by auto
  obtain b w2 where w2: "os_read os 1 buf 31 w1 = Some (-1, b, w2)" "keeps inv shown used w1 w2"
    using bad_read [OF keeps_inv(1) [OF w1(2)] _ _ _ assms(2), of 1] out [OF keeps_inv(1) [OF w1(2)]] by auto
  have "err_stdin_out os buf w = verdict os ''err_stdin_out'' 0 w2" by (simp add: err_stdin_out_def w1(1) w2(1))
  then show ?thesis using passes_verdict [OF keeps_trans [OF w1(2) w2(2)], of "''err_stdin_out''"] by simp
qed

lemma err_syscall_num_passes:
  assumes "inv w"
  shows "passes inv shown display used ''err_syscall_num'' (err_syscall_num os w) w"
proof -
  obtain w1 where w1: "os_trap os 1073741823 w = Some (-1, w1)" "keeps inv shown used w w1" using bad_trap [OF assms] by blast
  obtain w2 where w2: "os_trap os (-1073741823) w1 = Some (-1, w2)" "keeps inv shown used w1 w2" using bad_trap [OF keeps_inv(1) [OF w1(2)]] by blast
  obtain w3 where w3: "os_trap os 0 w2 = Some (-1, w3)" "keeps inv shown used w2 w3" using bad_trap [OF keeps_inv(1) [OF w2(2)]] by blast
  have "err_syscall_num os w = verdict os ''err_syscall_num'' 0 w3" by (simp add: err_syscall_num_def w1(1) w2(1) w3(1))
  then show ?thesis using passes_verdict [OF keeps_trans [OF keeps_trans [OF w1(2) w2(2)] w3(2)], of "''err_syscall_num''"] by simp
qed

lemma passesE:
  assumes "passes inv shown display used name r w" and "used w = {}"
  obtains w' where "r = Some (0, w')" and "inv w'" and "used w' = {}" and "shown w' = display (pass_line name) (shown w)"
  using assms by (auto simp: passes_def pass_line_def)

lemma overall:
  assumes "inv w"
  shows "\<exists>w'. ece391_fdputs os 1 ([10] @ line_of_text ''Overall Tests: PASS'') w = Some w' \<and> inv w' \<and> used w' = used w
    \<and> shown w' = display ([10] @ pass_line ''Overall Tests'') (shown w)"
proof -
  let ?t = "[10] @ line_of_text ''Overall Tests: PASS''"
  have l: "length ?t \<le> room" and n: "ece391_strlen ?t = Some 21" using room by (simp_all add: line_of_text_def)
  have k: "21 \<le> length ?t" "take 21 ?t = [10] @ pass_line ''Overall Tests''" by (simp_all add: line_of_text_def pass_line_def)
  obtain w' where "os_write os 1 ?t (int 21) w = Some (int 21, w')" "inv w'" "shown w' = display ([10] @ pass_line ''Overall Tests'') (shown w)"
    using write_console [OF assms k(1) l] unfolding k(2) by blast
  moreover from this have "used w' = used w" using write_used [OF assms k(1) l] by blast
  ultimately show ?thesis using n by (auto simp: ece391_fdputs_def)
qed

lemma run_all_passes:
  assumes "inv w" and "used w = {}" and t: "length t = 32"
  shows "\<exists>w'. run_all os t w = Some (0, w') \<and> inv w' \<and> used w' = {} \<and> shown w' = display all_pass (shown w)"
proof -
  obtain w1 where w1: "err_neg_fd os t w = Some (0, w1)" "inv w1" "used w1 = {}" "shown w1 = display (pass_line ''err_neg_fd'') (shown w)"
    by (rule passesE [OF err_fd_passes [OF assms(1) t, of NEG_FD "''err_neg_fd''"] assms(2)]) (simp_all add: err_neg_fd_def)
  obtain w2 where w2: "err_big_fd os t w1 = Some (0, w2)" "inv w2" "used w2 = {}" "shown w2 = display (pass_line ''err_big_fd'') (shown w1)"
    by (rule passesE [OF err_fd_passes [OF w1(2) t, of BIG_FD "''err_big_fd''"] w1(3)]) (simp_all add: err_big_fd_def)
  obtain w3 where w3: "err_open_lots os w2 = Some (0, w3)" "inv w3" "used w3 = {}" "shown w3 = display (pass_line ''err_open_lots'') (shown w2)"
    by (rule passesE [OF err_open_lots_passes [OF w2(2,3)] w2(3)])
  obtain w4 where w4: "err_open os w3 = Some (0, w4)" "inv w4" "used w4 = {}" "shown w4 = display (pass_line ''err_open'') (shown w3)"
    by (rule passesE [OF err_open_passes [OF w3(2)] w3(3)])
  obtain w5 where w5: "err_unopened os t w4 = Some (0, w5)" "inv w5" "used w5 = {}" "shown w5 = display (pass_line ''err_unopened'') (shown w4)"
    by (rule passesE [OF err_unopened_passes [OF w4(2,3) t] w4(3)])
  obtain w6 where w6: "err_vidmap os w5 = Some (0, w6)" "inv w6" "used w6 = {}" "shown w6 = display (pass_line ''err_vidmap'') (shown w5)"
    by (rule passesE [OF err_vidmap_passes [OF w5(2)] w5(3)])
  obtain w7 where w7: "err_stdin_out os t w6 = Some (0, w7)" "inv w7" "used w7 = {}" "shown w7 = display (pass_line ''err_stdin_out'') (shown w6)"
    by (rule passesE [OF err_stdin_out_passes [OF w6(2) t] w6(3)])
  obtain w8 where w8: "err_syscall_num os w7 = Some (0, w8)" "inv w8" "used w8 = {}" "shown w8 = display (pass_line ''err_syscall_num'') (shown w7)"
    by (rule passesE [OF err_syscall_num_passes [OF w7(2)] w7(3)])
  obtain w9 where w9: "ece391_fdputs os 1 ([10] @ line_of_text ''Overall Tests: PASS'') w8 = Some w9" "inv w9" "used w9 = used w8"
    "shown w9 = display ([10] @ pass_line ''Overall Tests'') (shown w8)"
    using overall [OF w8(2)] by blast
  have "run_all os t w = Some (0, w9)"
    using w9(1) by (simp add: run_all_def w1(1) w2(1) w3(1) w4(1) w5(1) w6(1) w7(1) w8(1))
  moreover have "shown w9 = display all_pass (shown w)"
    unfolding w9(4) w8(4) w7(4) w6(4) w5(4) w4(4) w3(4) w2(4) w1(4) all_pass_def by (simp only: display_append list.map concat.simps display_Nil append_assoc append_Nil)
  ultimately show ?thesis using w9(2,3) w8(3) by simp
qed

end

end
