(* ===== verification/UserKernel.thy ===== *)
theory UserKernel
  imports Programs Syserr
begin

text \<open>
  The user programs on the kernel. \<open>kernel_os\<close> gives the programs the modelled system calls, through their
  dispatcher; the console and file interfaces the programs rely on are shown to hold of it.
\<close>

subsection \<open>The kernel as the system\<close>

text \<open>
  The state of the world: the kernel, and for each coming \<^verbatim>\<open>read\<close> the interrupts that are served while it waits.
  A call goes through the dispatcher with the numbers of \<^verbatim>\<open>ece391sysnum.h\<close>. The caller's buffer is in its page, at the
  virtual address \<open>a\<close>, with the bytes of the program's array. \<open>run_user\<close> stands for the machine code of the programs:
  it runs a program from its entry point to its call of \<^verbatim>\<open>halt\<close>, whose argument it gives. \<open>e1\<close> and \<open>e2\<close> are the
  stack registers of the kernel inside \<^verbatim>\<open>sys_execute\<close>.
\<close>

type_synonym uworld = "kernel \<times> handler list list"

definition u_put :: "u32 \<Rightarrow> bytes \<Rightarrow> kernel \<Rightarrow> kernel" where
  "u_put a buf s = upd_mem (\<lambda>m. write_list m (user_ptr a s) buf) s"

definition u_get :: "u32 \<Rightarrow> nat \<Rightarrow> kernel \<Rightarrow> bytes" where
  "u_get a n s = read_list (mem s) (user_ptr a s) n"

definition do_call :: "handler list \<Rightarrow> u32 \<Rightarrow> u32 \<Rightarrow> u32 \<Rightarrow> u32 \<Rightarrow> kernel \<Rightarrow> (int \<times> kernel) option" where
  "do_call hs eax ebx ecx edx s =
     (case syscall hs 0 0 eax ebx ecx edx s of Some (Returns r, s') \<Rightarrow> Some (r, s') | _ \<Rightarrow> None)"

definition kernel_read :: "u32 \<Rightarrow> int \<Rightarrow> bytes \<Rightarrow> int \<Rightarrow> uworld \<Rightarrow> (int \<times> bytes \<times> uworld) option" where
  "kernel_read a fd buf nbytes = (\<lambda>(s, hss). do {
     (r, s) \<leftarrow> do_call (case hss of [] \<Rightarrow> [] | hs # _ \<Rightarrow> hs) 3 (of_int fd) a (of_int nbytes) (u_put a buf s);
     Some (r, u_get a (length buf) s, s, tl hss)
   })"

definition kernel_call :: "u32 \<Rightarrow> u32 \<Rightarrow> u32 \<Rightarrow> u32 \<Rightarrow> uworld \<Rightarrow> (int \<times> uworld) option" where
  "kernel_call eax ebx ecx edx = (\<lambda>(s, hss). do {
     (r, s) \<leftarrow> do_call [] eax ebx ecx edx s;
     Some (r, s, hss)
   })"

definition kernel_execute :: "u32 \<Rightarrow> (u32 \<Rightarrow> u32 \<Rightarrow> uworld \<Rightarrow> (u8 \<times> uworld) option) \<Rightarrow> u32 \<Rightarrow> u32 \<Rightarrow> bytes \<Rightarrow> uworld \<Rightarrow> (int \<times> uworld) option" where
  "kernel_execute a run_user e1 e2 command = (\<lambda>(s, hss). do {
     (r, s) \<leftarrow> syscall [] e1 e2 2 a 0 0 (u_put a command s);
     case r of
       Returns v \<Rightarrow> Some (v, s, hss)
     | Enters eip sp \<Rightarrow> do {
         (status, s, hss) \<leftarrow> run_user eip sp (s, hss);
         (r, s) \<leftarrow> syscall [] e1 e2 1 (ucast status) 0 0 s;
         case r of ExecuteReturns _ _ v \<Rightarrow> Some (v, s, hss) | _ \<Rightarrow> None
       }
     | _ \<Rightarrow> None
   })"

definition kernel_os :: "u32 \<Rightarrow> (u32 \<Rightarrow> u32 \<Rightarrow> uworld \<Rightarrow> (u8 \<times> uworld) option) \<Rightarrow> u32 \<Rightarrow> u32 \<Rightarrow> uworld os" where
  "kernel_os a run_user e1 e2 = \<lparr>
     os_execute = kernel_execute a run_user e1 e2,
     os_read = kernel_read a,
     os_write = (\<lambda>fd buf nbytes (s, hss). kernel_call 4 (of_int fd) a (of_int nbytes) (u_put a buf s, hss)),
     os_open = (\<lambda>name (s, hss). kernel_call 5 a 0 0 (u_put a name s, hss)),
     os_close = (\<lambda>fd. kernel_call 6 (of_int fd) 0 0),
     os_getargs = (\<lambda>buf nbytes (s, hss). do {
       (r, s) \<leftarrow> do_call [] 7 a (of_int nbytes) 0 (u_put a buf s);
       Some (r, u_get a (length buf) s, s, hss)
     }),
     os_vidmap = (\<lambda>p. kernel_call 8 p 0 0),
     os_trap = (\<lambda>num. kernel_call (of_int num) 0 0 0)\<rparr>"

subsection \<open>A process and its surroundings\<close>

text \<open>The screen of the scheduled terminal, and the page directory entry of a user address.\<close>

definition screen_ptr :: "kernel \<Rightarrow> ptr" where
  "screen_ptr s = (Phys, vid_mem (terminals s (sched_term_id s)))"

definition dir_ptr :: "u32 \<Rightarrow> kernel \<Rightarrow> ptr" where
  "dir_ptr a s = (Phys, cr3 s + 4 * dir_ix a)"

text \<open>
  The current process can use \<open>n\<close> bytes at its address \<open>a\<close>, which lies in a large page; this buffer, the screen,
  the directory entry and the file system image do not overlap; descriptor 1 is the standard output.
\<close>

definition uproc :: "u32 \<Rightarrow> nat \<Rightarrow> kernel \<Rightarrow> bool" where
  "uproc a n s \<longleftrightarrow> a \<noteq> 0 \<and> n < 2 ^ 31 \<and> cur_pcb s \<noteq> 0 \<and> wf_image s
     \<and> ld32 (mem s) (dir_ptr a s) AND PRESENT_BIT \<noteq> 0 \<and> ld32 (mem s) (dir_ptr a s) AND PAGE_SIZE_BIT \<noteq> 0
     \<and> term_ok (terminals s (sched_term_id s)) \<and> file_ops (cur_fd s 1) = stdout
     \<and> separate (screen_ptr s) 4000 (user_ptr a s) n \<and> separate (screen_ptr s) 4000 (dir_ptr a s) 4
     \<and> separate (user_ptr a s) n (screen_ptr s) 4000 \<and> separate (user_ptr a s) n (dir_ptr a s) 4
     \<and> img_separate s (screen_ptr s) 4000 \<and> img_separate s (user_ptr a s) n"

text \<open>A step of the kernel on behalf of the process: memory changes in its buffer, on its screen and in kernel locals only.\<close>

definition ustep :: "u32 \<Rightarrow> nat \<Rightarrow> kernel \<Rightarrow> kernel \<Rightarrow> bool" where
  "ustep a n s s' \<longleftrightarrow> cr3 s' = cr3 s \<and> fs_addr s' = fs_addr s \<and> sched_term_id s' = sched_term_id s \<and> color s' = color s
     \<and> cur_pcb s' = cur_pcb s \<and> screen_ptr s' = screen_ptr s \<and> term_ok (terminals s' (sched_term_id s))
     \<and> (\<forall>q. in_range (screen_ptr s) 4000 q \<or> in_range (user_ptr a s) n q \<or> (\<exists>i. fst q = Local i) \<or> mem s' q = mem s q)"

lemma resolve_large:
  assumes "ld32 (mem s) (dir_ptr a s) AND PRESENT_BIT \<noteq> 0" and "ld32 (mem s) (dir_ptr a s) AND PAGE_SIZE_BIT \<noteq> 0"
  shows "resolve_virt_addr a s = (ld32 (mem s) (dir_ptr a s) AND TOP_10_BITS) + (a AND LAST_22_BITS)"
proof -
  have "drop_bit 22 (a AND TOP_10_BITS) = dir_ix a"
  proof (rule bit_word_eqI)
    fix n assume n: "n < LENGTH(32)"
    have m: "(0xFFC00000 :: u32) = push_bit 22 (mask 10)" by (simp add: mask_eq_exp_minus_1)
    show "bit (drop_bit 22 (a AND TOP_10_BITS)) n = bit (dir_ix a) n"
      using n bit_imp_le_length [of a "22 + n"] unfolding m by (auto simp: bit_simps)
  qed
  then show ?thesis using assms by (simp add: resolve_virt_addr_def Let_def dir_ptr_def)
qed

lemma ustep_kept:
  assumes "uproc a n s" and "ustep a n s s'"
  shows "user_ptr a s' = user_ptr a s" and "dir_ptr a s' = dir_ptr a s" and "same_image s s'"
    and "ld32 (mem s') (dir_ptr a s) = ld32 (mem s) (dir_ptr a s)"
proof -
  have out: "mem s' (padd p (of_nat i)) = mem s (padd p (of_nat i))"
    if "separate (screen_ptr s) 4000 p k" "separate (user_ptr a s) n p k" "i < k" "fst p = Phys" for p k i
    using assms(2) that unfolding ustep_def separate_def by (metis block.distinct(9) fst_conv padd_def)
  show d: "dir_ptr a s' = dir_ptr a s" using assms(2) by (simp add: dir_ptr_def ustep_def)
  show w: "ld32 (mem s') (dir_ptr a s) = ld32 (mem s) (dir_ptr a s)"
    using assms(1) by (intro ld32_cong read_list_cong out [where k = 4]) (simp_all add: uproc_def dir_ptr_def)
  show "user_ptr a s' = user_ptr a s"
    using assms(1) w d unfolding user_ptr_def by (simp add: resolve_large uproc_def)
  have "mem s' (img s i) = mem s (img s i)" if "i < img_size s" for i
    using out [of "img s 0" "img_size s" i] assms(1) that by (simp add: uproc_def img_separate_def img_def padd_def)
  then show "same_image s s'" using assms(2) by (simp add: same_image_def ustep_def)
qed

lemma uproc_step:
  assumes "uproc a n s" and "ustep a n s s'" and "file_ops (cur_fd s' 1) = stdout"
  shows "uproc a n s'"
proof -
  note k = ustep_kept [OF assms(1,2)] and c = same_image_counts [OF ustep_kept(3) [OF assms(1,2)]]
  have t: "sched_term_id s' = sched_term_id s" "screen_ptr s' = screen_ptr s" "term_ok (terminals s' (sched_term_id s))"
    "fs_addr s' = fs_addr s" "cur_pcb s' = cur_pcb s"
    using assms(2) by (simp_all add: ustep_def)
  show ?thesis using assms(1,3) t(3) unfolding uproc_def img_separate_def wf_image_def k(1,2) k(4) t(1,2,4,5) c by blast
qed

lemma ustep_refl: "uproc a n s \<Longrightarrow> ustep a n s s"
  by (simp add: ustep_def uproc_def)

lemma ustep_trans:
  assumes "uproc a n s" and "ustep a n s t" and "ustep a n t u"
  shows "ustep a n s u"
  using assms(2,3) ustep_kept(1) [OF assms(1,2)] unfolding ustep_def by metis

lemma ustep_upd_fd: "ustep a n s s' \<Longrightarrow> ustep a n s (upd_fd p i f s')"
  unfolding ustep_def screen_ptr_def by simp (metis)

subsection \<open>The caller's buffer\<close>

lemma u_put_simps [simp]:
  "cur_pcb (u_put a b s) = cur_pcb s" "pcbs (u_put a b s) = pcbs s" "terminals (u_put a b s) = terminals s"
  "sched_term_id (u_put a b s) = sched_term_id s" "color (u_put a b s) = color s" "cur_fd (u_put a b s) i = cur_fd s i"
  "fs_addr (u_put a b s) = fs_addr s" "cr3 (u_put a b s) = cr3 s"
  "mem (u_put a b s) = write_list (mem s) (user_ptr a s) b"
  by (simp_all add: u_put_def cur_fd_def)

lemma in_range_le: "in_range p k q \<Longrightarrow> k \<le> n \<Longrightarrow> in_range p n q"
  by (simp add: in_range_def)

lemma u_put_step:
  assumes "uproc a n s" and "length b \<le> n"
  shows "ustep a n s (u_put a b s)" and "uproc a n (u_put a b s)" and "user_ptr a (u_put a b s) = user_ptr a s"
    and "abs_screen (sched_term_id s) (u_put a b s) = abs_screen (sched_term_id s) s"
proof -
  have "in_range (user_ptr a s) n q \<or> write_list (mem s) (user_ptr a s) b q = mem s q" for q
    using write_list_other [of "user_ptr a s" b q "mem s"] in_range_le [of "user_ptr a s" "length b" q n] assms(2) by blast
  then show st: "ustep a n s (u_put a b s)" using assms(1) unfolding ustep_def uproc_def screen_ptr_def u_put_simps by blast
  show "uproc a n (u_put a b s)" using assms(1) by (intro uproc_step [OF assms(1) st]) (simp add: uproc_def)
  show "user_ptr a (u_put a b s) = user_ptr a s" by (rule ustep_kept(1) [OF assms(1) st])
  have "write_list (mem s) (user_ptr a s) b (padd (screen_ptr s) (of_nat k)) = mem s (padd (screen_ptr s) (of_nat k))" if "k < 4000" for k
    using assms that in_range_le [of "user_ptr a s" "length b" "padd (screen_ptr s) (of_nat k)" n]
    by (intro write_list_other) (auto simp: uproc_def separate_def)
  then have "screen_byte (mem (u_put a b s)) (vid_mem (terminals s (sched_term_id s))) k = screen_byte (mem s) (vid_mem (terminals s (sched_term_id s))) k" if "k < 4000" for k
    using that by (simp add: screen_byte_def screen_ptr_def)
  then show "abs_screen (sched_term_id s) (u_put a b s) = abs_screen (sched_term_id s) s"
    by (auto simp: abs_screen_def screen_rows_def intro!: map_cong)
qed

lemma u_get_put: "length b < 2 ^ 31 \<Longrightarrow> user_ptr a t = user_ptr a s \<Longrightarrow> mem t = write_list m (user_ptr a s) b \<Longrightarrow> u_get a (length b) t = b"
  by (simp add: u_get_def read_list_write_list)

subsection \<open>Calls through the dispatcher\<close>

lemma sint_of_int32: "- (2 ^ 31) \<le> k \<Longrightarrow> k < 2 ^ 31 \<Longrightarrow> sint (of_int k :: u32) = k"
  by (simp add: sint_sbintrunc' signed_take_bit_int_eq_self)

lemma do_call_eqs:
  assumes "- (2 ^ 31) \<le> fd" and "fd < 2 ^ 31" and "- (2 ^ 31) \<le> n" and "n < 2 ^ 31"
  shows "do_call hs 3 (of_int fd) a (of_int n) s = sys_read hs fd a n s"
    and "do_call hs 4 (of_int fd) a (of_int n) s = Some (sys_write fd a n s)"
    and "do_call hs 6 (of_int fd) x y s = Some (sys_close fd s)"
    and "do_call hs 7 a (of_int n) y s = sys_getargs a n s"
  using sint_of_int32 [OF assms(1,2)] sint_of_int32 [OF assms(3,4)]
  by (auto simp: do_call_def syscall_def ret_def split: option.split prod.split)

lemma do_call_open: "do_call hs 5 a x y s = sys_open (rdr (mem s) (user_ptr a s)) s"
  by (auto simp: do_call_def syscall_def ret_def split: option.split prod.split)

lemma do_call_vidmap: "do_call hs 8 p x y s = Some (sys_vidmap p s)"
  by (auto simp: do_call_def syscall_def ret_def)

lemma do_call_trap: "- (2 ^ 31) \<le> k \<Longrightarrow> k < 2 ^ 31 \<Longrightarrow> k \<le> 0 \<or> 10 < k \<Longrightarrow> do_call hs (of_int k) x y z s = Some (-1, s)"
  using sint_of_int32 [of k] by (auto simp: do_call_def syscall_def)

subsection \<open>The console\<close>

text \<open>What the scheduled terminal shows, with the colour of the next characters.\<close>

definition kernel_shown :: "uworld \<Rightarrow> u8 \<times> screen" where
  "kernel_shown w = (color (fst w), abs_screen (sched_term_id (fst w)) (fst w))"

definition kernel_display :: "bytes \<Rightarrow> u8 \<times> screen \<Rightarrow> u8 \<times> screen" where
  "kernel_display bs d = run sc_step d bs"

lemma terminal_write_step:
  assumes up: "uproc a n s" and k: "k \<le> n"
  defines "s' \<equiv> snd (terminal_write (user_ptr a s) (int k) s)"
  shows "fst (terminal_write (user_ptr a s) (int k) s) = int k" and "ustep a n s s'" and "pcbs s' = pcbs s"
    and "kernel_shown (s', h) = kernel_display (read_list (mem s) (user_ptr a s) k) (kernel_shown (s, h))"
proof -
  let ?i = "sched_term_id s" and ?bs = "read_list (mem s) (user_ptr a s) k"
  have t: "term_ok (terminals (cli s) ?i)" "separate (screen_ptr s) 4000 (user_ptr a s) n" using up by (simp_all add: uproc_def)
  have "separate (screen_ptr s) 4000 (user_ptr a s) k" using t(2) k by (simp add: separate_def)
  then have s': "s' = sti (puts_loop ?i ?bs (cli s))"
    using write_loop_eq [of "cli s" "user_ptr a s" k] t(1) by (simp add: s'_def terminal_write_def screen_ptr_def)
  show "fst (terminal_write (user_ptr a s) (int k) s) = int k" by (simp add: terminal_write_def)
  show "pcbs s' = pcbs s" by (simp add: s')
  have "in_range (screen_ptr s) 4000 q \<or> mem s' q = mem s q" for q
    using puts_loop_frame(2) [OF t(1), of q ?bs] by (auto simp: s' screen_ptr_def)
  then show "ustep a n s s'"
    using puts_loop_ok [OF t(1), of ?bs] puts_loop_frame(1) [OF t(1), of ?bs] 
    by (auto simp: ustep_def screen_ptr_def s' simp del: split_paired_All)
  have "abs_screen ?i (sti u) = abs_screen ?i u" "abs_screen ?i (cli u) = abs_screen ?i u" for u :: kernel by (simp_all add: abs_screen_def)
  then show "kernel_shown (s', h) = kernel_display ?bs (kernel_shown (s, h))"
    using puts_loop_abs [OF t(1), of ?bs] by (simp add: kernel_shown_def kernel_display_def run_sc_step s')
qed

lemma kernel_write_spec:
  assumes "uproc a n s" and "k \<le> length b" and "length b \<le> n"
  shows "\<exists>s'. os_write (kernel_os a ru e1 e2) 1 b (int k) (s, h) = Some (int k, s', h) \<and> ustep a n s s' \<and> pcbs s' = pcbs s \<and> uproc a n s'
    \<and> kernel_shown (s', h') = kernel_display (take k b) (kernel_shown (s, h''))"
proof -
  note p = u_put_step [OF assms(1,3)]
  have n: "n < 2 ^ 31" "a \<noteq> 0" "file_ops (cur_fd s 1) = stdout" using assms(1) by (simp_all add: uproc_def)
  have kn: "k \<le> n" using assms by simp
  note w = terminal_write_step [OF p(2) kn]
  let ?s = "snd (terminal_write (user_ptr a (u_put a b s)) (int k) (u_put a b s))"
  have "do_call [] 4 (of_int 1) a (of_int (int k)) (u_put a b s) = Some (sys_write 1 a (int k) (u_put a b s))"
    using n(1) kn by (intro do_call_eqs(2)) simp_all
  moreover have "sys_write 1 a (int k) (u_put a b s) = (int k, ?s)"
    using n w(1) by (simp add: sys_write_def prod_eq_iff)
  ultimately have "os_write (kernel_os a ru e1 e2) 1 b (int k) (s, h) = Some (int k, ?s, h)"
    by (simp add: kernel_os_def kernel_call_def)
  moreover have bytes: "read_list (mem (u_put a b s)) (user_ptr a (u_put a b s)) k = take k b"
    unfolding p(3) u_put_simps using assms n(1) by (intro read_list_write_list) simp_all
  moreover have "kernel_shown (u_put a b s, h') = kernel_shown (s, h'')" using p(4) by (simp add: kernel_shown_def)
  moreover have st: "ustep a n s ?s" by (rule ustep_trans [OF assms(1) p(1) w(2)])
  moreover have "uproc a n ?s" using n(3) by (intro uproc_step [OF assms(1) st]) (simp add: cur_fd_def w(3) ustep_def st [unfolded ustep_def])
  ultimately show ?thesis using w(3,4) by (intro exI [of _ ?s]) simp
qed

interpretation con: console_os "kernel_os a ru e1 e2" "\<lambda>w. uproc a n (fst w)" kernel_shown kernel_display n for a n ru e1 e2
proof
  fix w :: uworld and k and buf :: bytes
  assume "uproc a n (fst w)" "k \<le> length buf" "length buf \<le> n"
  then show "\<exists>w'. os_write (kernel_os a ru e1 e2) 1 buf (int k) w = Some (int k, w') \<and> uproc a n (fst w') \<and> kernel_shown w' = kernel_display (take k buf) (kernel_shown w)"
    using kernel_write_spec [of a n "fst w" k buf ru e1 e2 "snd w"] by (cases w) fastforce
qed (simp_all add: kernel_display_def run_append)

subsection \<open>Reading files and the directory\<close>

text \<open>A read that stores \<open>y\<close> in the buffer and changes descriptor \<open>i\<close>.\<close>

lemma stored:
  assumes up: "uproc a n s" and b: "length b \<le> n" and y: "length y \<le> length b"
    and t: "t = upd_fd p i f (u_put a y (u_put a b s))" "2 \<le> i"
  shows "u_get a (length b) t = y @ drop (length y) b" and "ustep a n s t" and "uproc a n t"
    and "kernel_shown (t, h') = kernel_shown (s, h'')"
proof -
  have n: "n < 2 ^ 31" using up by (simp add: uproc_def)
  note p1 = u_put_step [OF up b]
  have yn: "length y \<le> n" using y b by simp
  note p2 = u_put_step [OF p1(2) yn]
  have st: "ustep a n s (u_put a y (u_put a b s))" by (rule ustep_trans [OF up p1(1) p2(1)])
  then show ust: "ustep a n s t" unfolding t(1) by (rule ustep_upd_fd)
  have "cur_fd t 1 = cur_fd s 1" using t by (simp add: cur_fd_def)
  then show "uproc a n t" using up by (intro uproc_step [OF up ust]) (simp add: uproc_def)
  have "mem t = write_list (write_list (mem s) (user_ptr a s) b) (user_ptr a s) y" by (simp add: t(1) p1(3))
  also have "\<dots> = write_list (mem s) (user_ptr a s) (y @ drop (length y) b)"
    using y b n by (intro ext) (auto simp: write_list_apply in_range_def nth_append)
  finally have m: "mem t = write_list (mem s) (user_ptr a s) (y @ drop (length y) b)" .
  have "u_get a (length (y @ drop (length y) b)) t = y @ drop (length y) b"
    using y b n ustep_kept(1) [OF up ust] m by (intro u_get_put) simp_all
  then show "u_get a (length b) t = y @ drop (length y) b" using y by simp
  show "kernel_shown (t, h') = kernel_shown (s, h'')"
    using p1(4) p2(4) by (simp add: kernel_shown_def t(1) abs_screen_def)
qed

lemma kernel_read_stores:
  assumes up: "uproc a n s" "length b \<le> n" and y: "length y \<le> length b" "take (length x) y = x"
    and rd: "do_call (case h of [] \<Rightarrow> [] | hs # _ \<Rightarrow> hs) 3 (of_int fd) a (of_int k) (u_put a b s) = Some (int (length x), t)"
    and t: "t = upd_fd p i f (u_put a y (u_put a b s))" "2 \<le> i"
  shows "os_read (kernel_os a ru e1 e2) fd b k (s, h) = Some (int (length x), y @ drop (length y) b, t, tl h)"
    and "ustep a n s t" and "uproc a n t" and "kernel_shown (t, h') = kernel_shown (s, h'')" and "take (length x) (y @ drop (length y) b) = x"
proof -
  note st = stored [OF up y(1) t]
  show "os_read (kernel_os a ru e1 e2) fd b k (s, h) = Some (int (length x), y @ drop (length y) b, t, tl h)"
    using rd st(1) by (simp add: kernel_os_def kernel_read_def)
  show "ustep a n s t" "uproc a n t" "kernel_shown (t, h') = kernel_shown (s, h'')" by (fact st)+
  have "length x \<le> length y" using y(2) by (metis length_take min.cobounded1)
  then show "take (length x) (y @ drop (length y) b) = x" using y(2) by simp
qed

lemma file_inv_same:
  assumes "same_image s t" and "cur_fd t i = cur_fd s i" and "file_inv i p k s"
  shows "file_inv i p k t" and "file_items i k t = file_items i k s"
proof -
  have f: "fd_ino i t = fd_ino i s" "fd_off i t = fd_off i s" using assms(2) by (simp_all add: fd_ino_def fd_off_def)
  have w: "wf_image s" "wf_file s (fd_ino i s)" using assms(3) by (simp_all add: file_inv_def)
  note c = same_image_counts [OF assms(1)] and g = same_image_file [OF assms(1) w]
  show "file_inv i p k t" using assms(3) g by (simp add: file_inv_def f img_separate_def c)
  show "file_items i k t = file_items i k s" by (simp add: file_items_def f g)
qed

lemma dir_inv_same:
  assumes "same_image s t" and "cur_fd t i = cur_fd s i" and "dir_inv i p s"
  shows "dir_inv i p t" and "dir_items i t = dir_items i s"
proof -
  have f: "fd_off i t = fd_off i s" using assms(2) by (simp add: fd_off_def)
  have w: "wf_dir s" using assms(3) by (simp add: dir_inv_def)
  note c = same_image_counts [OF assms(1)] and e = same_image_entry [OF assms(1) w]
  show "dir_inv i p t" using assms(1,3) by (auto simp: dir_inv_def wf_dir_def wf_image_def img_separate_def same_image_def c e)
  show "dir_items i t = dir_items i s" by (simp add: dir_items_def f c e)
qed

text \<open>A process that reads a regular file, or the directory, through descriptor \<open>i\<close>.\<close>

definition reads_file :: "u32 \<Rightarrow> nat \<Rightarrow> nat \<Rightarrow> nat \<Rightarrow> uworld \<Rightarrow> bool" where
  "reads_file a n i k w \<longleftrightarrow> uproc a n (fst w) \<and> 2 \<le> i \<and> i < 8 \<and> k \<le> n \<and> file_ops (cur_fd (fst w) i) = regf_jt
     \<and> file_inv i (user_ptr a (fst w)) k (fst w)"

definition reads_dir :: "u32 \<Rightarrow> nat \<Rightarrow> nat \<Rightarrow> uworld \<Rightarrow> bool" where
  "reads_dir a n i w \<longleftrightarrow> uproc a n (fst w) \<and> 2 \<le> i \<and> i < 8 \<and> 32 \<le> n \<and> file_ops (cur_fd (fst w) i) = dir_jt
     \<and> dir_inv i (user_ptr a (fst w)) (fst w)"

lemma sys_read_file:
  assumes "uproc a n s" and "i < 8" and "k \<le> n" and "file_ops (cur_fd s i) = regf_jt"
  shows "do_call hs 3 (of_int (int i)) a (of_int (int k)) s = fsys_read_file i (user_ptr a s) (int k) s"
  using assms by (subst do_call_eqs) (simp_all add: uproc_def sys_read_def)

lemma sys_read_dir:
  assumes "uproc a n s" and "i < 8" and "k \<le> n" and "file_ops (cur_fd s i) = dir_jt"
  shows "do_call hs 3 (of_int (int i)) a (of_int (int k)) s = fsys_read_dir i (user_ptr a s) (int k) s"
  using assms by (subst do_call_eqs) (simp_all add: uproc_def sys_read_def)

lemma no_effect [simp]: "upd_fd p i (\<lambda>f. f) s = s" "u_put a [] s = s"
  by (simp_all add: upd_fd_def upd_pcb_def u_put_def upd_mem_def)

lemma reads_file_put:
  assumes "reads_file a n i k (s, h)" and "length b \<le> n"
  shows "reads_file a n i k (u_put a b s, h)" and "file_items i k (u_put a b s) = file_items i k s"
proof -
  have s: "uproc a n s" "file_inv i (user_ptr a s) k s" using assms(1) by (simp_all add: reads_file_def)
  note p = u_put_step [OF s(1) assms(2)]
  note f = file_inv_same [OF ustep_kept(3) [OF s(1) p(1)] u_put_simps(6) s(2)]
  show "reads_file a n i k (u_put a b s, h)" using assms(1) f(1) p by (simp add: reads_file_def)
  show "file_items i k (u_put a b s) = file_items i k s" by (rule f(2))
qed

lemma kernel_file_end:
  assumes "reads_file a n i k (s, h)" and "file_items i k s = []" and "length b \<le> n"
  shows "\<exists>b' w'. os_read (kernel_os a ru e1 e2) (int i) b (int k) (s, h) = Some (0, b', w') \<and> reads_file a n i k w'
    \<and> kernel_shown w' = kernel_shown (s, h)"
proof -
  let ?t = "u_put a b s"
  note t = reads_file_put [OF assms(1,3)]
  have up: "uproc a n s" "uproc a n ?t" "i < 8" "2 \<le> i" "k \<le> n" "file_ops (cur_fd ?t i) = regf_jt" and inv: "file_inv i (user_ptr a ?t) k ?t"
    using t(1) assms(1) by (simp_all add: reads_file_def)
  obtain s' where "file_next i (user_ptr a ?t) k ?t = Some (None, s')" using rf.next_end [OF inv] t(2) assms(2) by auto
  then have "fsys_read_file i (user_ptr a ?t) (int k) ?t = Some (0, ?t)"
    unfolding file_next_def fsys_read_file_spec [OF inv] by (auto split: if_splits simp del: length_read_slice)
  then have "do_call (case h of [] \<Rightarrow> [] | hs # _ \<Rightarrow> hs) 3 (of_int (int i)) a (of_int (int k)) ?t = Some (int (length []), ?t)"
    using sys_read_file [OF up(2,3,5,6)] by simp
  note r = kernel_read_stores [OF up(1) assms(3) _ _ this, where y = "[]" and p = 0 and i = 2 and f = "\<lambda>f. f"]
  have "reads_file a n i k (?t, tl h)" using t(1) by (simp add: reads_file_def)
  then show ?thesis using r(1,4) by auto
qed

lemma kernel_file_next:
  assumes "reads_file a n i k (s, h)" and "file_items i k s = x # xs" and "k \<le> length b" and "length b \<le> n"
  shows "\<exists>b' w'. os_read (kernel_os a ru e1 e2) (int i) b (int k) (s, h) = Some (int (length x), b', w') \<and> reads_file a n i k w'
    \<and> kernel_shown w' = kernel_shown (s, h) \<and> file_items i k (fst w') = xs \<and> length b' = length b \<and> take (length x) b' = x"
proof -
  let ?t = "u_put a b s"
  note t = reads_file_put [OF assms(1,4)]
  have up: "uproc a n s" "uproc a n ?t" "i < 8" "2 \<le> i" "k \<le> n" "file_ops (cur_fd ?t i) = regf_jt" and inv: "file_inv i (user_ptr a ?t) k ?t"
    using t(1) assms(1) by (simp_all add: reads_file_def)
  have items: "file_items i k ?t = x # xs" using t(2) assms(2) by simp
  let ?f = "\<lambda>f. f\<lparr>file_pos := file_pos f + of_nat (length x)\<rparr>"
  let ?s' = "upd_fd (cur_pcb ?t) i ?f (u_put a x ?t)"
  note c = file_items_Cons [OF inv items]
  have rd: "fsys_read_file i (user_ptr a ?t) (int k) ?t = Some (int (length x), ?s')"
    using fsys_read_file_spec [OF inv] c(1,2) by (simp add: u_put_def)
  then have inv': "file_inv i (user_ptr a ?t) k ?s'" "file_items i k ?s' = xs"
    using rf.next_some [OF inv items] c(2) by (auto simp: file_next_def)
  have "length x \<le> k" using c(1) by simp
  then have len: "length x \<le> length b" using assms(3) by simp
  have "do_call (case h of [] \<Rightarrow> [] | hs # _ \<Rightarrow> hs) 3 (of_int (int i)) a (of_int (int k)) ?t = Some (int (length x), ?s')"
    using sys_read_file [OF up(2,3,5,6)] rd by simp
  note r = kernel_read_stores [OF up(1) assms(4) len _ this refl up(4)]
  have "user_ptr a ?s' = user_ptr a ?t" using ustep_kept(1) [OF up(1) r(2)] u_put_step(3) [OF up(1) assms(4)] by simp
  then have "reads_file a n i k (?s', tl h)"
    using r(3) up inv'(1) by (simp add: reads_file_def) (simp add: cur_fd_def)
  then show ?thesis using r(1,4,5) inv'(2) len by (intro exI [of _ "x @ drop (length x) b"] exI [of _ "(?s', tl h)"]) simp
qed

lemma kernel_file_write:
  assumes "reads_file a n i k (s, h)" and "m \<le> length b" and "length b \<le> n"
  shows "\<exists>w'. os_write (kernel_os a ru e1 e2) 1 b (int m) (s, h) = Some (int m, w') \<and> reads_file a n i k w'
    \<and> kernel_shown w' = kernel_display (take m b) (kernel_shown (s, h)) \<and> file_items i k (fst w') = file_items i k s"
proof -
  have up: "uproc a n s" "file_inv i (user_ptr a s) k s" using assms(1) by (simp_all add: reads_file_def)
  obtain s' where s': "os_write (kernel_os a ru e1 e2) 1 b (int m) (s, h) = Some (int m, s', h)" "ustep a n s s'" "pcbs s' = pcbs s"
    "uproc a n s'" "kernel_shown (s', h) = kernel_display (take m b) (kernel_shown (s, h))"
    using kernel_write_spec [OF up(1) assms(2,3)] by blast
  have fd: "cur_fd s' i = cur_fd s i" using s'(2,3) by (simp add: cur_fd_def ustep_def)
  note f = file_inv_same [OF ustep_kept(3) [OF up(1) s'(2)] fd up(2)]
  have "reads_file a n i k (s', h)"
    using assms(1) f(1) fd s'(4) ustep_kept(1) [OF up(1) s'(2)] by (simp add: reads_file_def)
  then show ?thesis using s'(1,5) f(2) by auto
qed

lemma file_items_size:
  assumes "file_inv i p k s" and "x \<in> set (file_items i k s)"
  shows "x \<noteq> [] \<and> length x \<le> k"
proof -
  have "x \<in> set (chunks k n ys) \<Longrightarrow> 0 < k \<Longrightarrow> x \<noteq> [] \<and> length x \<le> k" for n and ys :: bytes
    by (induction k n ys rule: chunks.induct) (auto split: if_splits)
  then show ?thesis using assms by (simp add: file_items_def file_inv_def)
qed

interpretation regf: reader_os "kernel_os a ru e1 e2" "reads_file a n i k" kernel_shown kernel_display n "int i" "\<lambda>w. file_items i k (fst w)" k
  for a ru e1 e2 n i k
proof
  fix w :: uworld and m and b :: bytes
  assume *: "reads_file a n i k w" "m \<le> length b" "length b \<le> n"
  then show "\<exists>w'. os_write (kernel_os a ru e1 e2) 1 b (int m) w = Some (int m, w') \<and> reads_file a n i k w' \<and> kernel_shown w' = kernel_display (take m b) (kernel_shown w)"
    using kernel_file_write [of a n i k "fst w" "snd w" m b ru e1 e2] by auto
  fix r w'
  assume "os_write (kernel_os a ru e1 e2) 1 b (int m) w = Some (r, w')"
  then show "file_items i k (fst w') = file_items i k (fst w)"
    using * kernel_file_write [of a n i k "fst w" "snd w" m b ru e1 e2] by auto
next
  fix w :: uworld and b :: bytes
  assume "reads_file a n i k w" "file_items i k (fst w) = []" "k \<le> length b" "length b \<le> n"
  then show "\<exists>b' w'. os_read (kernel_os a ru e1 e2) (int i) b (int k) w = Some (0, b', w') \<and> reads_file a n i k w' \<and> kernel_shown w' = kernel_shown w"
    using kernel_file_end [of a n i k "fst w" "snd w" b ru e1 e2] by auto
next
  fix w :: uworld and b :: bytes and x xs
  assume "reads_file a n i k w" "file_items i k (fst w) = x # xs" "k \<le> length b" "length b \<le> n"
  then show "\<exists>b' w'. os_read (kernel_os a ru e1 e2) (int i) b (int k) w = Some (int (length x), b', w') \<and> reads_file a n i k w' \<and> kernel_shown w' = kernel_shown w
    \<and> file_items i k (fst w') = xs \<and> length b' = length b \<and> take (length x) b' = x"
    using kernel_file_next [of a n i k "fst w" "snd w" x xs b ru e1 e2] by auto
next
  fix w :: uworld and x
  assume "reads_file a n i k w" "x \<in> set (file_items i k (fst w))"
  then show "x \<noteq> [] \<and> length x \<le> k" using file_items_size [of i "user_ptr a (fst w)" k "fst w" x] by (simp add: reads_file_def)
qed (simp_all add: kernel_display_def run_append)

lemma reads_dir_put:
  assumes "reads_dir a n i (s, h)" and "length b \<le> n"
  shows "reads_dir a n i (u_put a b s, h)" and "dir_items i (u_put a b s) = dir_items i s"
proof -
  have s: "uproc a n s" "dir_inv i (user_ptr a s) s" using assms(1) by (simp_all add: reads_dir_def)
  note p = u_put_step [OF s(1) assms(2)]
  note f = dir_inv_same [OF ustep_kept(3) [OF s(1) p(1)] u_put_simps(6) s(2)]
  show "reads_dir a n i (u_put a b s, h)" using assms(1) f(1) p by (simp add: reads_dir_def)
  show "dir_items i (u_put a b s) = dir_items i s" by (rule f(2))
qed

lemma kernel_dir_end:
  assumes "reads_dir a n i (s, h)" and "dir_items i s = []" and "32 \<le> length b" and "length b \<le> n"
  shows "\<exists>b' w'. os_read (kernel_os a ru e1 e2) (int i) b (int 32) (s, h) = Some (0, b', w') \<and> reads_dir a n i w'
    \<and> kernel_shown w' = kernel_shown (s, h)"
proof -
  let ?t = "u_put a b s"
  note t = reads_dir_put [OF assms(1,4)]
  have up: "uproc a n s" "uproc a n ?t" "i < 8" "2 \<le> i" "32 \<le> n" "file_ops (cur_fd ?t i) = dir_jt" and inv: "dir_inv i (user_ptr a ?t) ?t"
    using t(1) assms(1) by (simp_all add: reads_dir_def)
  have "file_pos (cur_fd ?t i) \<ge> fs_word ?t 0"
    using t(2) assms(2) by (auto simp: dir_items_def fd_off_def num_entries_def word_le_nat_alt)
  then have "fsys_read_dir i (user_ptr a ?t) (int 32) ?t = Some (0, u_put a (replicate 32 0) ?t)"
    by (simp add: fsys_read_dir_def Let_def u_put_def [of a "replicate 32 0"] memset_eq)
  then have "do_call (case h of [] \<Rightarrow> [] | hs # _ \<Rightarrow> hs) 3 (of_int (int i)) a (of_int (int 32)) ?t = Some (int (length []), u_put a (replicate 32 0) ?t)"
    using sys_read_dir [OF up(2,3,5,6)] by simp
  note r = kernel_read_stores [OF up(1) assms(4) _ _ this, where y = "replicate 32 0" and p = 0 and i = 2 and f = "\<lambda>f. f"]
  have "reads_dir a n i (u_put a (replicate 32 0) ?t, tl h)"
    using reads_dir_put(1) [OF t(1), of "replicate 32 0"] up(5) by (simp add: reads_dir_def)
  then show ?thesis using r(1,4) assms(3) by (auto simp del: u_put_simps)
qed

lemma kernel_dir_next:
  assumes "reads_dir a n i (s, h)" and "dir_items i s = x # xs" and "32 \<le> length b" and "length b \<le> n"
  shows "\<exists>b' w'. os_read (kernel_os a ru e1 e2) (int i) b (int 32) (s, h) = Some (int (length x), b', w') \<and> reads_dir a n i w'
    \<and> kernel_shown w' = kernel_shown (s, h) \<and> dir_items i (fst w') = xs \<and> length b' = length b \<and> take (length x) b' = x"
proof -
  let ?t = "u_put a b s"
  note t = reads_dir_put [OF assms(1,4)]
  have up: "uproc a n s" "uproc a n ?t" "i < 8" "2 \<le> i" "32 \<le> n" "file_ops (cur_fd ?t i) = dir_jt" and inv: "dir_inv i (user_ptr a ?t) ?t"
    using t(1) assms(1) by (simp_all add: reads_dir_def)
  have items: "dir_items i ?t = x # xs" using t(2) assms(2) by simp
  then have lt: "fd_off i ?t < num_entries ?t" by (cases "fd_off i ?t < num_entries ?t") (simp_all add: dir_items_def)
  note st = dir_inv_step [OF inv lt]
  have x: "entry_name ?t (fd_off i ?t) = x" using st(2) items by simp
  let ?y = "pad0 32 x"
  let ?s' = "upd_fd (cur_pcb ?t) i (\<lambda>f. f\<lparr>file_pos := file_pos f + 1\<rparr>) (u_put a ?y ?t)"
  have rd: "fsys_read_dir i (user_ptr a ?t) (int 32) ?t = Some (int (length x), ?s')"
    using fsys_read_dir_spec [OF inv lt] x by (simp add: u_put_def)
  have inv': "dir_inv i (user_ptr a ?t) ?s'" "dir_items i ?s' = xs" using st [unfolded x] items by (simp_all add: u_put_def [of a ?y])
  have lx: "length x \<le> 32" using x length_entry_name [of ?t "fd_off i ?t"] by simp
  then have len: "length ?y \<le> length b" "take (length x) ?y = x" using assms(3) by (simp_all add: length_pad0) (simp add: pad0_def)
  have "do_call (case h of [] \<Rightarrow> [] | hs # _ \<Rightarrow> hs) 3 (of_int (int i)) a (of_int (int 32)) ?t = Some (int (length x), ?s')"
    using sys_read_dir [OF up(2,3,5,6)] rd by simp
  note r = kernel_read_stores [OF up(1) assms(4) len this refl up(4)]
  have "user_ptr a ?s' = user_ptr a ?t" using ustep_kept(1) [OF up(1) r(2)] u_put_step(3) [OF up(1) assms(4)] by simp
  then have "reads_dir a n i (?s', tl h)"
    using r(3) up inv'(1) by (simp add: reads_dir_def) (simp add: cur_fd_def)
  then show ?thesis using r(1,4,5) inv'(2) len by (intro exI [of _ "?y @ drop (length ?y) b"] exI [of _ "(?s', tl h)"]) simp
qed

lemma kernel_dir_write:
  assumes "reads_dir a n i (s, h)" and "m \<le> length b" and "length b \<le> n"
  shows "\<exists>w'. os_write (kernel_os a ru e1 e2) 1 b (int m) (s, h) = Some (int m, w') \<and> reads_dir a n i w'
    \<and> kernel_shown w' = kernel_display (take m b) (kernel_shown (s, h)) \<and> dir_items i (fst w') = dir_items i s"
proof -
  have up: "uproc a n s" "dir_inv i (user_ptr a s) s" using assms(1) by (simp_all add: reads_dir_def)
  obtain s' where s': "os_write (kernel_os a ru e1 e2) 1 b (int m) (s, h) = Some (int m, s', h)" "ustep a n s s'" "pcbs s' = pcbs s"
    "uproc a n s'" "kernel_shown (s', h) = kernel_display (take m b) (kernel_shown (s, h))"
    using kernel_write_spec [OF up(1) assms(2,3)] by blast
  have fd: "cur_fd s' i = cur_fd s i" using s'(2,3) by (simp add: cur_fd_def ustep_def)
  note f = dir_inv_same [OF ustep_kept(3) [OF up(1) s'(2)] fd up(2)]
  have "reads_dir a n i (s', h)"
    using assms(1) f(1) fd s'(4) ustep_kept(1) [OF up(1) s'(2)] by (simp add: reads_dir_def)
  then show ?thesis using s'(1,5) f(2) by auto
qed

lemma dir_items_size: "dir_inv i p s \<Longrightarrow> x \<in> set (dir_items i s) \<Longrightarrow> x \<noteq> [] \<and> length x \<le> 32"
  using length_entry_name by (auto simp: dir_items_def dir_inv_def wf_entry_def)

interpretation dirf: reader_os "kernel_os a ru e1 e2" "reads_dir a n i" kernel_shown kernel_display n "int i" "\<lambda>w. dir_items i (fst w)" 32
  for a ru e1 e2 n i
proof
  fix w :: uworld and m and b :: bytes
  assume *: "reads_dir a n i w" "m \<le> length b" "length b \<le> n"
  then show "\<exists>w'. os_write (kernel_os a ru e1 e2) 1 b (int m) w = Some (int m, w') \<and> reads_dir a n i w' \<and> kernel_shown w' = kernel_display (take m b) (kernel_shown w)"
    using kernel_dir_write [of a n i "fst w" "snd w" m b ru e1 e2] by auto
  fix r w'
  assume "os_write (kernel_os a ru e1 e2) 1 b (int m) w = Some (r, w')"
  then show "dir_items i (fst w') = dir_items i (fst w)"
    using * kernel_dir_write [of a n i "fst w" "snd w" m b ru e1 e2] by auto
next
  fix w :: uworld and b :: bytes
  assume "reads_dir a n i w" "dir_items i (fst w) = []" "32 \<le> length b" "length b \<le> n"
  then show "\<exists>b' w'. os_read (kernel_os a ru e1 e2) (int i) b (int 32) w = Some (0, b', w') \<and> reads_dir a n i w' \<and> kernel_shown w' = kernel_shown w"
    using kernel_dir_end [of a n i "fst w" "snd w" b ru e1 e2] by auto
next
  fix w :: uworld and b :: bytes and x xs
  assume "reads_dir a n i w" "dir_items i (fst w) = x # xs" "32 \<le> length b" "length b \<le> n"
  then show "\<exists>b' w'. os_read (kernel_os a ru e1 e2) (int i) b (int 32) w = Some (int (length x), b', w') \<and> reads_dir a n i w' \<and> kernel_shown w' = kernel_shown w
    \<and> dir_items i (fst w') = xs \<and> length b' = length b \<and> take (length x) b' = x"
    using kernel_dir_next [of a n i "fst w" "snd w" x xs b ru e1 e2] by auto
next
  fix w :: uworld and x
  assume "reads_dir a n i w" "x \<in> set (dir_items i (fst w))"
  then show "x \<noteq> [] \<and> length x \<le> 32" using dir_items_size [of i "user_ptr a (fst w)" "fst w" x] by (simp add: reads_dir_def)
qed (simp_all add: kernel_display_def run_append)

subsection \<open>Opening and closing\<close>

lemma open_target_same:
  assumes im: "same_image s t" and wf: "wf_dir s" and fd: "io_files (pcbs t (cur_pcb t)) = io_files (pcbs s (cur_pcb s))"
  shows "wf_dir t" and "open_target t name = open_target s name" and "i < num_entries s \<Longrightarrow> entry_ino t i = entry_ino s i"
proof -
  note c = same_image_counts [OF im] and e = same_image_entry [OF im wf]
  show "wf_dir t" using wf im by (simp add: wf_dir_def wf_image_def same_image_def c)
  have sz: "64 * Suc j + 40 \<le> img_size s" if "j < num_entries s" for j using wf that by (simp add: wf_dir_def img_size_def)
  have ty: "entry_type t j = entry_type s j" "entry_ino t j = entry_ino s j" if "j < num_entries s" for j
    using same_image_ld32 [OF im, of "64 * Suc j + 32"] same_image_ld32 [OF im, of "64 * Suc j + 36"] sz [OF that]
    by (simp_all add: entry_type_def entry_ino_def c del: mult_Suc_right)
  show "i < num_entries s \<Longrightarrow> entry_ino t i = entry_ino s i" by (rule ty)
  have lk: "dir_lookup t name = dir_lookup s name" unfolding dir_lookup_def c by (rule find_cong) (simp_all add: e)
  have "j < num_entries s" if "dir_lookup s name = Some j" for j using that by (auto simp: dir_lookup_def find_Some_iff)
  then show "open_target t name = open_target s name"
    by (cases "dir_lookup s name") (simp_all add: open_target_def lk ty fd)
qed

lemma ustep_locals:
  assumes "uproc a n s" and "locals_only (mem s') s" and "cr3 s' = cr3 s" "fs_addr s' = fs_addr s" "sched_term_id s' = sched_term_id s"
    "color s' = color s" "cur_pcb s' = cur_pcb s" "terminals s' = terminals s"
  shows "ustep a n s s'" and "kernel_shown (s', h') = kernel_shown (s, h'')"
proof -
  show "ustep a n s s'" using assms unfolding ustep_def screen_ptr_def locals_only_def uproc_def by metis
  have "mem s' (Phys, x) = mem s (Phys, x)" for x using assms(2) by (simp add: locals_only_def)
  then show "kernel_shown (s', h') = kernel_shown (s, h'')"
    using assms by (simp add: kernel_shown_def abs_screen_def screen_rows_def screen_byte_def padd_def)
qed

lemma open_target_ops:
  assumes "open_target s name = Some (i, j, ops)" and "ops \<noteq> rtc_jt"
  shows "ops = regf_jt \<or> ops = dir_jt" and "i < 8" and "j < num_entries s" and "dir_lookup s name = Some j"
  using assms first_free_less by (auto simp: open_target_def Option.bind_eq_Some_conv tableaux_def dir_lookup_def find_Some_iff split: if_splits)

text \<open>What the descriptors are after an \<^verbatim>\<open>open\<close>.\<close>

definition opened :: "kernel \<Rightarrow> bytes \<Rightarrow> nat \<Rightarrow> fdesc_t" where
  "opened s name = (case open_target s name of
     None \<Rightarrow> cur_fd s
   | Some (i, j, ops) \<Rightarrow> (cur_fd s)(i := \<lparr>file_ops = ops, inode = entry_ino s j, file_pos = 0, flags = IN_USE\<rparr>))"

lemma sys_open_step:
  assumes up: "uproc a n s" and wf: "wf_dir s" and nm: "cstr fname name" "\<not> device_name name"
    and reg: "\<And>i j ops. open_target s name = Some (i, j, ops) \<Longrightarrow> ops \<noteq> rtc_jt"
  shows "\<exists>s'. sys_open fname s = Some (case open_target s name of None \<Rightarrow> -1 | Some (i, _) \<Rightarrow> int i, s')
    \<and> ustep a n s s' \<and> cur_fd s' = opened s name \<and> kernel_shown (s', h') = kernel_shown (s, h'')"
proof -
  have cur: "cur_pcb s \<noteq> 0" using up by (simp add: uproc_def)
  obtain m where lo: "locals_only m s" and op: "sys_open fname s = Some (case open_target s name of
      None \<Rightarrow> (-1, s\<lparr>mem := m\<rparr>)
    | Some (i, j, ops) \<Rightarrow> (int i, snd (the (op_open ops) (upd_fd (cur_pcb s) i
        (\<lambda>d. d\<lparr>file_pos := 0, flags := IN_USE, inode := entry_ino s j, file_ops := ops\<rparr>) (s\<lparr>mem := m\<rparr>)))))"
    using sys_open_spec [OF wf nm cur] by blast
  show ?thesis
  proof (cases "open_target s name")
    case None
    then show ?thesis using op ustep_locals [OF up, of "s\<lparr>mem := m\<rparr>"] lo by (simp add: opened_def) (simp add: cur_fd_def fun_eq_iff)
  next
    case (Some t)
    obtain i j ops where t: "t = (i, j, ops)" by (cases t)
    let ?s = "upd_fd (cur_pcb s) i (\<lambda>d. d\<lparr>file_pos := 0, flags := IN_USE, inode := entry_ino s j, file_ops := ops\<rparr>) (s\<lparr>mem := m\<rparr>)"
    have "snd (the (op_open ops) u) = u" for u using open_target_ops(1) [of s name i j ops] Some t reg
      by (auto simp: fsys_open_file_def fsys_open_dir_def)
    moreover have "d\<lparr>file_pos := 0, flags := IN_USE, inode := entry_ino s j, file_ops := ops\<rparr> = \<lparr>file_ops = ops, inode = entry_ino s j, file_pos = 0, flags = IN_USE\<rparr>" for d
      by (cases d) simp
    ultimately show ?thesis using op Some t ustep_locals [OF up, of ?s] lo
      by (simp add: opened_def) (simp add: cur_fd_def fun_eq_iff)
  qed
qed

lemma cstr_put:
  assumes "uproc a n s" and "0 \<notin> set name" and "length (name @ 0 # r) \<le> n"
  shows "cstr (rdr (mem (u_put a (name @ 0 # r) s)) (user_ptr a s)) name"
proof -
  have n: "n < 2 ^ 31" using assms(1) by (simp add: uproc_def)
  have "rdr (mem (u_put a (name @ 0 # r) s)) (user_ptr a s) k = (name @ 0 # r) ! k" if "k \<le> length name" for k
    using n assms(3) that unfolding u_put_simps rdr_def by (subst write_list_padd) simp_all
  then show ?thesis using assms(2) by (simp add: cstr_def nth_append)
qed

lemma opened_same:
  assumes "same_image s t" and "wf_dir s" and "cur_fd t = cur_fd s"
  shows "opened t name = opened s name" and "open_target t name = open_target s name"
proof -
  have fd: "io_files (pcbs t (cur_pcb t)) = io_files (pcbs s (cur_pcb s))" using assms(3) by (simp add: cur_fd_def fun_eq_iff)
  note o = open_target_same [OF assms(1,2) fd]
  show ot: "open_target t name = open_target s name" by (rule o(2))
  have "j < num_entries s" if "open_target s name = Some (i, j, ops)" for i j ops
    using that by (auto simp: open_target_def Option.bind_eq_Some_conv dir_lookup_def find_Some_iff)
  then show "opened t name = opened s name" unfolding opened_def ot assms(3) by (auto simp: o(3) split: option.split)
qed

lemma kernel_open_spec:
  assumes up: "uproc a n s" and wf: "wf_dir s" and nm: "0 \<notin> set name" "length (name @ 0 # r) \<le> n" "\<not> device_name name"
    and reg: "\<And>i j ops. open_target s name = Some (i, j, ops) \<Longrightarrow> ops \<noteq> rtc_jt \<and> 2 \<le> i"
  shows "\<exists>s'. os_open (kernel_os a ru e1 e2) (name @ 0 # r) (s, h) = Some (case open_target s name of None \<Rightarrow> -1 | Some (i, _) \<Rightarrow> int i, s', h)
    \<and> ustep a n s s' \<and> uproc a n s' \<and> cur_fd s' = opened s name \<and> kernel_shown (s', h') = kernel_shown (s, h'')"
proof -
  let ?t = "u_put a (name @ 0 # r) s"
  note p = u_put_step [OF up nm(2)]
  have im: "same_image s ?t" by (rule ustep_kept(3) [OF up p(1)])
  have fd: "cur_fd ?t = cur_fd s" by (simp add: fun_eq_iff)
  note o = opened_same [OF im wf fd, of name]
  have wft: "wf_dir ?t" using open_target_same(1) [OF im wf] fd by (simp add: cur_fd_def fun_eq_iff)
  obtain s' where s': "sys_open (rdr (mem ?t) (user_ptr a ?t)) ?t = Some (case open_target ?t name of None \<Rightarrow> -1 | Some (i, _) \<Rightarrow> int i, s')"
    "ustep a n ?t s'" "cur_fd s' = opened ?t name" "kernel_shown (s', h') = kernel_shown (?t, h'')"
    using sys_open_step [OF p(2) wft _ nm(3), of "rdr (mem ?t) (user_ptr a ?t)" h' h''] cstr_put [OF up nm(1,2)] reg o(2) p(3) by auto
  have st: "ustep a n s s'" by (rule ustep_trans [OF up p(1) s'(2)])
  have "opened s name 1 = cur_fd s 1" using reg by (fastforce simp: opened_def split: option.split)
  then have "cur_fd s' 1 = cur_fd s 1" using s'(3) o(1) by simp
  then have "uproc a n s'" using up by (intro uproc_step [OF up st]) (simp add: uproc_def)
  moreover have "os_open (kernel_os a ru e1 e2) (name @ 0 # r) (s, h) = Some (case open_target s name of None \<Rightarrow> -1 | Some (i, _) \<Rightarrow> int i, s', h)"
    using s'(1) o(2) by (simp add: kernel_os_def kernel_call_def do_call_open)
  moreover have "kernel_shown (?t, h'') = kernel_shown (s, h'')" using p(4) by (simp add: kernel_shown_def)
  ultimately show ?thesis using st s'(3,4) o(1) by auto
qed

lemma kernel_close_spec:
  assumes up: "uproc a n s" and i: "2 \<le> i" "i < 8" and op: "op_close (file_ops (cur_fd s i)) \<noteq> None"
  shows "\<exists>s'. os_close (kernel_os a ru e1 e2) (int i) (s, h) = Some (0, s', h) \<and> ustep a n s s' \<and> uproc a n s'
    \<and> cur_fd s' = (cur_fd s)(i := (cur_fd s i)\<lparr>flags := NOT_USED, file_ops := empty_f_ops_tab\<rparr>) \<and> kernel_shown (s', h') = kernel_shown (s, h'')"
proof -
  have cur: "cur_pcb s \<noteq> 0" using up by (simp add: uproc_def)
  let ?s = "upd_fd (cur_pcb s) i (\<lambda>f. f\<lparr>flags := NOT_USED, file_ops := empty_f_ops_tab\<rparr>) s"
  have st: "ustep a n s ?s" by (rule ustep_upd_fd [OF ustep_refl [OF up]])
  have fd: "cur_fd ?s = (cur_fd s)(i := (cur_fd s i)\<lparr>flags := NOT_USED, file_ops := empty_f_ops_tab\<rparr>)" by (auto simp: cur_fd_def fun_eq_iff)
  have "uproc a n ?s" using up i by (intro uproc_step [OF up st]) (simp add: fd uproc_def)
  moreover have "do_call [] 6 (of_int (int i)) 0 0 s = Some (sys_close (int i) s)" using i by (subst do_call_eqs(3) [of _ 0]) simp_all
  ultimately show ?thesis using sys_close_spec [OF i cur op] st fd
    by (intro exI [of _ ?s]) (simp add: kernel_os_def kernel_call_def kernel_shown_def abs_screen_def)
qed

lemma kernel_getargs_spec:
  assumes up: "uproc a n s" and b: "length b \<le> n" "m \<le> length b"
    and arg: "cstr (rdr (mem s) (PcbArg (cur_pcb s), 0)) arg" "arg \<noteq> []" "length arg < m"
  shows "\<exists>s'. os_getargs (kernel_os a ru e1 e2) b (int m) (s, h) = Some (0, arg @ 0 # drop (Suc (length arg)) b, s', h) \<and> ustep a n s s'
    \<and> uproc a n s' \<and> cur_fd s' = cur_fd s \<and> kernel_shown (s', h') = kernel_shown (s, h'')"
proof -
  let ?t = "u_put a b s" and ?y = "arg @ [0]"
  let ?s = "upd_fd 0 2 (\<lambda>f. f) (u_put a ?y ?t)"
  have y: "length ?y \<le> length b" using arg(3) b(2) by simp
  note st = stored [OF up b(1) y refl, of 2 0 "\<lambda>f. f"]
  have n: "n < 2 ^ 31" "a \<noteq> 0" using up by (simp_all add: uproc_def)
  have "cstr (rdr (mem ?t) (PcbArg (cur_pcb ?t), 0)) arg"
    using arg(1) by (simp add: cstr_def rdr_def padd_def write_list_other_block user_ptr_def)
  from sys_getargs_spec [OF this, of a "int m"] have "sys_getargs a (int m) ?t = Some (0, ?s)"
    using arg b n by (simp add: u_put_def [of a ?y] upd_mem_def)
  then have "do_call [] 7 a (of_int (int m)) 0 ?t = Some (0, ?s)" using n b by (subst do_call_eqs(4) [of 0]) simp_all
  then have "os_getargs (kernel_os a ru e1 e2) b (int m) (s, h) = Some (0, arg @ 0 # drop (Suc (length arg)) b, ?s, h)"
    using st(1) by (simp add: kernel_os_def)
  moreover have "cur_fd ?s = cur_fd s" by (simp add: fun_eq_iff)
  ultimately show ?thesis using st(2-4) by (intro exI [of _ ?s]) simp
qed

subsection \<open>cat and ls\<close>

lemma opened_at: "open_target s name = Some (i, j, ops) \<Longrightarrow> opened s name i = \<lparr>file_ops = ops, inode = entry_ino s j, file_pos = 0, flags = IN_USE\<rparr>"
  by (simp add: opened_def)

lemma cat_spec:
  assumes up: "uproc a n s" and wf: "wf_dir s" and b: "length buf = 1024" "1024 \<le> n"
    and arg: "cstr (rdr (mem s) (PcbArg (cur_pcb s), 0)) arg" "arg \<noteq> []" "length arg < 1024" "\<not> device_name arg"
    and f: "open_target s arg = Some (i, j, regf_jt)" "2 \<le> i" "wf_file s (unat (entry_ino s j))"
  shows "\<exists>w'. cat_main (kernel_os a ru e1 e2) buf (s, h) = Some (0, w')
    \<and> kernel_shown w' = kernel_display (file_bytes s (unat (entry_ino s j))) (kernel_shown (s, h))"
proof -
  let ?os = "kernel_os a ru e1 e2" and ?ino = "unat (entry_ino s j)" and ?b = "arg @ 0 # drop (Suc (length arg)) buf"
  have lb: "length ?b = 1024" using arg(3) b(1) by simp
  obtain s1 where s1: "os_getargs ?os buf (int 1024) (s, h) = Some (0, ?b, s1, h)" "ustep a n s s1" "uproc a n s1"
    "cur_fd s1 = cur_fd s" "kernel_shown (s1, h) = kernel_shown (s, h)"
    using kernel_getargs_spec [OF up, of buf 1024 arg ru e1 e2 h h h] b arg(1-3) by auto
  have im: "same_image s s1" by (rule ustep_kept(3) [OF up s1(2)])
  have wf1: "wf_dir s1" using open_target_same(1) [OF im wf] s1(4) by (simp add: cur_fd_def fun_eq_iff)
  note o = opened_same [OF im wf s1(4), of arg]
  have nz: "0 \<notin> set arg" using arg(1) by (simp add: cstr_def)
  obtain s2 where s2: "os_open ?os ?b (s1, h) = Some (int i, s2, h)" "ustep a n s1 s2" "uproc a n s2" "cur_fd s2 = opened s arg"
    "kernel_shown (s2, h) = kernel_shown (s1, h)"
    using kernel_open_spec [OF s1(3) wf1 nz _ arg(4), of "drop (Suc (length arg)) buf" ru e1 e2 h h h] lb b o f(1,2) by auto
  have im2: "same_image s s2" by (rule ustep_kept(3) [OF up ustep_trans [OF up s1(2) s2(2)]])
  have fd: "file_ops (cur_fd s2 i) = regf_jt" "fd_ino i s2 = ?ino" "fd_off i s2 = 0"
    by (simp_all add: fd_ino_def fd_off_def s2(4) opened_at [OF f(1)])
  have wfi: "wf_image s" using up by (simp add: uproc_def)
  note ff = same_image_file [OF im2 wfi f(3)]
  have img: "img_separate s2 (user_ptr a s2) n" "n < 2 ^ 31" "wf_image s2" using s2(3) by (simp_all add: uproc_def)
  have inv: "reads_file a n i 1024 (s2, h)"
    using s2(3) f(2) open_target_ops(2) [OF f(1)] b fd ff f(3) img img_separate_le [OF img(1), of 1024] by (simp add: reads_file_def file_inv_def)
  have items: "concat (file_items i 1024 s2) = file_bytes s ?ino"
    unfolding file_items_def fd(2,3) using ff by (subst concat_chunks) (simp_all add: file_bytes_def)
  obtain w where "cat_loop ?os (int i) ?b (s2, h) = Some (0, w)" "kernel_shown w = kernel_display (file_bytes s ?ino) (kernel_shown (s2, h))"
    using regf.cat_loop_shows [of 1024 ?b n a i "(s2, h)" ru e1 e2] inv items lb b(2) by auto
  then show ?thesis using s1(1,5) s2(1,5) f(2) by (simp add: cat_main_def)
qed

lemma ls_spec:
  assumes up: "uproc a n s" and wf: "wf_dir s" and b: "length buf = 33" "33 \<le> n" and e: "\<forall>k < num_entries s. wf_entry s k"
    and f: "open_target s (bytes_of ''.'') = Some (i, j, dir_jt)" "2 \<le> i"
  shows "\<exists>w'. ls_main (kernel_os a ru e1 e2) buf (s, h) = Some (0, w')
    \<and> kernel_shown w' = kernel_display (concat (map (\<lambda>k. entry_name s k @ [10]) [0..<num_entries s])) (kernel_shown (s, h))"
proof -
  let ?os = "kernel_os a ru e1 e2"
  have dot: "text_of ''.'' = bytes_of ''.'' @ 0 # []" "\<not> device_name (bytes_of ''.'')" "0 \<notin> set (bytes_of ''.'')" by (simp_all add: text_of_def device_name_def)
  obtain s2 where s2: "os_open ?os (text_of ''.'') (s, h) = Some (int i, s2, h)" "ustep a n s s2" "uproc a n s2" "cur_fd s2 = opened s (bytes_of ''.'')"
    "kernel_shown (s2, h) = kernel_shown (s, h)"
    using kernel_open_spec [OF up wf dot(3) _ dot(2), of "[]" ru e1 e2 h h h] b f(1,2) unfolding dot(1) by auto
  have im2: "same_image s s2" by (rule ustep_kept(3) [OF up s2(2)])
  note c = same_image_counts [OF im2] and ee = same_image_entry [OF im2 wf]
  have fd: "file_ops (cur_fd s2 i) = dir_jt" "fd_off i s2 = 0" unfolding fd_off_def s2(4) opened_at [OF f(1)] by simp_all
  have img: "img_separate s2 (user_ptr a s2) n" "wf_image s2" using s2(3) by (simp_all add: uproc_def)
  have "dir_inv i (user_ptr a s2) s2"
    using wf e img img_separate_le [OF img(1), of 32] b(2) by (simp add: dir_inv_def wf_dir_def c ee)
  then have inv: "reads_dir a n i (s2, h)" using s2(3) f(2) open_target_ops(2) [OF f(1)] b fd by (simp add: reads_dir_def)
  have items: "map (\<lambda>x. x @ [10]) (dir_items i s2) = map (\<lambda>k. entry_name s k @ [10]) [0..<num_entries s]"
    by (simp add: dir_items_def fd c ee)
  obtain w where "ls_loop ?os (int i) buf (s2, h) = Some (0, w)"
    "kernel_shown w = kernel_display (concat (map (\<lambda>x. x @ [10]) (dir_items i s2))) (kernel_shown (s2, h))"
    using dirf.ls_loop_shows [of buf n a i "(s2, h)" ru e1 e2] inv b by auto
  then show ?thesis using s2(1,5) f(2) items by (simp add: ls_main_def)
qed

subsection \<open>The kernel passes the tests of syserr\<close>

text \<open>
  The names the tests use: the directory has an entry for itself and none for the misspelt names. A descriptor above
  1 is free or open on the directory.
\<close>

definition test_names :: "kernel \<Rightarrow> bool" where
  "test_names s \<longleftrightarrow> wf_dir s \<and> (\<exists>j. dir_lookup s (bytes_of ''.'') = Some j \<and> entry_type s j = 1)
     \<and> dir_lookup s (bytes_of ''helloo'') = None \<and> dir_lookup s (bytes_of ''shel'') = None \<and> dir_lookup s [] = None"

definition test_fds :: "(nat \<Rightarrow> fdesc_t) \<Rightarrow> bool" where
  "test_fds io \<longleftrightarrow> file_ops (io 0) = stdin \<and> flags (io 0) \<noteq> NOT_USED \<and> file_ops (io 1) = stdout \<and> flags (io 1) \<noteq> NOT_USED
     \<and> (\<forall>i. 2 \<le> i \<and> i < 8 \<longrightarrow> file_ops (io i) = (if flags (io i) = NOT_USED then empty_f_ops_tab else dir_jt))"

definition tested :: "u32 \<Rightarrow> nat \<Rightarrow> uworld \<Rightarrow> bool" where
  "tested a n w \<longleftrightarrow> 64 \<le> n \<and> uproc a n (fst w) \<and> test_names (fst w) \<and> test_fds (cur_fd (fst w))"

definition used_fds :: "(nat \<Rightarrow> fdesc_t) \<Rightarrow> nat set" where
  "used_fds io = {i. 2 \<le> i \<and> i < 8 \<and> flags (io i) \<noteq> NOT_USED}"

lemma dir_lookup_same:
  assumes im: "same_image s t" and wf: "wf_dir s"
  shows "dir_lookup t name = dir_lookup s name" and "dir_lookup s name = Some j \<Longrightarrow> entry_type t j = entry_type s j"
proof -
  note c = same_image_counts [OF im] and e = same_image_entry [OF im wf]
  show "dir_lookup t name = dir_lookup s name" unfolding dir_lookup_def c by (rule find_cong) (simp_all add: e)
  assume "dir_lookup s name = Some j"
  then have "j < num_entries s" by (auto simp: dir_lookup_def find_Some_iff)
  then have "64 * Suc j + 36 \<le> img_size s" using wf by (simp add: wf_dir_def img_size_def)
  then show "entry_type t j = entry_type s j"
    using same_image_ld32 [OF im, of "64 * Suc j + 32"] by (simp add: entry_type_def c del: mult_Suc_right)
qed

lemma test_names_same:
  assumes im: "same_image s t" and nm: "test_names s"
  shows "test_names t"
proof -
  have wf: "wf_dir s" using nm by (simp add: test_names_def)
  then have "wf_dir t" using im by (simp add: wf_dir_def wf_image_def same_image_def same_image_counts [OF im])
  then show ?thesis using nm dir_lookup_same(2) [OF im wf] unfolding test_names_def dir_lookup_same(1) [OF im wf] by metis
qed

lemma unused_ops:
  assumes "test_fds io" and "2 \<le> fd" and "fd < 8" and "fd \<notin> int ` used_fds io"
  shows "file_ops (io (nat fd)) = empty_f_ops_tab"
proof -
  obtain i where i: "fd = int i" using assms(2) nonneg_int_cases [of fd] by auto
  then have "2 \<le> i" "i < 8" "i \<notin> used_fds io" using assms(2-4) by auto
  then show ?thesis using assms(1) i by (auto simp: test_fds_def used_fds_def)
qed

lemma tested_step:
  assumes "tested a n (s, h)" and "ustep a n s s'" and "test_fds (cur_fd s')"
  shows "tested a n (s', h')"
proof -
  have up: "uproc a n s" using assms(1) by (simp add: tested_def)
  show ?thesis using assms uproc_step [OF up assms(2)] test_names_same [OF ustep_kept(3) [OF up assms(2)]]
    by (simp add: tested_def test_fds_def)
qed

lemma tested_keeps:
  assumes "tested a n (s, h)" and "ustep a n s s'" and "cur_fd s' = cur_fd s" and "kernel_shown (s', h') = kernel_shown (s, h)"
  shows "keeps (tested a n) kernel_shown (\<lambda>w. used_fds (cur_fd (fst w))) (s, h) (s', h')"
proof -
  have "test_fds (cur_fd s')" using assms(1,3) by (simp add: tested_def)
  then show ?thesis using tested_step [OF assms(1,2)] assms(3,4) by (simp add: keeps_def)
qed

lemma tested_put:
  assumes "tested a n (s, h)" and "length b \<le> n"
  shows "keeps (tested a n) kernel_shown (\<lambda>w. used_fds (cur_fd (fst w))) (s, h) (u_put a b s, h')"
proof -
  note p = u_put_step [of a n s b]
  show ?thesis using assms p by (intro tested_keeps [OF assms(1)]) (simp_all add: tested_def kernel_shown_def fun_eq_iff)
qed

lemma kernel_bad_read:
  assumes t: "tested a n (s, h)" and fd: "- (2 ^ 31) \<le> fd" "fd < 2 ^ 31" "fd \<notin> insert 0 (int ` used_fds (cur_fd s))" and b: "length b = 32"
  shows "\<exists>b' w'. os_read (kernel_os a ru e1 e2) fd b 31 (s, h) = Some (-1, b', w') \<and> length b' = 32
    \<and> keeps (tested a n) kernel_shown (\<lambda>w. used_fds (cur_fd (fst w))) (s, h) w'"
proof -
  let ?t = "u_put a b s"
  have no: "op_read (file_ops (cur_fd s (nat fd))) = None" if "0 \<le> fd" "fd < 8"
    using fd(3) that t unused_ops [of "cur_fd s" fd] by (cases "fd = 1") (simp_all add: tested_def test_fds_def)
  have "sys_read hs fd a 31 ?t = Some (-1, ?t)" for hs using no by (auto simp: sys_read_def)
  then have "do_call hs 3 (of_int fd) a (of_int 31) ?t = Some (-1, ?t)" for hs using do_call_eqs(1) [OF fd(1,2), of 31] by simp
  then have "os_read (kernel_os a ru e1 e2) fd b 31 (s, h) = Some (-1, u_get a 32 ?t, ?t, tl h)"
    using b by (simp add: kernel_os_def kernel_read_def)
  moreover have "length (u_get a 32 ?t) = 32" by (simp add: u_get_def)
  moreover have "length b \<le> n" using b t by (simp add: tested_def)
  ultimately show ?thesis using tested_put [OF t, of b "tl h"] by blast
qed

lemma kernel_bad_write:
  assumes t: "tested a n (s, h)" and fd: "- (2 ^ 31) \<le> fd" "fd < 2 ^ 31" "fd \<notin> insert 1 (int ` used_fds (cur_fd s))" and b: "length b = 32"
  shows "\<exists>w'. os_write (kernel_os a ru e1 e2) fd b 31 (s, h) = Some (-1, w')
    \<and> keeps (tested a n) kernel_shown (\<lambda>w. used_fds (cur_fd (fst w))) (s, h) w'"
proof -
  let ?t = "u_put a b s"
  have no: "op_write (file_ops (cur_fd s (nat fd))) = None" if "0 \<le> fd" "fd < 8"
    using fd(3) that t unused_ops [of "cur_fd s" fd] by (cases "fd = 0") (simp_all add: tested_def test_fds_def)
  have "sys_write fd a 31 ?t = (-1, ?t)" using no by (auto simp: sys_write_def)
  then have "do_call [] 4 (of_int fd) a (of_int 31) ?t = Some (-1, ?t)" using do_call_eqs(2) [OF fd(1,2), of 31] by simp
  then have "os_write (kernel_os a ru e1 e2) fd b 31 (s, h) = Some (-1, ?t, h)" by (simp add: kernel_os_def kernel_call_def)
  moreover have "length b \<le> n" using b t by (simp add: tested_def)
  ultimately show ?thesis using tested_put [OF t, of b h] by blast
qed

lemma kernel_unchanged:
  assumes "tested a n (s, h)"
  shows "keeps (tested a n) kernel_shown (\<lambda>w. used_fds (cur_fd (fst w))) (s, h) (s, h)"
  using assms by (simp add: keeps_def)

lemma kernel_bad_close:
  assumes t: "tested a n (s, h)" and fd: "- (2 ^ 31) \<le> fd" "fd < 2 ^ 31" "fd \<notin> int ` used_fds (cur_fd s)"
  shows "\<exists>w'. os_close (kernel_os a ru e1 e2) fd (s, h) = Some (-1, w')
    \<and> keeps (tested a n) kernel_shown (\<lambda>w. used_fds (cur_fd (fst w))) (s, h) w'"
proof -
  have no: "op_close (file_ops (cur_fd s (nat fd))) = None" if "2 \<le> fd" "fd < 8"
    using fd(3) that t unused_ops [of "cur_fd s" fd] by (simp add: tested_def)
  have "sys_close fd s = (-1, s)" using no by (auto simp: sys_close_def)
  then have "do_call [] 6 (of_int fd) 0 0 s = Some (-1, s)" using do_call_eqs(3) [OF fd(1,2), of 0] by simp
  then have "os_close (kernel_os a ru e1 e2) fd (s, h) = Some (-1, s, h)" by (simp add: kernel_os_def kernel_call_def)
  then show ?thesis using kernel_unchanged [OF t] by blast
qed

lemma kernel_close_used:
  assumes t: "tested a n (s, h)" and i: "i \<in> used_fds (cur_fd s)"
  shows "\<exists>w'. os_close (kernel_os a ru e1 e2) (int i) (s, h) = Some (0, w') \<and> tested a n w' \<and> kernel_shown w' = kernel_shown (s, h)
    \<and> used_fds (cur_fd (fst w')) = used_fds (cur_fd s) - {i}"
proof -
  have up: "uproc a n s" and f: "test_fds (cur_fd s)" using t by (simp_all add: tested_def)
  have i8: "2 \<le> i" "i < 8" "file_ops (cur_fd s i) = dir_jt" using i f by (auto simp: used_fds_def test_fds_def)
  then have "op_close (file_ops (cur_fd s i)) \<noteq> None" by simp
  from kernel_close_spec [OF up i8(1,2) this, of ru e1 e2 h h h]
  obtain s' where s': "os_close (kernel_os a ru e1 e2) (int i) (s, h) = Some (0, s', h)" "ustep a n s s'"
    "cur_fd s' = (cur_fd s)(i := (cur_fd s i)\<lparr>flags := NOT_USED, file_ops := empty_f_ops_tab\<rparr>)" "kernel_shown (s', h) = kernel_shown (s, h)" by blast
  have "test_fds (cur_fd s')" using f i8 by (auto simp: s'(3) test_fds_def)
  then have "tested a n (s', h)" by (rule tested_step [OF t s'(2)])
  moreover have "used_fds (cur_fd s') = used_fds (cur_fd s) - {i}" by (auto simp: s'(3) used_fds_def)
  ultimately show ?thesis using s'(1,4) by auto
qed

lemma first_free_fds:
  assumes "test_fds io"
  shows "first_free io = None \<longleftrightarrow> used_fds io = {2..<8}" and "first_free io = Some i \<Longrightarrow> 2 \<le> i \<and> i < 8 \<and> i \<notin> used_fds io"
proof -
  have low: "flags (io i) \<noteq> NOT_USED" if "i < 2" for i using assms that by (auto simp: test_fds_def less_Suc_eq numeral_2_eq_2)
  have "first_free io = None \<longleftrightarrow> (\<forall>i < 8. flags (io i) \<noteq> NOT_USED)" by (auto simp: first_free_def find_None_iff)
  also have "\<dots> \<longleftrightarrow> used_fds io = {2..<8}" using low by (auto simp: used_fds_def not_le[symmetric])
  finally show "first_free io = None \<longleftrightarrow> used_fds io = {2..<8}" .
  assume "first_free io = Some i"
  then have "i < 8" "flags (io i) = NOT_USED" using first_free_less by auto
  then show "2 \<le> i \<and> i < 8 \<and> i \<notin> used_fds io" using low [of i] by (auto simp: used_fds_def not_le[symmetric])
qed

lemma kernel_open_name:
  assumes t: "tested a n (s, h)" and nm: "0 \<notin> set name" "length name < 60" "\<not> device_name name"
    and lk: "dir_lookup s name = None \<or> (\<exists>j. dir_lookup s name = Some j \<and> entry_type s j = 1)"
  shows "\<exists>s'. os_open (kernel_os a ru e1 e2) (name @ [0]) (s, h) = Some (case open_target s name of None \<Rightarrow> -1 | Some (i, _) \<Rightarrow> int i, s', h)
    \<and> ustep a n s s' \<and> cur_fd s' = opened s name \<and> kernel_shown (s', h) = kernel_shown (s, h)"
proof -
  have up: "uproc a n s" "wf_dir s" "test_fds (cur_fd s)" "64 \<le> n" using t by (simp_all add: tested_def test_names_def)
  have io: "io_files (pcbs s (cur_pcb s)) = cur_fd s" by (simp add: cur_fd_def fun_eq_iff)
  have "ops \<noteq> rtc_jt \<and> 2 \<le> i" if "open_target s name = Some (i, j, ops)" for i j ops
    using that lk first_free_fds(2) [OF up(3)]
    by (auto simp: open_target_def Option.bind_eq_Some_conv tableaux_def io)
  then show ?thesis using kernel_open_spec [OF up(1,2) nm(1) _ nm(3), of "[]" ru e1 e2 h h h] nm(2) up(4) by auto
qed

lemma kernel_bad_name:
  assumes t: "tested a n (s, h)" and nm: "name \<in> {''helloo'', ''shel'', []}"
  shows "\<exists>w'. os_open (kernel_os a ru e1 e2) (text_of name) (s, h) = Some (-1, w')
    \<and> keeps (tested a n) kernel_shown (\<lambda>w. used_fds (cur_fd (fst w))) (s, h) w'"
proof -
  have no: "dir_lookup s (bytes_of name) = None" using t nm by (auto simp: tested_def test_names_def bytes_of_def)
  then have tg: "open_target s (bytes_of name) = None" by (simp add: open_target_def)
  have "0 \<notin> set (bytes_of name)" "length (bytes_of name) < 60" "\<not> device_name (bytes_of name)" using nm by (auto simp: device_name_def)
  then obtain s' where "os_open (kernel_os a ru e1 e2) (text_of name) (s, h) = Some (-1, s', h)" "ustep a n s s'" "cur_fd s' = cur_fd s"
    "kernel_shown (s', h) = kernel_shown (s, h)"
    using kernel_open_name [OF t, of "bytes_of name" ru e1 e2] no tg by (auto simp: text_of_def opened_def)
  then show ?thesis using tested_keeps [OF t] by blast
qed

lemma dot_target:
  assumes "tested a n (s, h)"
  shows "open_target s (bytes_of ''.'') = None \<longleftrightarrow> used_fds (cur_fd s) = {2..<8}"
    and "open_target s (bytes_of ''.'') = Some (i, j, ops) \<Longrightarrow> first_free (cur_fd s) = Some i \<and> ops = dir_jt"
proof -
  have f: "test_fds (cur_fd s)" and io: "io_files (pcbs s (cur_pcb s)) = cur_fd s" using assms by (simp_all add: tested_def cur_fd_def fun_eq_iff)
  obtain k where k: "dir_lookup s (bytes_of ''.'') = Some k" "entry_type s k = 1" using assms by (auto simp: tested_def test_names_def)
  then have tg: "open_target s (bytes_of ''.'') = map_option (\<lambda>i. (i, k, dir_jt)) (first_free (cur_fd s))"
    unfolding open_target_def io k(1) by (cases "first_free (cur_fd s)") (simp_all add: tableaux_def k(2))
  show "open_target s (bytes_of ''.'') = None \<longleftrightarrow> used_fds (cur_fd s) = {2..<8}" unfolding tg using first_free_fds(1) [OF f] by simp
  show "open_target s (bytes_of ''.'') = Some (i, j, ops) \<Longrightarrow> first_free (cur_fd s) = Some i \<and> ops = dir_jt" unfolding tg by auto
qed

lemma kernel_open_dot:
  assumes t: "tested a n (s, h)"
  shows "used_fds (cur_fd s) = {2..<8} \<Longrightarrow> \<exists>w'. os_open (kernel_os a ru e1 e2) (text_of ''.'') (s, h) = Some (-1, w')
      \<and> keeps (tested a n) kernel_shown (\<lambda>w. used_fds (cur_fd (fst w))) (s, h) w'"
    and "used_fds (cur_fd s) \<noteq> {2..<8} \<Longrightarrow> \<exists>i w'. os_open (kernel_os a ru e1 e2) (text_of ''.'') (s, h) = Some (int i, w') \<and> i \<notin> used_fds (cur_fd s)
      \<and> tested a n w' \<and> kernel_shown w' = kernel_shown (s, h) \<and> used_fds (cur_fd (fst w')) = insert i (used_fds (cur_fd s))"
proof -
  have f: "test_fds (cur_fd s)" "dir_lookup s (bytes_of ''.'') = None \<or> (\<exists>j. dir_lookup s (bytes_of ''.'') = Some j \<and> entry_type s j = 1)"
    using t unfolding tested_def test_names_def fst_conv by blast+
  obtain s' where s': "os_open (kernel_os a ru e1 e2) (text_of ''.'') (s, h) = Some (case open_target s (bytes_of ''.'') of None \<Rightarrow> -1 | Some (i, _) \<Rightarrow> int i, s', h)"
    "ustep a n s s'" "cur_fd s' = opened s (bytes_of ''.'')" "kernel_shown (s', h) = kernel_shown (s, h)"
    using kernel_open_name [OF t _ _ _ f(2), of ru e1 e2] by (auto simp: text_of_def device_name_def)
  {
    assume "used_fds (cur_fd s) = {2..<8}"
    then have no: "open_target s (bytes_of ''.'') = None" using dot_target(1) [OF t] by simp
    then show "\<exists>w'. os_open (kernel_os a ru e1 e2) (text_of ''.'') (s, h) = Some (-1, w')
      \<and> keeps (tested a n) kernel_shown (\<lambda>w. used_fds (cur_fd (fst w))) (s, h) w'"
      using s'(1) tested_keeps [OF t s'(2) _ s'(4)] s'(3) unfolding opened_def no by auto
  }
  assume "used_fds (cur_fd s) \<noteq> {2..<8}"
  then obtain i j ops where tg: "open_target s (bytes_of ''.'') = Some (i, j, ops)" using dot_target(1) [OF t] by (metis option.exhaust prod_cases3)
  note d = dot_target(2) [OF t tg]
  have i: "2 \<le> i" "i < 8" "i \<notin> used_fds (cur_fd s)" using first_free_fds(2) [OF f(1)] d by auto
  have fd: "cur_fd s' = (cur_fd s)(i := \<lparr>file_ops = dir_jt, inode = entry_ino s j, file_pos = 0, flags = IN_USE\<rparr>)"
    unfolding s'(3) opened_def tg using d by simp
  have "test_fds (cur_fd s')" using f(1) i by (auto simp: fd test_fds_def)
  then have "tested a n (s', h)" by (rule tested_step [OF t s'(2)])
  moreover have "used_fds (cur_fd s') = insert i (used_fds (cur_fd s))" using i by (auto simp: fd used_fds_def)
  ultimately show "\<exists>i w'. os_open (kernel_os a ru e1 e2) (text_of ''.'') (s, h) = Some (int i, w') \<and> i \<notin> used_fds (cur_fd s)
      \<and> tested a n w' \<and> kernel_shown w' = kernel_shown (s, h) \<and> used_fds (cur_fd (fst w')) = insert i (used_fds (cur_fd s))"
    using s'(1,4) i(3) tg by auto
qed

lemma kernel_tested_write:
  assumes t: "tested a n (s, h)" and "m \<le> length b" and "length b \<le> n"
  shows "\<exists>w'. os_write (kernel_os a ru e1 e2) 1 b (int m) (s, h) = Some (int m, w') \<and> tested a n w'
    \<and> kernel_shown w' = kernel_display (take m b) (kernel_shown (s, h)) \<and> used_fds (cur_fd (fst w')) = used_fds (cur_fd s)"
proof -
  have up: "uproc a n s" "test_fds (cur_fd s)" using t by (simp_all add: tested_def)
  obtain s' where s': "os_write (kernel_os a ru e1 e2) 1 b (int m) (s, h) = Some (int m, s', h)" "ustep a n s s'" "pcbs s' = pcbs s"
    "kernel_shown (s', h) = kernel_display (take m b) (kernel_shown (s, h))"
    using kernel_write_spec [OF up(1) assms(2,3)] by blast
  have fd: "cur_fd s' = cur_fd s" using s'(2,3) by (simp add: cur_fd_def ustep_def fun_eq_iff)
  then show ?thesis using tested_step [OF t s'(2)] up(2) s'(1,4) by auto
qed

lemma kernel_refuses:
  "p < 0x8000000 \<Longrightarrow> os_vidmap (kernel_os a ru e1 e2) p w = Some (-1, w)"
  "- (2 ^ 31) \<le> k \<Longrightarrow> k < 2 ^ 31 \<Longrightarrow> k \<le> 0 \<or> 10 < k \<Longrightarrow> os_trap (kernel_os a ru e1 e2) k w = Some (-1, w)"
  by (cases w; simp add: kernel_os_def kernel_call_def do_call_vidmap do_call_trap sys_vidmap_def)+

interpretation err: error_os "kernel_os a ru e1 e2" "tested a n" kernel_shown kernel_display "max 64 n" "\<lambda>w. used_fds (cur_fd (fst w))"
  for a ru e1 e2 n
proof
  fix w :: uworld and m and b :: bytes
  assume *: "tested a n w" "m \<le> length b" "length b \<le> max 64 n"
  then have **: "length b \<le> n" by (simp add: tested_def)
  show "\<exists>w'. os_write (kernel_os a ru e1 e2) 1 b (int m) w = Some (int m, w') \<and> tested a n w' \<and> kernel_shown w' = kernel_display (take m b) (kernel_shown w)"
    using kernel_tested_write [of a n "fst w" "snd w" m b ru e1 e2] * ** by auto
  fix r w'
  assume "os_write (kernel_os a ru e1 e2) 1 b (int m) w = Some (r, w')"
  then show "used_fds (cur_fd (fst w')) = used_fds (cur_fd (fst w))"
    using kernel_tested_write [of a n "fst w" "snd w" m b ru e1 e2] * ** by auto
next
  fix w :: uworld and fd and b :: bytes
  assume "tested a n w" "- (2 ^ 31) \<le> fd" "fd < 2 ^ 31" "fd \<notin> insert 0 (int ` used_fds (cur_fd (fst w)))" "length b = 32"
  then show "\<exists>b' w'. os_read (kernel_os a ru e1 e2) fd b 31 w = Some (-1, b', w') \<and> length b' = 32 \<and> keeps (tested a n) kernel_shown (\<lambda>w. used_fds (cur_fd (fst w))) w w'"
    using kernel_bad_read [of a n "fst w" "snd w" fd b ru e1 e2] unfolding prod.collapse by blast
next
  fix w :: uworld and fd and b :: bytes
  assume "tested a n w" "- (2 ^ 31) \<le> fd" "fd < 2 ^ 31" "fd \<notin> insert 1 (int ` used_fds (cur_fd (fst w)))" "length b = 32"
  then show "\<exists>w'. os_write (kernel_os a ru e1 e2) fd b 31 w = Some (-1, w') \<and> keeps (tested a n) kernel_shown (\<lambda>w. used_fds (cur_fd (fst w))) w w'"
    using kernel_bad_write [of a n "fst w" "snd w" fd b ru e1 e2] unfolding prod.collapse by blast
next
  fix w :: uworld and fd
  assume "tested a n w" "- (2 ^ 31) \<le> fd" "fd < 2 ^ 31" "fd \<notin> int ` used_fds (cur_fd (fst w))"
  then show "\<exists>w'. os_close (kernel_os a ru e1 e2) fd w = Some (-1, w') \<and> keeps (tested a n) kernel_shown (\<lambda>w. used_fds (cur_fd (fst w))) w w'"
    using kernel_bad_close [of a n "fst w" "snd w" fd ru e1 e2] unfolding prod.collapse by blast
next
  fix w :: uworld and name :: string
  assume "tested a n w" "name \<in> {''helloo'', ''shel'', []}"
  then show "\<exists>w'. os_open (kernel_os a ru e1 e2) (text_of name) w = Some (-1, w') \<and> keeps (tested a n) kernel_shown (\<lambda>w. used_fds (cur_fd (fst w))) w w'"
    using kernel_bad_name [of a n "fst w" "snd w" name ru e1 e2] unfolding prod.collapse by blast
next
  fix w :: uworld
  assume t: "tested a n w"
  note d = kernel_open_dot [of a n "fst w" "snd w" ru e1 e2, unfolded prod.collapse, OF t]
  show "used_fds (cur_fd (fst w)) = {2..<8} \<Longrightarrow> \<exists>w'. os_open (kernel_os a ru e1 e2) (text_of ''.'') w = Some (-1, w') \<and> keeps (tested a n) kernel_shown (\<lambda>w. used_fds (cur_fd (fst w))) w w'"
    by (rule d(1))
  show "used_fds (cur_fd (fst w)) \<noteq> {2..<8} \<Longrightarrow> \<exists>i w'. os_open (kernel_os a ru e1 e2) (text_of ''.'') w = Some (int i, w') \<and> i \<notin> used_fds (cur_fd (fst w))
      \<and> tested a n w' \<and> kernel_shown w' = kernel_shown w \<and> used_fds (cur_fd (fst w')) = insert i (used_fds (cur_fd (fst w)))"
    by (rule d(2))
  show "used_fds (cur_fd (fst w)) \<subseteq> {2..<8}" by (auto simp: used_fds_def)
next
  fix w :: uworld and i
  assume "tested a n w" "i \<in> used_fds (cur_fd (fst w))"
  then show "\<exists>w'. os_close (kernel_os a ru e1 e2) (int i) w = Some (0, w') \<and> tested a n w' \<and> kernel_shown w' = kernel_shown w \<and> used_fds (cur_fd (fst w')) = used_fds (cur_fd (fst w)) - {i}"
    using kernel_close_used [of a n "fst w" "snd w" i ru e1 e2] unfolding prod.collapse by blast
qed (auto simp: kernel_display_def run_append keeps_def kernel_refuses)

lemma syserr_spec:
  assumes "uproc a n s" and "64 \<le> n" and "test_names s" and "test_fds (cur_fd s)" and "used_fds (cur_fd s) = {}" and "length t = 32"
  shows "\<exists>w'. run_all (kernel_os a ru e1 e2) t (s, h) = Some (0, w') \<and> kernel_shown w' = kernel_display all_pass (kernel_shown (s, h))"
  using err.run_all_passes [of a n "(s, h)" t ru e1 e2] assms by (auto simp: tested_def)

subsection \<open>A small system\<close>

text \<open>
  A directory with an entry for itself and one for the file \<^verbatim>\<open>a\<close>, which holds \<^verbatim>\<open>hi!\<close>; a process whose page is at
  8 MB and whose argument is \<^verbatim>\<open>a\<close>.
\<close>

definition user_image :: memory where
  "user_image q = (if fst q = Phys
     then (case map_of [(0x401080, 0x87), (0x401082, 0x80), (0x410000, 2), (0x410004, 1), (0x410008, 1), (0x410040, 0x2E), (0x410060, 1),
             (0x410080, 0x61), (0x4100A0, 2), (0x411000, 3), (0x412000, 0x68), (0x412001, 0x69), (0x412002, 0x21)] (snd q) of None \<Rightarrow> 0 | Some b \<Rightarrow> b)
     else if q = (PcbArg 0x7FE000, 0) then 0x61 else 0)"

definition user_sys :: kernel where
  "user_sys = sample_proc\<lparr>mem := user_image\<rparr>"

lemma user_sys_counts [simp]:
  "num_entries user_sys = 2" "num_inodes user_sys = 1" "num_blocks user_sys = 1" "img_size user_sys = 12288" "mem user_sys = user_image"
  "fs_addr user_sys = 0x410000" "cr3 user_sys = 0x401000" "cur_pcb user_sys = 0x7FE000" "sched_term_id user_sys = 0"
  by (simp_all add: user_sys_def sample_proc_def blank_kernel_def num_entries_def num_inodes_def num_blocks_def img_size_def fs_word_def ld32_def user_image_def)

lemma user_sys_entries:
  "entry_name user_sys 0 = [0x2E]" "entry_name user_sys (Suc 0) = [0x61]" "wf_entry user_sys 0" "wf_entry user_sys (Suc 0)"
  "entry_type user_sys 0 = 1" "entry_type user_sys (Suc 0) = 2" "entry_ino user_sys (Suc 0) = 0"
proof -
  show n: "entry_name user_sys 0 = [0x2E]" "entry_name user_sys (Suc 0) = [0x61]"
    by (simp_all add: entry_name_def field_str_def img_def read_list_def rdr_def user_image_def upt_rec)
  show "wf_entry user_sys 0" "wf_entry user_sys (Suc 0)"
    by (simp_all add: wf_entry_def n pad0_def img_def read_list_def rdr_def user_image_def upt_rec) (simp_all add: eval_nat_numeral)
  show "entry_type user_sys 0 = 1" "entry_type user_sys (Suc 0) = 2" "entry_ino user_sys (Suc 0) = 0"
    by (simp_all add: entry_type_def entry_ino_def img_def ld32_def user_image_def)
qed

lemma user_sys_file: "wf_file user_sys 0" "file_bytes user_sys 0 = [0x68, 0x69, 0x21]"
proof -
  have *: "file_size user_sys 0 = 3" "block_no user_sys 0 0 = 0"
    by (simp_all add: file_size_def block_no_def img_def ld32_def user_image_def)
  show "wf_file user_sys 0" by (simp add: wf_file_def *)
  show "file_bytes user_sys 0 = [0x68, 0x69, 0x21]"
    by (simp add: file_bytes_def file_byte_def * img_def user_image_def upt_rec)
qed

lemma user_sys_dir:
  "wf_image user_sys" "wf_dir user_sys" "test_names user_sys" "test_fds (cur_fd user_sys)" "used_fds (cur_fd user_sys) = {}"
  "open_target user_sys [0x61] = Some (2, 1, regf_jt)" "open_target user_sys (bytes_of ''.'') = Some (2, 0, dir_jt)"
proof -
  show w: "wf_image user_sys" "wf_dir user_sys" by (simp_all add: wf_image_def wf_dir_def)
  have lk: "dir_lookup user_sys nm = (if nm = [0x2E] then Some 0 else if nm = [0x61] then Some 1 else None)" for nm
    by (auto simp: dir_lookup_def user_sys_entries upt_rec)
  have fd: "cur_fd user_sys i = (if i < 2 then \<lparr>file_ops = (if i = 0 then stdin else stdout), inode = 0, file_pos = 0, flags = IN_USE\<rparr> else blank_fdesc)" for i
    by (simp add: cur_fd_def user_sys_def sample_proc_def)
  have io: "io_files (pcbs user_sys 0x7FE000) = cur_fd user_sys" by (simp add: cur_fd_def fun_eq_iff)
  show "test_names user_sys" unfolding test_names_def lk using w(2) user_sys_entries by simp
  show "test_fds (cur_fd user_sys)" "used_fds (cur_fd user_sys) = {}" by (simp_all add: test_fds_def used_fds_def fd blank_fdesc_def)
  have ff: "first_free (cur_fd user_sys) = Some 2" by (simp add: first_free_def fd blank_fdesc_def upt_rec)
  show "open_target user_sys [0x61] = Some (2, 1, regf_jt)" "open_target user_sys (bytes_of ''.'') = Some (2, 0, dir_jt)"
    using user_sys_entries by (simp_all add: open_target_def lk io ff tableaux_def)
qed

lemma user_sys_proc: "uproc 0x83FF000 1024 user_sys"
proof -
  have d: "dir_ptr 0x83FF000 user_sys = (Phys, 0x401080)" by (simp add: dir_ptr_def drop_bit_eq_div)
  have e: "ld32 user_image (Phys, 0x401080) = 0x800087" by (simp add: ld32_def user_image_def)
  have u: "user_ptr 0x83FF000 user_sys = (Phys, 0xBFF000)" unfolding user_ptr_def by (subst resolve_large) (simp_all add: d e)
  have sc: "screen_ptr user_sys = (Phys, 0xB8000)" "term_ok (terminals user_sys 0)"
    by (simp_all add: screen_ptr_def user_sys_def sample_proc_def blank_kernel_def sample_term_def term_ok_def)
  show ?thesis unfolding uproc_def img_separate_def d user_sys_counts e u sc using user_sys_dir(1,4) sc(2)
    by (simp add: img_def separate_le test_fds_def)
qed

subsection \<open>Properties\<close>

text \<open>
  C3: \<^verbatim>\<open>cat\<close>, run by a process of the kernel with the name of a regular file as its argument, prints exactly the bytes of
  that file on the process's terminal, however long the file is, and returns 0.\<close>

theorem cat_prints_file:
  assumes "uproc a n s" and "wf_dir s" and "length buf = 1024" and "1024 \<le> n"
    and "cstr (rdr (mem s) (PcbArg (cur_pcb s), 0)) arg" and "arg \<noteq> []" and "length arg < 1024" and "\<not> device_name arg"
    and "open_target s arg = Some (i, j, regf_jt)" and "2 \<le> i" and "wf_file s (unat (entry_ino s j))"
  shows "\<exists>w'. cat_main (kernel_os a ru e1 e2) buf (s, h) = Some (0, w')
    \<and> kernel_shown w' = kernel_display (file_bytes s (unat (entry_ino s j))) (kernel_shown (s, h))"
  using assms by (rule cat_spec)

theorem cat_prints_file_witness:
  "\<exists>w'. cat_main (kernel_os 0x83FF000 (\<lambda>_ _ _. None) 0 0) (replicate 1024 0) (user_sys, []) = Some (0, w')
    \<and> kernel_shown w' = kernel_display [0x68, 0x69, 0x21] (kernel_shown (user_sys, []))"
proof -
  have "cstr (rdr (mem user_sys) (PcbArg (cur_pcb user_sys), 0)) [0x61]" "\<not> device_name [0x61]"
    by (simp_all add: cstr_def rdr_def user_image_def padd_def device_name_def)
  then show ?thesis
    using cat_prints_file [OF user_sys_proc user_sys_dir(2), of "replicate 1024 0" "[0x61]" 2 1] user_sys_dir(6) user_sys_entries(7) user_sys_file
    by simp
qed

text \<open>
  C13: \<^verbatim>\<open>ls\<close>, run by a process of the kernel, prints the name of every entry of the directory, in order and each on a line of
  its own, and returns 0.\<close>

theorem ls_lists_directory:
  assumes "uproc a n s" and "wf_dir s" and "length buf = 33" and "33 \<le> n" and "\<forall>k < num_entries s. wf_entry s k"
    and "open_target s (bytes_of ''.'') = Some (i, j, dir_jt)" and "2 \<le> i"
  shows "\<exists>w'. ls_main (kernel_os a ru e1 e2) buf (s, h) = Some (0, w')
    \<and> kernel_shown w' = kernel_display (concat (map (\<lambda>k. entry_name s k @ [10]) [0..<num_entries s])) (kernel_shown (s, h))"
  using assms by (rule ls_spec)

theorem ls_lists_directory_witness:
  "\<exists>w'. ls_main (kernel_os 0x83FF000 (\<lambda>_ _ _. None) 0 0) (replicate 33 0) (user_sys, []) = Some (0, w')
    \<and> kernel_shown w' = kernel_display [0x2E, 10, 0x61, 10] (kernel_shown (user_sys, []))"
proof -
  have "\<forall>k < num_entries user_sys. wf_entry user_sys k" using user_sys_entries(3,4) by (auto simp: less_Suc_eq numeral_2_eq_2)
  then show ?thesis
    using ls_lists_directory [OF user_sys_proc user_sys_dir(2), of "replicate 33 0" 2 0] user_sys_dir(7) user_sys_entries(1,2)
    by (simp add: upt_rec)
qed

text \<open>
  C2: The kernel passes its own error tests: \<^verbatim>\<open>run_all\<close> of \<^verbatim>\<open>syserr\<close> (bad descriptors, too many open files, misspelt names,
  unopened descriptors, bad pointers for \<^verbatim>\<open>vidmap\<close>, the wrong direction on the standard descriptors, bad call numbers)
  returns 0, and shows a line with \<^verbatim>\<open>PASS\<close> for each test.\<close>

theorem syserr_all_pass:
  assumes "uproc a n s" and "64 \<le> n" and "test_names s" and "test_fds (cur_fd s)" and "used_fds (cur_fd s) = {}" and "length t = 32"
  shows "\<exists>w'. run_all (kernel_os a ru e1 e2) t (s, h) = Some (0, w') \<and> kernel_shown w' = kernel_display all_pass (kernel_shown (s, h))"
  using assms by (rule syserr_spec)

theorem syserr_all_pass_witness:
  "\<exists>w'. run_all (kernel_os 0x83FF000 (\<lambda>_ _ _. None) 0 0) (replicate 32 0) (user_sys, []) = Some (0, w')
    \<and> kernel_shown w' = kernel_display all_pass (kernel_shown (user_sys, []))"
  using syserr_all_pass [OF user_sys_proc _ user_sys_dir(3-5)] by simp

end
