(* ===== verification/Sigtest.thy ===== *)
theory Sigtest
  imports UserKernel Idt
begin

text \<open>
  The signal test \<^verbatim>\<open>syscalls/ece391sigtest.c\<close>. What a system does with signals is the record \<open>signals\<close>; the kernel
  of this development refuses handlers and ends a program that faults, and the main result is that the test never
  gets past its bad store there.
\<close>

subsection \<open>The program\<close>

text \<open>
  \<open>on_fault\<close> is what a page fault leads to: the signal number for the handler, or nothing when the program is ended.
\<close>

record 'w signals =
  set_handler :: "int \<Rightarrow> 'w \<Rightarrow> (int \<times> 'w) option"
  on_fault :: "'w \<Rightarrow> (int option \<times> 'w) option"

abbreviation SEGFAULT :: int where "SEGFAULT \<equiv> 1"
abbreviation ALARM :: int where "ALARM \<equiv> 3"

text \<open>The static variables, and where a pointer of the program points to.\<close>

datatype target = Null | Charbuf

record sigvars =
  charbuf :: u8
  badbuf :: target

definition put_signum :: "'w os \<Rightarrow> int \<Rightarrow> 'w \<Rightarrow> 'w option" where
  "put_signum os signum w = ece391_fdputs os 1
     (if signum = 0 then line_of_text ''0'' else if signum = 1 then line_of_text ''1''
      else if signum = 2 then line_of_text ''2'' else if signum = 3 then line_of_text ''3'' else line_of_text ''invalid'') w"

text \<open>The handler gives the new value of the saved register \<^verbatim>\<open>eax\<close>, which the bad store uses when it is run again.\<close>

definition segfault_sighandler :: "'w os \<Rightarrow> int \<Rightarrow> bytes \<Rightarrow> sigvars \<Rightarrow> 'w \<Rightarrow> (target \<times> sigvars \<times> 'w) option" where
  "segfault_sighandler os signum buf v w = do {
     w \<leftarrow> ece391_fdputs os 1 (text_of ''Segfault signal handler called, signum: '') w;
     w \<leftarrow> put_signum os signum w;
     w \<leftarrow> ece391_fdputs os 1 (line_of_text ''Press enter to continue...'') w;
     (_, _, w) \<leftarrow> os_read os 0 buf 1 w;
     let v = v\<lparr>badbuf := Charbuf\<rparr>;
     w \<leftarrow> ece391_fdputs os 1 (line_of_text ''Signal handler returning'') w;
     Some (Charbuf, v, w)
   }"

definition alarm_sighandler :: "'w os \<Rightarrow> int \<Rightarrow> 'w \<Rightarrow> 'w option" where
  "alarm_sighandler os signum w = do {
     w \<leftarrow> ece391_fdputs os 1 (text_of ''Alarm signal handler called, signum: '') w;
     put_signum os signum w
   }"

text \<open>\<^verbatim>\<open>(*badbuf) = 1\<close>: a store through a null pointer faults, and is run again after the handler.\<close>

definition store_bad :: "'w os \<Rightarrow> 'w signals \<Rightarrow> bytes \<Rightarrow> sigvars \<Rightarrow> 'w \<Rightarrow> (sigvars option \<times> 'w) option" where
  "store_bad os sg chr v w =
     (case badbuf v of
        Charbuf \<Rightarrow> Some (Some (v\<lparr>charbuf := 1\<rparr>), w)
      | Null \<Rightarrow> do {
          (r, w) \<leftarrow> on_fault sg w;
          case r of
            None \<Rightarrow> Some (None, w)
          | Some signum \<Rightarrow> do {
              (eax, v, w) \<leftarrow> segfault_sighandler os signum chr v w;
              if eax = Charbuf then Some (Some (v\<lparr>charbuf := 1\<rparr>), w) else None
            }
        })"

text \<open>The value of \<^verbatim>\<open>main\<close>, or none when the program is ended by the fault.\<close>

definition sigtest_main :: "'w os \<Rightarrow> 'w signals \<Rightarrow> bytes \<Rightarrow> bytes \<Rightarrow> sigvars \<Rightarrow> 'w \<Rightarrow> (int option \<times> 'w) option" where
  "sigtest_main os sg buf chr v w = do {
     (r, buf, w) \<leftarrow> os_getargs os buf 1024 w;
     if r \<noteq> 0
     then do {
       w \<leftarrow> ece391_fdputs os 1 (line_of_text ''could not read argument'') w;
       Some (Some 3, w)
     }
     else do {
       c \<leftarrow> at buf 0;
       w \<leftarrow> (if c = of_char CHR ''1''
             then do {
               w \<leftarrow> ece391_fdputs os 1 (line_of_text ''Installing signal handlers'') w;
               (_, w) \<leftarrow> set_handler sg SEGFAULT w;
               (_, w) \<leftarrow> set_handler sg ALARM w;
               Some w
             }
             else Some w);
       w \<leftarrow> ece391_fdputs os 1 (text_of (''Hi, what'' @ [CHR 0x27] @ ''s your name? '')) w;
       (cnt, buf, w) \<leftarrow> os_read os 0 buf 1023 w;
       if cnt = -1
       then do {
         w \<leftarrow> ece391_fdputs os 1 (line_of_text (''Can'' @ [CHR 0x27] @ ''t read name from keyboard.'')) w;
         Some (Some 3, w)
       }
       else do {
         (r, w) \<leftarrow> store_bad os sg chr v w;
         case r of
           None \<Rightarrow> Some (None, w)
         | Some v \<Rightarrow> do {
             buf \<leftarrow> put buf cnt 0;
             w \<leftarrow> ece391_fdputs os 1 (text_of ''Hello, '') w;
             w \<leftarrow> ece391_fdputs os 1 buf w;
             w \<leftarrow> ece391_fdputs os 1 (if charbuf v = 1 then line_of_text ''success'' else line_of_text ''failure'') w;
             Some (Some 0, w)
           }
       }
     }
   }"

subsection \<open>On the kernel\<close>

text \<open>The kernel: \<open>handler\<close> is the address the program passes, \<open>e1\<close> and \<open>e2\<close> the registers the exception handler finds.\<close>

definition kernel_signals :: "u32 \<Rightarrow> u32 \<Rightarrow> u32 \<Rightarrow> uworld signals" where
  "kernel_signals handler e1 e2 = \<lparr>
     set_handler = (\<lambda>signum. kernel_call 9 (of_int signum) handler 0),
     on_fault = (\<lambda>(s, hss). do {
       (r, s) \<leftarrow> exception 14 0 e1 e2 s;
       case r of ExecuteReturns _ _ _ \<Rightarrow> Some (None, s, hss) | _ \<Rightarrow> None
     })\<rparr>"

text \<open>The kernel refuses a handler and nothing changes.\<close>

lemma kernel_refuses_handler: "set_handler (kernel_signals handler e1 e2) signum w = Some (-1, w)"
  by (cases w) (simp add: kernel_signals_def kernel_call_def do_call_def syscall_def ret_def sys_set_handler_def)

lemma on_fault_kernel: "on_fault (kernel_signals handler e1 e2) w \<noteq> Some (Some signum, w')"
  by (cases w) (auto simp: kernel_signals_def bind_eq_Some_conv split: outcome.splits)

lemma store_bad_kernel: "badbuf v = Null \<Longrightarrow> store_bad os (kernel_signals handler e1 e2) chr v w \<noteq> Some (Some v', w')"
  by (auto simp: store_bad_def bind_eq_Some_conv on_fault_kernel split: option.splits)

text \<open>
  So the test ends with the fault, or with the value 3 when its argument or the name cannot be read; it never reports
  success.
\<close>

lemma sigtest_on_kernel:
  "badbuf v = Null \<Longrightarrow> sigtest_main os (kernel_signals handler e1 e2) buf chr v w = Some (r, w') \<Longrightarrow> r = None \<or> r = Some 3"
  unfolding sigtest_main_def by (auto simp: bind_eq_Some_conv store_bad_kernel split: option.splits if_split_asm)

text \<open>A system that calls the handler takes the test past the store, into the byte the handler has chosen.\<close>

lemma store_bad_handled:
  assumes "badbuf v = Null" and "on_fault sg w = Some (Some signum, w1)" and "segfault_sighandler os signum chr v w1 = Some (eax, v', w2)"
  shows "store_bad os sg chr v w = Some (Some (v\<lparr>badbuf := Charbuf, charbuf := 1\<rparr>), w2)"
  using assms by (auto simp: store_bad_def segfault_sighandler_def Let_def bind_eq_Some_conv)

end
