(* ===== verification/Fish.thy ===== *)
theory Fish
  imports Userlib
begin

text \<open>
  The program \<^verbatim>\<open>fish\<close>: \<^verbatim>\<open>fish/fish.c\<close>, which reads two frames from files, and \<^verbatim>\<open>fish/blink.S\<close>, which keeps a linked list of
  blinking characters in an array of 2000 structures and draws them in the video page. The main result: on the
  list without its pointers each operation does what its name says, whatever the order of the operations.

  A pointer to a structure is its index in \<^verbatim>\<open>blink_array\<close>. A walk along the list is a partial function, since a
  list with a cycle keeps it going for ever.
\<close>

subsection \<open>Data\<close>

record mp1_blink_struct =
  location :: u16
  on_char :: u8
  off_char :: u8
  on_length :: u16
  off_length :: u16
  countdown :: u16
  status :: u16
  nxt :: "nat option"

text \<open>The variables of the program: the array, the head of the list, the page that \<^verbatim>\<open>vmem_base_addr\<close> points to.\<close>

record fish =
  blink_array :: "mp1_blink_struct list"
  mp1_list_head :: "nat option"
  vmem :: "u32 \<Rightarrow> u8"

definition zero_blink :: mp1_blink_struct where
  "zero_blink = \<lparr>location = 0, on_char = 0, off_char = 0, on_length = 0, off_length = 0, countdown = 0, status = 0, nxt = None\<rparr>"

text \<open>The variables after \<^verbatim>\<open>main\<close> has cleared the array; \<open>v\<close> is what the video page shows.\<close>

definition fish_start :: "(u32 \<Rightarrow> u8) \<Rightarrow> fish" where
  "fish_start v = \<lparr>blink_array = replicate (80 * 25) zero_blink, mp1_list_head = None, vmem = v\<rparr>"

definition elem :: "fish \<Rightarrow> nat \<Rightarrow> mp1_blink_struct option" where
  "elem s i = (if i < length (blink_array s) then Some (blink_array s ! i) else None)"

definition upd_elem :: "nat \<Rightarrow> (mp1_blink_struct \<Rightarrow> mp1_blink_struct) \<Rightarrow> fish \<Rightarrow> fish" where
  "upd_elem i f s = s\<lparr>blink_array := (blink_array s)[i := f (blink_array s ! i)]\<rparr>"

subsection \<open>fish.c: memory\<close>

fun memset_loop :: "nat \<Rightarrow> nat \<Rightarrow> bytes \<Rightarrow> u8 \<Rightarrow> bytes option" where
  "memset_loop 0 i m c = Some m"
| "memset_loop (Suc k) i m c = do {
     m \<leftarrow> put m (int i) c;
     memset_loop k (Suc i) m c
   }"

definition ece391_memset :: "bytes \<Rightarrow> u8 \<Rightarrow> nat \<Rightarrow> bytes option" where
  "ece391_memset memory c n = memset_loop n 0 memory c"

fun memcpy_loop :: "nat \<Rightarrow> nat \<Rightarrow> bytes \<Rightarrow> bytes \<Rightarrow> bytes option" where
  "memcpy_loop 0 i d s = Some d"
| "memcpy_loop (Suc k) i d s = do {
     c \<leftarrow> at s (int i);
     d \<leftarrow> put d (int i) c;
     memcpy_loop k (Suc i) d s
   }"

definition ece391_memcpy :: "bytes \<Rightarrow> bytes \<Rightarrow> nat \<Rightarrow> (int \<times> bytes) option" where
  "ece391_memcpy dest src n = map_option (\<lambda>d. (0, d)) (memcpy_loop n 0 dest src)"

text \<open>The copies and clears of whole structures are assignments of records.\<close>

fun malloc_loop :: "nat \<Rightarrow> fish \<Rightarrow> nat option option" where
  "malloc_loop 0 s = Some None"
| "malloc_loop (Suc k) s = do {
     b \<leftarrow> elem s (80 * 25 - Suc k);
     if location b = 0 then Some (Some (80 * 25 - Suc k)) else malloc_loop k s
   }"

definition mp1_malloc :: "fish \<Rightarrow> nat option option" where
  "mp1_malloc s = malloc_loop (80 * 25) s"

definition mp1_free :: "nat \<Rightarrow> fish \<Rightarrow> fish" where
  "mp1_free i s = upd_elem i (\<lambda>_. zero_blink) s"

subsection \<open>blink.S\<close>

text \<open>A store outside of the page is a page fault.\<close>

definition mp1_poke :: "u8 \<Rightarrow> u32 \<Rightarrow> fish \<Rightarrow> fish option" where
  "mp1_poke cl eax s = (if eax < 4096 then Some (s\<lparr>vmem := (vmem s)(eax := cl)\<rparr>) else None)"

definition cell :: "mp1_blink_struct \<Rightarrow> u32" where
  "cell b = push_bit 1 (ucast (location b))"

text \<open>One element of the tasklet's walk, from \<^verbatim>\<open>tasklet_loop\<close> to \<^verbatim>\<open>next_loop\<close>.\<close>

definition blink_elem :: "nat \<Rightarrow> fish \<Rightarrow> fish option" where
  "blink_elem i s = do {
     _ \<leftarrow> elem s i;
     let s = upd_elem i (\<lambda>b. b\<lparr>countdown := countdown b - 1\<rparr>) s;
     let b = blink_array s ! i;
     if sint (countdown b) > 0 then Some s
     else do {
       (s, dx) \<leftarrow> (if status b AND 1 \<noteq> 0
                   then do { s \<leftarrow> mp1_poke (off_char b) (cell b) s; Some (s, off_length b) }
                   else do { s \<leftarrow> mp1_poke (on_char b) (cell b) s; Some (s, on_length b) });
       Some (upd_elem i (\<lambda>b. b\<lparr>countdown := dx, status := status b XOR 1\<rparr>) s)
     }
   }"

partial_function (option) tasklet_loop :: "nat option \<Rightarrow> fish \<Rightarrow> fish option" where
  "tasklet_loop ebx s = (case ebx of
     None \<Rightarrow> Some s
   | Some i \<Rightarrow> do {
       s \<leftarrow> blink_elem i s;
       b \<leftarrow> elem s i;
       tasklet_loop (nxt b) s
     })"

definition mp1_rtc_tasklet :: "fish \<Rightarrow> fish option" where
  "mp1_rtc_tasklet s = tasklet_loop (mp1_list_head s) s"

partial_function (option) find_loop :: "u16 \<Rightarrow> nat option \<Rightarrow> fish \<Rightarrow> nat option option" where
  "find_loop ax ebx s = (case ebx of
     None \<Rightarrow> Some None
   | Some i \<Rightarrow> do {
       b \<leftarrow> elem s i;
       if location b = ax then Some (Some i) else find_loop ax (nxt b) s
     })"

definition mp1_find_helper :: "u32 \<Rightarrow> fish \<Rightarrow> nat option option" where
  "mp1_find_helper loc s = find_loop (ucast loc) (mp1_list_head s) s"

text \<open>The value of \<^verbatim>\<open>ioctl\<close> is that of \<^verbatim>\<open>eax\<close>; the copy in never fails.\<close>

definition mp1_ioctl_add :: "mp1_blink_struct \<Rightarrow> fish \<Rightarrow> (int \<times> fish) option" where
  "mp1_ioctl_add b s =
     (if location b \<ge> 80 * 25 then Some (-1, s)
      else do {
        let b = b\<lparr>status := 1, countdown := on_length b\<rparr>;
        p \<leftarrow> mp1_malloc s;
        case p of
          None \<Rightarrow> Some (-1, s)
        | Some i \<Rightarrow> do {
            let s = upd_elem i (\<lambda>_. b) s;
            let s = upd_elem i (\<lambda>b. b\<lparr>nxt := mp1_list_head s\<rparr>) s;
            let s = s\<lparr>mp1_list_head := Some i\<rparr>;
            s \<leftarrow> mp1_poke (on_char b) (cell b) s;
            Some (0, s)
          }
      })"

text \<open>Where a pointer to an element is stored: the head of the list, or the field of an element.\<close>

datatype link = Head | Next nat

definition load :: "fish \<Rightarrow> link \<Rightarrow> nat option option" where
  "load s l = (case l of Head \<Rightarrow> Some (mp1_list_head s) | Next i \<Rightarrow> map_option nxt (elem s i))"

definition store :: "link \<Rightarrow> nat option \<Rightarrow> fish \<Rightarrow> fish" where
  "store l p s = (case l of Head \<Rightarrow> s\<lparr>mp1_list_head := p\<rparr> | Next i \<Rightarrow> upd_elem i (\<lambda>b. b\<lparr>nxt := p\<rparr>) s)"

partial_function (option) remove_find_prev :: "nat \<Rightarrow> link \<Rightarrow> fish \<Rightarrow> link option" where
  "remove_find_prev eax edx s = do {
     p \<leftarrow> load s edx;
     if p = Some eax then Some edx
     else case p of None \<Rightarrow> None | Some j \<Rightarrow> remove_find_prev eax (Next j) s
   }"

definition mp1_ioctl_remove :: "u32 \<Rightarrow> fish \<Rightarrow> (int \<times> fish) option" where
  "mp1_ioctl_remove arg s = do {
     p \<leftarrow> mp1_find_helper arg s;
     case p of
       None \<Rightarrow> Some (-1, s)
     | Some eax \<Rightarrow> do {
         edx \<leftarrow> remove_find_prev eax Head s;
         b \<leftarrow> elem s eax;
         let s = store edx (nxt b) s;
         Some (0, mp1_free eax s)
       }
   }"

text \<open>
  \<^verbatim>\<open>testb\<close> clears the overflow flag and sets the sign flag from bit 7 of the result; \<^verbatim>\<open>cmovl\<close> moves when the two differ.
\<close>

definition mp1_ioctl_sync :: "u32 \<Rightarrow> fish \<Rightarrow> (int \<times> fish) option" where
  "mp1_ioctl_sync arg s = do {
     p \<leftarrow> mp1_find_helper (drop_bit 16 arg) s;
     case p of
       None \<Rightarrow> Some (-1, s)
     | Some esi \<Rightarrow> do {
         p \<leftarrow> mp1_find_helper (arg AND 0xFFFF) s;
         case p of
           None \<Rightarrow> Some (-1, s)
         | Some edi \<Rightarrow> do {
             a \<leftarrow> elem s esi;
             _ \<leftarrow> elem s edi;
             let s = upd_elem edi (\<lambda>b. b\<lparr>on_length := on_length a, off_length := off_length a,
                       countdown := countdown a, status := status a\<rparr>) s;
             let b = blink_array s ! edi;
             let sf = bit (ucast (status b) AND 1 :: u8) 7;
             s \<leftarrow> mp1_poke (if sf then on_char b else off_char b) (cell b) s;
             Some (0, s)
           }
       }
   }"

definition mp1_ioctl_find :: "mp1_blink_struct \<Rightarrow> fish \<Rightarrow> (int \<times> mp1_blink_struct) option" where
  "mp1_ioctl_find arg s = do {
     p \<leftarrow> mp1_find_helper (ucast (location arg)) s;
     case p of
       None \<Rightarrow> Some (-1, arg)
     | Some i \<Rightarrow> do {
         b \<leftarrow> elem s i;
         Some (0, b)
       }
   }"

text \<open>
  The jump through \<^verbatim>\<open>call_table\<close>. The argument is the address of a structure for \<^verbatim>\<open>RTC_ADD\<close> and \<^verbatim>\<open>RTC_FIND\<close>, a number for
  \<^verbatim>\<open>RTC_REMOVE\<close> and \<^verbatim>\<open>RTC_SYNC\<close>; a command past the table is undefined.
\<close>

datatype ioctl_arg = Struct mp1_blink_struct | Number u32

definition mp1_ioctl :: "ioctl_arg \<Rightarrow> nat \<Rightarrow> fish \<Rightarrow> (int \<times> ioctl_arg \<times> fish) option" where
  "mp1_ioctl arg command s = (case arg of
     Struct b \<Rightarrow>
       if command = 0 then map_option (\<lambda>(r, s). (r, arg, s)) (mp1_ioctl_add b s)
       else if command = 2 then map_option (\<lambda>(r, b). (r, Struct b, s)) (mp1_ioctl_find b s)
       else None
   | Number n \<Rightarrow>
       if command = 1 then map_option (\<lambda>(r, s). (r, arg, s)) (mp1_ioctl_remove n s)
       else if command = 3 then map_option (\<lambda>(r, s). (r, arg, s)) (mp1_ioctl_sync n s)
       else None)"

subsection \<open>fish.c: the program\<close>

text \<open>The next character of a frame, and whether its file has ended.\<close>

definition frame_char :: "'w os \<Rightarrow> int \<Rightarrow> u8 \<times> bool \<Rightarrow> 'w \<Rightarrow> ((u8 \<times> bool) \<times> 'w) option" where
  "frame_char os fd = (\<lambda>(c, eof) w.
     if c \<noteq> 10
     then do {
       (num_bytes, buf, w) \<leftarrow> os_read os fd [c] 1 w;
       c \<leftarrow> at buf 0;
       Some (if num_bytes = 0 then (10, True) else (c, eof), w)
     }
     else Some ((c, eof), w))"

definition frame_blink :: "int \<Rightarrow> int \<Rightarrow> u8 \<Rightarrow> u8 \<Rightarrow> mp1_blink_struct \<Rightarrow> mp1_blink_struct" where
  "frame_blink row col c0 c1 b =
     b\<lparr>on_char := (if c0 = 10 then 32 else c0), off_char := (if c1 = 10 then 32 else c1), location := of_int (row * 80 + col + 40)\<rparr>"

partial_function (option) frame_row ::
    "'w os \<Rightarrow> int \<Rightarrow> int \<Rightarrow> int \<Rightarrow> int \<Rightarrow> u8 \<times> bool \<Rightarrow> u8 \<times> bool \<Rightarrow> mp1_blink_struct \<Rightarrow> fish \<Rightarrow> 'w
      \<Rightarrow> ((u8 \<times> bool) \<times> (u8 \<times> bool) \<times> mp1_blink_struct \<times> fish \<times> 'w) option" where
  "frame_row os fd0 fd1 row col f0 f1 b s w = do {
     (f0, w) \<leftarrow> frame_char os fd0 f0 w;
     (f1, w) \<leftarrow> frame_char os fd1 f1 w;
     let c0 = fst f0;
     let c1 = fst f1;
     if c0 = 10 \<and> c1 = 10 then Some (f0, f1, b, s, w)
     else do {
       (b, s) \<leftarrow> (if c0 \<noteq> 32 \<and> c0 \<noteq> 10 \<or> c1 \<noteq> 32 \<and> c1 \<noteq> 10
                  then do {
                    let b = frame_blink row col c0 c1 b;
                    (_, _, s) \<leftarrow> mp1_ioctl (Struct b) 0 s;
                    Some (b, s)
                  }
                  else Some (b, s));
       frame_row os fd0 fd1 row (col + 1) f0 f1 b s w
     }
   }"

text \<open>What happens to a frame between two rows.\<close>

definition frame_end :: "'w os \<Rightarrow> int \<Rightarrow> bool \<Rightarrow> 'w \<Rightarrow> ((u8 \<times> bool) \<times> 'w) option" where
  "frame_end os fd eof w =
     (if eof
      then do {
        (_, w) \<leftarrow> os_close os fd w;
        Some ((10, eof), w)
      }
      else Some ((of_char CHR ''0'', eof), w))"

partial_function (option) frames_loop ::
    "'w os \<Rightarrow> int \<Rightarrow> int \<Rightarrow> int \<Rightarrow> u8 \<times> bool \<Rightarrow> u8 \<times> bool \<Rightarrow> mp1_blink_struct \<Rightarrow> fish \<Rightarrow> 'w \<Rightarrow> (fish \<times> 'w) option" where
  "frames_loop os fd0 fd1 row f0 f1 b s w =
     (if \<not> snd f0 \<or> \<not> snd f1
      then do {
        (f0, f1, b, s, w) \<leftarrow> frame_row os fd0 fd1 row 0 f0 f1 b s w;
        (f0, w) \<leftarrow> frame_end os fd0 (snd f0) w;
        (f1, w) \<leftarrow> frame_end os fd1 (snd f1) w;
        frames_loop os fd0 fd1 (row + 1) f0 f1 b s w
      }
      else Some (s, w))"

text \<open>The result is \<open>Inl\<close> of the argument of \<^verbatim>\<open>halt\<close> when a file cannot be opened; \<open>b\<close> is what the local structure holds.\<close>

definition add_frames :: "'w os \<Rightarrow> bytes \<Rightarrow> bytes \<Rightarrow> mp1_blink_struct \<Rightarrow> fish \<Rightarrow> 'w \<Rightarrow> (int \<times> 'w + fish \<times> 'w) option" where
  "add_frames os f0 f1 b s w = do {
     let b = b\<lparr>on_length := 15, off_length := 15\<rparr>;
     (fd0, w) \<leftarrow> os_open os f0 w;
     if fd0 < 0 then Some (Inl (-1, w))
     else do {
       (fd1, w) \<leftarrow> os_open os f1 w;
       if fd1 < 0 then Some (Inl (-1, w))
       else map_option Inr (frames_loop os fd0 fd1 0 (of_char CHR ''0'', False) (of_char CHR ''0'', False) b s w)
     }
   }"

fun fish_wait :: "nat \<Rightarrow> 'w os \<Rightarrow> int \<Rightarrow> bytes \<times> fish \<times> 'w \<Rightarrow> (bytes \<times> fish \<times> 'w) option" where
  "fish_wait 0 os rtc_fd st = Some st"
| "fish_wait (Suc k) os rtc_fd (garbage, s, w) = do {
     (_, garbage, w) \<leftarrow> os_read os rtc_fd garbage 4 w;
     s \<leftarrow> mp1_rtc_tasklet s;
     fish_wait k os rtc_fd (garbage, s, w)
   }"

definition mp1_set_video_mode :: "'w os \<Rightarrow> u32 \<Rightarrow> 'w \<Rightarrow> (bool \<times> 'w) option" where
  "mp1_set_video_mode os p w = do {
     (r, w) \<leftarrow> os_vidmap os p w;
     Some (r \<noteq> -1, w)
   }"

text \<open>
  \<^verbatim>\<open>main\<close>: the value passed to \<^verbatim>\<open>halt\<close>. \<open>p\<close> is the address of \<^verbatim>\<open>vmem_base_addr\<close>, \<open>v\<close> what the video page shows, \<open>b0\<close> and \<open>b1\<close> what the
  local structures hold at the start.
\<close>

definition fish_show :: "'w os \<Rightarrow> int \<Rightarrow> mp1_blink_struct \<Rightarrow> bytes \<times> fish \<times> 'w \<Rightarrow> (bytes \<times> fish \<times> 'w) option" where
  "fish_show os rtc_fd b st = do {
     (g, s, w) \<leftarrow> fish_wait 100 os rtc_fd st;
     let b = b\<lparr>on_char := of_char CHR ''I'', off_char := of_char CHR ''M'', on_length := 7, off_length := 6, location := 6 * 80 + 60\<rparr>;
     (_, _, s) \<leftarrow> mp1_ioctl (Struct b) 0 s;
     (g, s, w) \<leftarrow> fish_wait 100 os rtc_fd (g, s, w);
     (_, _, s) \<leftarrow> mp1_ioctl (Number (push_bit 16 40 OR (6 * 80 + 60))) 3 s;
     (g, s, w) \<leftarrow> fish_wait 100 os rtc_fd (g, s, w);
     (_, _, s) \<leftarrow> mp1_ioctl (Number (6 * 80 + 60)) 1 s;
     fish_wait 100 os rtc_fd (g, s, w)
   }"

definition fish_main :: "'w os \<Rightarrow> u32 \<Rightarrow> (u32 \<Rightarrow> u8) \<Rightarrow> mp1_blink_struct \<Rightarrow> mp1_blink_struct \<Rightarrow> bytes \<Rightarrow> 'w \<Rightarrow> (int \<times> 'w) option" where
  "fish_main os p v b0 b1 garbage w = do {
     let s = fish_start v;
     (mapped, w) \<leftarrow> mp1_set_video_mode os p w;
     if \<not> mapped then Some (-1, w)
     else do {
       (rtc_fd, w) \<leftarrow> os_open os (text_of ''rtc'') w;
       f \<leftarrow> add_frames os (text_of ''frame0.txt'') (text_of ''frame1.txt'') b0 s w;
       case f of
         Inl h \<Rightarrow> Some h
       | Inr (s, w) \<Rightarrow> do {
           (_, w) \<leftarrow> os_write os rtc_fd [32, 0, 0, 0] 4 w;
           (_, _, w) \<leftarrow> fish_show os rtc_fd b1 (garbage, s, w);
           (_, w) \<leftarrow> os_close os rtc_fd w;
           Some (0, w)
         }
     }
   }"

subsection \<open>The list\<close>

text \<open>The elements from a pointer to the end of the list.\<close>

fun path :: "mp1_blink_struct list \<Rightarrow> nat option \<Rightarrow> nat list \<Rightarrow> bool" where
  "path arr p [] \<longleftrightarrow> p = None"
| "path arr p (i # is) \<longleftrightarrow> p = Some i \<and> i < length arr \<and> path arr (nxt (arr ! i)) is"

text \<open>A well-formed list has exactly the structures in use, each with a location on the screen other than 0.\<close>

definition wf_fish :: "fish \<Rightarrow> nat list \<Rightarrow> bool" where
  "wf_fish s ps \<longleftrightarrow> length (blink_array s) = 2000 \<and> distinct ps \<and> path (blink_array s) (mp1_list_head s) ps
     \<and> (\<forall>i < 2000. i \<in> set ps \<longleftrightarrow> location (blink_array s ! i) \<noteq> 0) \<and> (\<forall>i \<in> set ps. location (blink_array s ! i) < 2000)"

text \<open>The contents of the list, without the pointers.\<close>

definition plain :: "mp1_blink_struct \<Rightarrow> mp1_blink_struct" where
  "plain b = b\<lparr>nxt := None\<rparr>"

definition contents :: "fish \<Rightarrow> nat list \<Rightarrow> mp1_blink_struct list" where
  "contents s ps = map (\<lambda>i. plain (blink_array s ! i)) ps"

lemma plain_simps [simp]:
  "location (plain b) = location b" "on_char (plain b) = on_char b" "off_char (plain b) = off_char b" "on_length (plain b) = on_length b"
  "off_length (plain b) = off_length b" "countdown (plain b) = countdown b" "status (plain b) = status b" "cell (plain b) = cell b"
  "plain (plain b) = plain b" "plain (b\<lparr>nxt := p\<rparr>) = plain b"
  by (simp_all add: plain_def cell_def)

lemma upd_elem_simps [simp]:
  "length (blink_array (upd_elem i f s)) = length (blink_array s)" "mp1_list_head (upd_elem i f s) = mp1_list_head s" "vmem (upd_elem i f s) = vmem s"
  "j < length (blink_array s) \<Longrightarrow> blink_array (upd_elem i f s) ! j = (if j = i then f (blink_array s ! i) else blink_array s ! j)"
  by (simp_all add: upd_elem_def nth_list_update)

lemma path_bound: "path arr p ps \<Longrightarrow> i \<in> set ps \<Longrightarrow> i < length arr"
  by (induction arr p ps rule: path.induct) auto

text \<open>A path depends on the pointers of its elements only.\<close>

lemma path_cong:
  assumes "path arr p ps" and "length arr' = length arr" and "\<And>i. i \<in> set ps \<Longrightarrow> nxt (arr' ! i) = nxt (arr ! i)"
  shows "path arr' p ps"
  using assms by (induction arr p ps rule: path.induct) auto

lemma path_other:
  assumes "path arr p ps" and "i \<notin> set ps"
  shows "path (arr[i := b]) p ps"
proof (rule path_cong [OF assms(1)])
  fix j assume "j \<in> set ps"
  then have "i \<noteq> j" using assms(2) by blast
  then show "nxt (arr[i := b] ! j) = nxt (arr ! j)" by simp
qed simp

lemma cell_less: "location b < 2000 \<Longrightarrow> cell b < 4096"
proof -
  assume "location b < 2000"
  then have l: "unat (location b) < 2000" by (simp add: word_less_nat_alt)
  have "unat (ucast (location b) :: u32) = unat (location b)" by (simp add: unsigned_ucast_eq take_bit_nat_eq_self order_less_trans [OF unsigned_less])
  then have "unat (cell b) = 2 * unat (location b)" using l by (simp add: cell_def push_bit_eq_mult unat_word_ariths)
  then show ?thesis using l by (simp add: word_less_nat_alt)
qed

lemma poke_ok: "location b < 2000 \<Longrightarrow> mp1_poke c (cell b) s = Some (s\<lparr>vmem := (vmem s)(cell b := c)\<rparr>)"
  using cell_less by (simp add: mp1_poke_def)

subsection \<open>The tasklet\<close>

text \<open>One tick of one character: what it becomes, and what it draws.\<close>

definition expired :: "mp1_blink_struct \<Rightarrow> bool" where
  "expired b \<longleftrightarrow> sint (countdown b - 1) \<le> 0"

definition tick :: "mp1_blink_struct \<Rightarrow> mp1_blink_struct" where
  "tick b = (if expired b then b\<lparr>countdown := (if status b AND 1 \<noteq> 0 then off_length b else on_length b), status := status b XOR 1\<rparr>
     else b\<lparr>countdown := countdown b - 1\<rparr>)"

definition draw :: "mp1_blink_struct \<Rightarrow> (u32 \<Rightarrow> u8) \<Rightarrow> u32 \<Rightarrow> u8" where
  "draw b v = (if expired b then v(cell b := (if status b AND 1 \<noteq> 0 then off_char b else on_char b)) else v)"

lemma tick_simps [simp]: "location (tick b) = location b" "nxt (tick b) = nxt b" "plain (tick b) = tick (plain b)" "draw (plain b) = draw b"
  by (simp_all add: tick_def draw_def expired_def plain_def cell_def fun_eq_iff)

lemma blink_elem_spec:
  assumes "i < length (blink_array s)" and "location (blink_array s ! i) < 2000"
  shows "blink_elem i s = Some (s\<lparr>blink_array := (blink_array s)[i := tick (blink_array s ! i)], vmem := draw (blink_array s ! i) (vmem s)\<rparr>)"
proof -
  let ?b = "blink_array s ! i"
  let ?c = "?b\<lparr>countdown := countdown ?b - 1\<rparr>"
  have c: "location ?c < 2000" "cell ?c = cell ?b" using assms(2) by (simp_all add: cell_def)
  show ?thesis using assms(1) poke_ok [OF c(1), unfolded c(2)] c(2)
    by (simp add: blink_elem_def elem_def upd_elem_def tick_def draw_def expired_def Let_def not_less)
qed

lemma tasklet_loop_spec:
  assumes "path (blink_array s) p ps" and "distinct ps" and "\<forall>i \<in> set ps. location (blink_array s ! i) < 2000"
  shows "\<exists>s'. tasklet_loop p s = Some s' \<and> length (blink_array s') = length (blink_array s) \<and> mp1_list_head s' = mp1_list_head s
    \<and> (\<forall>i < length (blink_array s). blink_array s' ! i = (if i \<in> set ps then tick (blink_array s ! i) else blink_array s ! i))
    \<and> vmem s' = fold draw (contents s ps) (vmem s)"
  using assms
proof (induction ps arbitrary: p s)
  case Nil
  then show ?case by (subst tasklet_loop.simps) (simp add: contents_def)
next
  case (Cons i ps)
  let ?b = "blink_array s ! i"
  let ?s = "s\<lparr>blink_array := (blink_array s)[i := tick ?b], vmem := draw ?b (vmem s)\<rparr>"
  have i: "p = Some i" "i < length (blink_array s)" "path (blink_array s) (nxt ?b) ps" "i \<notin> set ps" "distinct ps" using Cons.prems(1,2) by auto
  have e: "blink_elem i s = Some ?s" using blink_elem_spec [OF i(2)] Cons.prems(3) by simp
  have ps: "j \<in> set ps \<Longrightarrow> blink_array ?s ! j = blink_array s ! j" for j using i(4) by (cases "j = i") simp_all
  have "path (blink_array ?s) (nxt ?b) ps" using path_other [OF i(3,4)] by simp
  moreover have "\<forall>j \<in> set ps. location (blink_array ?s ! j) < 2000" using Cons.prems(3) ps by simp
  ultimately obtain s' where s': "tasklet_loop (nxt ?b) ?s = Some s'" "length (blink_array s') = length (blink_array s)" "mp1_list_head s' = mp1_list_head s"
    "\<forall>j < length (blink_array s). blink_array s' ! j = (if j \<in> set ps then tick (blink_array ?s ! j) else blink_array ?s ! j)"
    "vmem s' = fold draw (contents ?s ps) (draw ?b (vmem s))"
    using Cons.IH [of ?s "nxt ?b"] i(5) by auto
  have "tasklet_loop p s = Some s'" using s'(1) e i(1,2) by (subst tasklet_loop.simps) (simp add: elem_def)
  moreover have c: "contents ?s ps = contents s ps" using ps by (simp add: contents_def)
  moreover have "vmem s' = fold draw (contents s (i # ps)) (vmem s)" unfolding s'(5) c by (simp add: contents_def)
  moreover have "\<forall>j < length (blink_array s). blink_array s' ! j = (if j \<in> set (i # ps) then tick (blink_array s ! j) else blink_array s ! j)"
    using s'(4) i(2,4) by (auto simp: nth_list_update)
  ultimately show ?case using s'(2,3) by (intro exI [of _ s']) simp
qed

lemma tasklet_spec:
  assumes "wf_fish s ps"
  shows "\<exists>s'. mp1_rtc_tasklet s = Some s' \<and> wf_fish s' ps \<and> contents s' ps = map tick (contents s ps) \<and> vmem s' = fold draw (contents s ps) (vmem s)"
proof -
  have w: "length (blink_array s) = 2000" "distinct ps" "path (blink_array s) (mp1_list_head s) ps" "\<forall>i \<in> set ps. location (blink_array s ! i) < 2000"
    "\<forall>i < 2000. i \<in> set ps \<longleftrightarrow> location (blink_array s ! i) \<noteq> 0" using assms by (simp_all add: wf_fish_def)
  obtain s' where s': "tasklet_loop (mp1_list_head s) s = Some s'" "length (blink_array s') = 2000" "mp1_list_head s' = mp1_list_head s"
    "\<forall>i < 2000. blink_array s' ! i = (if i \<in> set ps then tick (blink_array s ! i) else blink_array s ! i)"
    "vmem s' = fold draw (contents s ps) (vmem s)"
    using tasklet_loop_spec [OF w(3,2,4)] w(1) by auto
  have b: "i \<in> set ps \<Longrightarrow> i < 2000" for i using path_bound [OF w(3)] w(1) by simp
  have "path (blink_array s') (mp1_list_head s') ps" unfolding s'(3) by (rule path_cong [OF w(3)]) (simp_all add: s'(2,4) w(1) b)
  then have "wf_fish s' ps" using w s'(2,4) b by (simp add: wf_fish_def)
  moreover have "contents s' ps = map tick (contents s ps)" using s'(4) b by (simp add: contents_def)
  ultimately show ?thesis using s'(1,5) by (simp add: mp1_rtc_tasklet_def)
qed

subsection \<open>Allocation and adding\<close>

lemma memset_spec:
  assumes "n \<le> length m"
  shows "ece391_memset m c n = Some (replicate n c @ drop n m)"
proof -
  have "memset_loop k i m c = Some (take i m @ replicate k c @ drop (i + k) m)" if "i + k \<le> length m" for i k m
    using that
  proof (induction k arbitrary: i m)
    case (Suc k)
    then show ?case by (simp add: put_def take_Suc_conv_app_nth)
  qed simp
  from this [of 0 n m] show ?thesis using assms by (simp add: ece391_memset_def)
qed

lemma memcpy_spec:
  assumes "n \<le> length d" and "n \<le> length s"
  shows "ece391_memcpy d s n = Some (0, take n s @ drop n d)"
proof -
  have "memcpy_loop k i d s = Some (take i d @ take k (drop i s) @ drop (i + k) d)" if "i + k \<le> length d" "i + k \<le> length s" for i k d
    using that
  proof (induction k arbitrary: i d)
    case (Suc k)
    then have "take (Suc k) (drop i s) = s ! i # take k (drop (Suc i) s)" by (simp add: Cons_nth_drop_Suc flip: take_Suc_Cons)
    then show ?case using Suc by (simp add: put_def at_def take_Suc_conv_app_nth)
  qed simp
  from this [of 0 n d] show ?thesis using assms by (simp add: ece391_memcpy_def)
qed

lemma malloc_loop_spec:
  assumes "length (blink_array s) = 2000" and "k \<le> 2000"
  shows "malloc_loop k s = Some (find (\<lambda>i. location (blink_array s ! i) = 0) [2000 - k..<2000])"
  using assms(2)
proof (induction k)
  case (Suc k)
  have "[2000 - Suc k..<2000] = (2000 - Suc k) # [2000 - k..<2000]"
    using Suc.prems upt_conv_Cons [of "2000 - Suc k" 2000] Suc_diff_Suc [of k 2000] by simp
  then show ?case using Suc assms(1) by (simp add: elem_def)
qed simp

lemma malloc_spec:
  assumes "wf_fish s ps"
  shows "(\<exists>i. mp1_malloc s = Some (Some i) \<and> i < 2000 \<and> i \<notin> set ps \<and> length ps < 2000) \<or> mp1_malloc s = Some None \<and> length ps = 2000"
proof -
  have w: "length (blink_array s) = 2000" "distinct ps" "\<forall>i < 2000. i \<in> set ps \<longleftrightarrow> location (blink_array s ! i) \<noteq> 0" using assms by (simp_all add: wf_fish_def)
  have sub: "set ps \<subseteq> {..<2000}" using assms path_bound by (fastforce simp: wf_fish_def)
  have len: "length ps = card (set ps)" using w(2) by (simp add: distinct_card)
  have m: "mp1_malloc s = Some (find (\<lambda>i. location (blink_array s ! i) = 0) [0..<2000])" using malloc_loop_spec [OF w(1), of 2000] by (simp add: mp1_malloc_def)
  show ?thesis
  proof (cases "find (\<lambda>i. location (blink_array s ! i) = 0) [0..<2000]")
    case None
    then have "{..<2000} \<subseteq> set ps" using w(3) by (auto simp: find_None_iff)
    then have "set ps = {..<2000}" using sub by blast
    then show ?thesis using None m len by simp
  next
    case (Some i)
    then have i: "i < 2000" "i \<notin> set ps" using w(3) by (auto simp: find_Some_iff)
    then have "set ps \<subset> {..<2000}" using sub by auto
    then have "card (set ps) < 2000" using psubset_card_mono [of "{..<2000 :: nat}" "set ps"] by simp
    then show ?thesis using Some m i len by simp
  qed
qed

text \<open>The structure as it enters the list.\<close>

definition blink_started :: "mp1_blink_struct \<Rightarrow> mp1_blink_struct" where
  "blink_started b = plain (b\<lparr>status := 1, countdown := on_length b\<rparr>)"

lemma add_spec:
  assumes "wf_fish s ps" and "location b \<noteq> 0"
  shows "if 2000 \<le> location b \<or> length ps = 2000 then mp1_ioctl_add b s = Some (-1, s)
    else \<exists>i s'. mp1_ioctl_add b s = Some (0, s') \<and> wf_fish s' (i # ps) \<and> contents s' (i # ps) = blink_started b # contents s ps
      \<and> vmem s' = (vmem s)(cell b := on_char b)"
proof (cases "2000 \<le> location b \<or> length ps = 2000")
  case True
  then show ?thesis using malloc_spec [OF assms(1)] by (auto simp: mp1_ioctl_add_def Let_def)
next
  case False
  then obtain i where i: "mp1_malloc s = Some (Some i)" "i < 2000" "i \<notin> set ps" using malloc_spec [OF assms(1)] by auto
  have w: "length (blink_array s) = 2000" "distinct ps" "path (blink_array s) (mp1_list_head s) ps"
    "\<forall>i < 2000. i \<in> set ps \<longleftrightarrow> location (blink_array s ! i) \<noteq> 0" "\<forall>i \<in> set ps. location (blink_array s ! i) < 2000" using assms(1) by (simp_all add: wf_fish_def)
  let ?b = "b\<lparr>status := 1, countdown := on_length b\<rparr>"
  define s' where "s' = s\<lparr>blink_array := (blink_array s)[i := ?b\<lparr>nxt := mp1_list_head s\<rparr>], mp1_list_head := Some i, vmem := (vmem s)(cell b := on_char b)\<rparr>"
  have lb: "location ?b < 2000" "cell ?b = cell b" using False by (simp_all add: cell_def not_le)
  have "mp1_ioctl_add b s = Some (0, s')"
    using False i w(1) poke_ok [OF lb(1), unfolded lb(2)] lb(2) by (simp add: mp1_ioctl_add_def Let_def upd_elem_def s'_def)
  have arr: "j < 2000 \<Longrightarrow> blink_array s' ! j = (if j = i then ?b\<lparr>nxt := mp1_list_head s\<rparr> else blink_array s ! j)" for j using w(1) by (simp add: s'_def nth_list_update)
  have inp: "j \<in> set ps \<Longrightarrow> j < 2000 \<and> j \<noteq> i" for j using i(3) path_bound [OF w(3)] w(1) by auto
  have "path (blink_array s') (mp1_list_head s) ps" using path_other [OF w(3) i(3)] by (simp add: s'_def)
  then have "path (blink_array s') (mp1_list_head s') (i # ps)" using arr [OF i(2)] i(2) w(1) by (simp add: s'_def)
  then have "wf_fish s' (i # ps)" using w i inp arr assms(2) lb(1) by (auto simp: wf_fish_def) (simp_all add: s'_def)
  moreover have "contents s' (i # ps) = blink_started b # contents s ps" using arr i(2) inp by (auto simp: contents_def blink_started_def)
  ultimately show ?thesis using \<open>mp1_ioctl_add b s = Some (0, s')\<close> False by (auto simp: s'_def)
qed

subsection \<open>Searching and removing\<close>

lemma find_loop_spec:
  assumes "path (blink_array s) p ps"
  shows "find_loop l p s = Some (find (\<lambda>i. location (blink_array s ! i) = l) ps)"
  using assms
proof (induction ps arbitrary: p)
  case Nil
  then show ?case by (subst find_loop.simps) simp
next
  case (Cons i ps)
  then show ?case by (subst find_loop.simps) (auto simp: elem_def)
qed

lemma find_helper_spec:
  "wf_fish s ps \<Longrightarrow> mp1_find_helper a s = Some (find (\<lambda>i. location (blink_array s ! i) = ucast a) ps)"
  by (simp add: mp1_find_helper_def wf_fish_def find_loop_spec)

lemma find_prev_spec:
  assumes "load s l = Some p" and "path (blink_array s) p (us @ i # vs)" and "i \<notin> set us"
  shows "remove_find_prev i l s = Some (if us = [] then l else Next (last us))"
  using assms
proof (induction us arbitrary: l p)
  case Nil
  then show ?case by (subst remove_find_prev.simps) simp
next
  case (Cons j us)
  have j: "p = Some j" "j < length (blink_array s)" "path (blink_array s) (nxt (blink_array s ! j)) (us @ i # vs)" "j \<noteq> i" "i \<notin> set us" using Cons.prems(2,3) by auto
  have "load s (Next j) = Some (nxt (blink_array s ! j))" using j(2) by (simp add: load_def elem_def)
  from Cons.IH [OF this j(3,5)] show ?case using Cons.prems(1) j(1,4) by (subst remove_find_prev.simps) simp
qed

text \<open>Unlinking: the path goes around the element.\<close>

lemma path_unlink:
  assumes "path arr p (us @ i # vs)" and "distinct (us @ i # vs)" and "us \<noteq> []"
  shows "path (arr[last us := (arr ! last us)\<lparr>nxt := nxt (arr ! i)\<rparr>]) p (us @ vs)"
  using assms
proof (induction us arbitrary: p)
  case (Cons j us)
  have j: "p = Some j" "j < length arr" "path arr (nxt (arr ! j)) (us @ i # vs)" "j \<notin> set (us @ vs)" using Cons.prems(1,2) by auto
  show ?case
  proof (cases "us = []")
    case True
    have "path arr (nxt (arr ! i)) vs" using j(3) True by simp
    then have "path (arr[j := (arr ! j)\<lparr>nxt := nxt (arr ! i)\<rparr>]) (nxt (arr ! i)) vs" by (rule path_other) (use j(4) True in simp)
    then show ?thesis using True j by simp
  next
    case False
    have "j \<noteq> last us" using j(4) False by auto
    then show ?thesis using Cons.IH [OF j(3)] Cons.prems(2) False j(1,2) by simp
  qed
qed simp

lemma find_splitE:
  assumes "find P ps = Some i"
  obtains us vs where "ps = us @ i # vs" and "\<forall>j \<in> set us. \<not> P j" and "P i"
  using assms
proof (induction ps arbitrary: thesis)
  case (Cons j ps)
  show ?case
  proof (cases "P j")
    case True
    then show ?thesis using Cons.prems(1) [of "[]" ps] Cons.prems(2) by simp
  next
    case False
    then obtain us vs where "ps = us @ i # vs" "\<forall>k \<in> set us. \<not> P k" "P i" using Cons.IH Cons.prems(2) by auto
    then show ?thesis using Cons.prems(1) [of "j # us" vs] False by simp
  qed
qed simp

fun remove_first :: "('a \<Rightarrow> bool) \<Rightarrow> 'a list \<Rightarrow> 'a list" where
  "remove_first P [] = []"
| "remove_first P (x # xs) = (if P x then xs else x # remove_first P xs)"

fun update_first :: "('a \<Rightarrow> bool) \<Rightarrow> ('a \<Rightarrow> 'a) \<Rightarrow> 'a list \<Rightarrow> 'a list" where
  "update_first P f [] = []"
| "update_first P f (x # xs) = (if P x then f x # xs else x # update_first P f xs)"

lemma first_split:
  assumes "\<forall>j \<in> set us. \<not> P (g j)" and "P (g i)"
  shows "remove_first P (map g (us @ i # vs)) = map g (us @ vs)" and "update_first P f (map g (us @ i # vs)) = map g us @ f (g i) # map g vs"
    and "find P (map g (us @ i # vs)) = Some (g i)"
  using assms by (induction us) simp_all

lemma path_suffix: "path arr p (us @ i # vs) \<Longrightarrow> i < length arr \<and> path arr (nxt (arr ! i)) vs"
  by (induction us arbitrary: p) auto

lemma path_head: "path arr p (us @ i # vs) \<Longrightarrow> us = [] \<Longrightarrow> p = Some i"
  by simp

lemma remove_elem:
  assumes w: "wf_fish s ps" and ps: "ps = us @ i # vs"
  defines "s' \<equiv> mp1_free i (store (if us = [] then Head else Next (last us)) (nxt (blink_array s ! i)) s)"
  shows "wf_fish s' (us @ vs)" and "contents s' (us @ vs) = contents s (us @ vs)" and "vmem s' = vmem s"
proof -
  have f: "length (blink_array s) = 2000" "distinct (us @ i # vs)" "path (blink_array s) (mp1_list_head s) (us @ i # vs)"
    "\<forall>j < 2000. j \<in> set ps \<longleftrightarrow> location (blink_array s ! j) \<noteq> 0" "\<forall>j \<in> set ps. location (blink_array s ! j) < 2000"
    using w by (simp_all add: wf_fish_def ps)
  have i: "i < 2000" "i \<notin> set (us @ vs)" "path (blink_array s) (nxt (blink_array s ! i)) vs" using path_suffix [OF f(3)] f(1,2) by auto
  have b: "j \<in> set ps \<Longrightarrow> j < 2000" for j using path_bound [OF f(3)] f(1) ps by simp
  have arr: "plain (blink_array s' ! j) = (if j = i then zero_blink else plain (blink_array s ! j))" if "j < 2000" for j
    using that f(1) by (cases "us = []"; cases "j = i"; cases "j = last us") (simp_all add: s'_def mp1_free_def store_def upd_elem_def plain_def zero_blink_def)
  then have loc: "location (blink_array s' ! j) = (if j = i then 0 else location (blink_array s ! j))" if "j < 2000" for j
    using that plain_simps(1) [of "blink_array s' ! j"] by (auto simp: zero_blink_def)
  have "path (blink_array s') (mp1_list_head s') (us @ vs)"
  proof (cases "us = []")
    case True
    then show ?thesis using path_other [OF i(3), of i zero_blink] i(2) by (simp add: s'_def mp1_free_def store_def upd_elem_def)
  next
    case False
    then show ?thesis using path_other [OF path_unlink [OF f(3,2) False] i(2), of zero_blink] by (simp add: s'_def mp1_free_def store_def upd_elem_def)
  qed
  moreover have "length (blink_array s') = 2000" using f(1) by (simp add: s'_def mp1_free_def store_def)
  moreover have "j \<in> set (us @ vs) \<longleftrightarrow> location (blink_array s' ! j) \<noteq> 0" if "j < 2000" for j using f(4) loc [OF that] that i(2) ps by auto
  moreover have "location (blink_array s' ! j) < 2000" if "j \<in> set (us @ vs)" for j using f(5) loc b that ps by auto
  ultimately show "wf_fish s' (us @ vs)" using f(2) by (simp add: wf_fish_def)
  show "contents s' (us @ vs) = contents s (us @ vs)" using arr b i(2) ps by (auto simp: contents_def)
  show "vmem s' = vmem s" by (simp add: s'_def mp1_free_def store_def)
qed

lemma contents_find:
  "find (\<lambda>b. location b = l) (contents s ps) = map_option (\<lambda>i. plain (blink_array s ! i)) (find (\<lambda>i. location (blink_array s ! i) = l) ps)"
  by (induction ps) (simp_all add: contents_def)

lemma remove_spec:
  assumes w: "wf_fish s ps"
  shows "if find (\<lambda>b. location b = ucast a) (contents s ps) = None then mp1_ioctl_remove a s = Some (-1, s)
    else \<exists>s' ps'. mp1_ioctl_remove a s = Some (0, s') \<and> wf_fish s' ps' \<and> contents s' ps' = remove_first (\<lambda>b. location b = ucast a) (contents s ps) \<and> vmem s' = vmem s"
proof (cases "find (\<lambda>i. location (blink_array s ! i) = ucast a) ps")
  case None
  then show ?thesis using find_helper_spec [OF w, of a] by (simp add: mp1_ioctl_remove_def contents_find)
next
  case (Some i)
  from find_splitE [OF Some] obtain us vs where sp: "ps = us @ i # vs" "\<forall>j \<in> set us. location (blink_array s ! j) \<noteq> ucast a" "location (blink_array s ! i) = ucast a"
    by blast
  define t where "t = mp1_free i (store (if us = [] then Head else Next (last us)) (nxt (blink_array s ! i)) s)"
  note r = remove_elem [OF w sp(1), folded t_def]
  have p: "path (blink_array s) (mp1_list_head s) (us @ i # vs)" "i \<notin> set us" using w sp(1) by (auto simp: wf_fish_def)
  have "load s Head = Some (mp1_list_head s)" by (simp add: load_def)
  from find_prev_spec [OF this p] have "mp1_ioctl_remove a s = Some (0, t)"
    using find_helper_spec [OF w, of a] Some path_suffix [OF p(1)] by (simp add: mp1_ioctl_remove_def elem_def t_def)
  moreover have "remove_first (\<lambda>b. location b = ucast a) (contents s ps) = contents s (us @ vs)"
    unfolding contents_def sp(1) by (rule first_split(1)) (use sp in simp_all)
  ultimately show ?thesis using r Some by (auto simp: contents_find)
qed

subsection \<open>Synchronising\<close>

definition copy_times :: "mp1_blink_struct \<Rightarrow> mp1_blink_struct \<Rightarrow> mp1_blink_struct" where
  "copy_times a b = b\<lparr>on_length := on_length a, off_length := off_length a, countdown := countdown a, status := status a\<rparr>"

lemma copy_times_simps [simp]:
  "location (copy_times a b) = location b" "nxt (copy_times a b) = nxt b" "plain (copy_times a b) = copy_times (plain a) (plain b)"
  "off_char (copy_times a b) = off_char b" "cell (copy_times a b) = cell b" "copy_times (plain a) b = copy_times a b"
  by (simp_all add: copy_times_def plain_def cell_def)

lemma sync_spec:
  fixes a :: u32
  assumes w: "wf_fish s ps"
  defines "x \<equiv> find (\<lambda>b. location b = ucast (drop_bit 16 a)) (contents s ps)" and "y \<equiv> find (\<lambda>b. location b = ucast (a AND 0xFFFF)) (contents s ps)"
  shows "if x = None \<or> y = None then mp1_ioctl_sync a s = Some (-1, s)
    else \<exists>s'. mp1_ioctl_sync a s = Some (0, s') \<and> wf_fish s' ps
      \<and> contents s' ps = update_first (\<lambda>b. location b = ucast (a AND 0xFFFF)) (copy_times (the x)) (contents s ps)
      \<and> vmem s' = (vmem s)(cell (the y) := off_char (the y))"
proof (cases "x = None \<or> y = None")
  case True
  then show ?thesis using find_helper_spec [OF w] by (auto simp: mp1_ioctl_sync_def x_def y_def contents_find split: option.splits)
next
  case False
  then obtain e i where e: "find (\<lambda>i. location (blink_array s ! i) = ucast (drop_bit 16 a)) ps = Some e" "x = Some (plain (blink_array s ! e))"
    and i: "find (\<lambda>i. location (blink_array s ! i) = ucast (a AND 0xFFFF)) ps = Some i" "y = Some (plain (blink_array s ! i))"
    by (auto simp: x_def y_def contents_find)
  from find_splitE [OF i(1)] obtain us vs where sp: "ps = us @ i # vs" "\<forall>j \<in> set us. location (blink_array s ! j) \<noteq> ucast (a AND 0xFFFF)"
    "location (blink_array s ! i) = ucast (a AND 0xFFFF)" by blast
  from find_splitE [OF e(1)] have "e \<in> set ps" by (metis in_set_conv_decomp)
  have f: "length (blink_array s) = 2000" "distinct ps" "path (blink_array s) (mp1_list_head s) ps" "i \<in> set ps" using w sp(1) by (simp_all add: wf_fish_def)
  have b: "j \<in> set ps \<Longrightarrow> j < 2000" for j using path_bound [OF f(3)] f(1) by simp
  let ?a = "blink_array s ! e" and ?b = "blink_array s ! i"
  define s' where "s' = s\<lparr>blink_array := (blink_array s)[i := copy_times ?a ?b], vmem := (vmem s)(cell ?b := off_char ?b)\<rparr>"
  have "\<not> bit (ucast (status ?a) AND 1 :: u8) 7" by (simp add: bit_simps)
  moreover have "location (copy_times ?a ?b) < 2000" using w f(4) by (simp add: wf_fish_def)
  note poke_ok [OF this, unfolded copy_times_simps]
  ultimately have run: "mp1_ioctl_sync a s = Some (0, s')"
    using find_helper_spec [OF w] e(1) i(1) b [OF \<open>e \<in> set ps\<close>] b [OF f(4)] f(1)
    by (simp add: mp1_ioctl_sync_def elem_def upd_elem_def s'_def Let_def) (simp add: copy_times_def cell_def)
  have arr: "blink_array s' ! j = (if j = i then copy_times ?a ?b else blink_array s ! j)" if "j < 2000" for j using that f(1) by (simp add: s'_def nth_list_update)
  have "path (blink_array s') (mp1_list_head s') ps" unfolding s'_def by (simp, rule path_cong [OF f(3)]) (use arr b in \<open>auto simp: s'_def\<close>)
  then have "wf_fish s' ps" using w arr b by (auto simp: wf_fish_def) (simp_all add: s'_def)
  moreover have "update_first (\<lambda>b. location b = ucast (a AND 0xFFFF)) (copy_times (the x)) (contents s ps)
      = contents s us @ copy_times ?a (plain ?b) # contents s vs"
    unfolding contents_def sp(1) e(2) option.sel copy_times_simps by (rule first_split(2)) (use sp in simp_all)
  moreover have "contents s' ps = contents s us @ copy_times ?a (plain ?b) # contents s vs"
    using arr b f(2) unfolding contents_def sp(1) by auto
  ultimately show ?thesis using False run i(2) by (simp add: s'_def)
qed

subsection \<open>Sequences of operations\<close>

datatype blink_op = Tick | Add mp1_blink_struct | Remove u32 | Sync u32

fun blink_do :: "blink_op \<Rightarrow> fish \<Rightarrow> (int \<times> fish) option" where
  "blink_do Tick s = map_option (\<lambda>s. (0, s)) (mp1_rtc_tasklet s)"
| "blink_do (Add b) s = map_option (\<lambda>(r, _, s). (r, s)) (mp1_ioctl (Struct b) 0 s)"
| "blink_do (Remove a) s = map_option (\<lambda>(r, _, s). (r, s)) (mp1_ioctl (Number a) 1 s)"
| "blink_do (Sync a) s = map_option (\<lambda>(r, _, s). (r, s)) (mp1_ioctl (Number a) 3 s)"

fun blink_run :: "blink_op list \<Rightarrow> fish \<Rightarrow> (int list \<times> fish) option" where
  "blink_run [] s = Some ([], s)"
| "blink_run (op # ops) s = do {
     (r, s) \<leftarrow> blink_do op s;
     (rs, s) \<leftarrow> blink_run ops s;
     Some (r # rs, s)
   }"

text \<open>The specification: a list of characters and the video page.\<close>

fun blink_spec :: "blink_op \<Rightarrow> mp1_blink_struct list \<times> (u32 \<Rightarrow> u8) \<Rightarrow> int \<times> mp1_blink_struct list \<times> (u32 \<Rightarrow> u8)" where
  "blink_spec Tick (bs, v) = (0, map tick bs, fold draw bs v)"
| "blink_spec (Add b) (bs, v) =
     (if 2000 \<le> location b \<or> length bs = 2000 then (-1, bs, v) else (0, blink_started b # bs, v(cell b := on_char b)))"
| "blink_spec (Remove a) (bs, v) = (case find (\<lambda>b. location b = ucast a) bs of
     None \<Rightarrow> (-1, bs, v)
   | Some _ \<Rightarrow> (0, remove_first (\<lambda>b. location b = ucast a) bs, v))"
| "blink_spec (Sync a) (bs, v) =
     (case (find (\<lambda>b. location b = ucast (drop_bit 16 a)) bs, find (\<lambda>b. location b = ucast (a AND 0xFFFF)) bs) of
        (Some x, Some y) \<Rightarrow> (0, update_first (\<lambda>b. location b = ucast (a AND 0xFFFF)) (copy_times x) bs, v(cell y := off_char y))
      | _ \<Rightarrow> (-1, bs, v))"

fun spec_run :: "blink_op list \<Rightarrow> mp1_blink_struct list \<times> (u32 \<Rightarrow> u8) \<Rightarrow> int list \<times> mp1_blink_struct list \<times> (u32 \<Rightarrow> u8)" where
  "spec_run [] d = ([], d)"
| "spec_run (op # ops) d = (let (r, d) = blink_spec op d; (rs, d) = spec_run ops d in (r # rs, d))"

fun on_screen :: "blink_op \<Rightarrow> bool" where
  "on_screen (Add b) = (location b \<noteq> 0)"
| "on_screen _ = True"

lemma blink_do_spec:
  assumes w: "wf_fish s ps" and op: "on_screen op"
  shows "\<exists>r s' ps'. blink_do op s = Some (r, s') \<and> wf_fish s' ps' \<and> (r, contents s' ps', vmem s') = blink_spec op (contents s ps, vmem s)"
proof (cases op)
  case Tick
  then show ?thesis using tasklet_spec [OF w] by force
next
  case (Add b)
  have len: "length (contents s ps) = length ps" by (simp add: contents_def)
  show ?thesis
  proof (cases "2000 \<le> location b \<or> length ps = 2000")
    case True
    then have "mp1_ioctl_add b s = Some (-1, s)" using Add add_spec [OF w, of b] op by simp
    then show ?thesis using True Add w len by (auto simp: mp1_ioctl_def)
  next
    case False
    then obtain i s' where "mp1_ioctl_add b s = Some (0, s')" "wf_fish s' (i # ps)" "contents s' (i # ps) = blink_started b # contents s ps"
      "vmem s' = (vmem s)(cell b := on_char b)" using Add add_spec [OF w, of b] op by auto
    then show ?thesis using False Add len by (intro exI [of _ 0] exI [of _ s'] exI [of _ "i # ps"]) (simp add: mp1_ioctl_def)
  qed
next
  case (Remove a)
  show ?thesis using Remove remove_spec [OF w, of a] w
    by (cases "find (\<lambda>b. location b = ucast a) (contents s ps)") (force simp: mp1_ioctl_def)+
next
  case (Sync a)
  let ?x = "find (\<lambda>b. location b = ucast (drop_bit 16 a)) (contents s ps)" and ?y = "find (\<lambda>b. location b = ucast (a AND 0xFFFF)) (contents s ps)"
  show ?thesis
  proof (cases "?x = None \<or> ?y = None")
    case True
    then have "mp1_ioctl_sync a s = Some (-1, s)" using sync_spec [OF w, of a] by simp
    then show ?thesis using True Sync w by (auto simp: mp1_ioctl_def split: option.splits)
  next
    case False
    then obtain x y s' where "?x = Some x" "?y = Some y" "mp1_ioctl_sync a s = Some (0, s')" "wf_fish s' ps"
      "contents s' ps = update_first (\<lambda>b. location b = ucast (a AND 0xFFFF)) (copy_times x) (contents s ps)" "vmem s' = (vmem s)(cell y := off_char y)"
      using sync_spec [OF w, of a] by auto
    then show ?thesis using Sync by (intro exI [of _ 0] exI [of _ s'] exI [of _ ps]) (simp add: mp1_ioctl_def)
  qed
qed

lemma blink_run_spec:
  assumes "wf_fish s ps" and "list_all on_screen ops"
  shows "\<exists>rs s' ps'. blink_run ops s = Some (rs, s') \<and> wf_fish s' ps' \<and> (rs, contents s' ps', vmem s') = spec_run ops (contents s ps, vmem s)"
  using assms
proof (induction ops arbitrary: s ps)
  case (Cons op ops)
  obtain r s1 p1 where s1: "blink_do op s = Some (r, s1)" "wf_fish s1 p1" "(r, contents s1 p1, vmem s1) = blink_spec op (contents s ps, vmem s)"
    using blink_do_spec [OF Cons.prems(1), of op] Cons.prems(2) by auto
  obtain rs s2 p2 where s2: "blink_run ops s1 = Some (rs, s2)" "wf_fish s2 p2" "(rs, contents s2 p2, vmem s2) = spec_run ops (contents s1 p1, vmem s1)"
    using Cons.IH [OF s1(2)] Cons.prems(2) by auto
  have "spec_run (op # ops) (contents s ps, vmem s) = (r # rs, contents s2 p2, vmem s2)" by (simp add: Let_def flip: s1(3) s2(3))
  then show ?case using s1(1) s2(1,2) by (intro exI [of _ "r # rs"] exI [of _ s2] exI [of _ p2]) simp
qed (auto intro: exI)

subsection \<open>A character at location 0\<close>

lemma self_loop:
  assumes "tasklet_loop p s = Some s'"
  shows "\<not> (\<exists>i. p = Some i \<and> nxt (blink_array s ! i) = Some i)"
proof (rule tasklet_loop.raw_induct [where P = "\<lambda>p s _. \<not> (\<exists>i. p = Some i \<and> nxt (blink_array s ! i) = Some i)", OF _ assms])
  fix f :: "nat option \<Rightarrow> fish \<Rightarrow> fish option" and p s s'
  assume 1: "\<And>p s s'. f p s = Some s' \<Longrightarrow> \<not> (\<exists>i. p = Some i \<and> nxt (blink_array s ! i) = Some i)"
    "(case p of None \<Rightarrow> Some s | Some i \<Rightarrow> do { s \<leftarrow> blink_elem i s; b \<leftarrow> elem s i; f (nxt b) s }) = Some s'"
  show "\<not> (\<exists>i. p = Some i \<and> nxt (blink_array s ! i) = Some i)"
  proof
    assume "\<exists>i. p = Some i \<and> nxt (blink_array s ! i) = Some i"
    then obtain i where i: "p = Some i" "nxt (blink_array s ! i) = Some i" by blast
    then obtain s1 b where s1: "blink_elem i s = Some s1" "elem s1 i = Some b" "f (nxt b) s1 = Some s'" using 1(2) by (auto simp: Option.bind_eq_Some_conv)
    have "nxt (blink_array s1 ! i) = Some i"
      using s1(1) i(2) by (auto simp: blink_elem_def elem_def upd_elem_def mp1_poke_def Let_def Option.bind_eq_Some_conv split: if_splits)
    then show False using 1(1) [OF s1(3)] s1(2) by (auto simp: elem_def split: if_splits)
  qed
qed

lemma wf_fish_start: "wf_fish (fish_start v) []"
  by (simp add: wf_fish_def fish_start_def zero_blink_def)

lemma add_first_slot:
  assumes "length (blink_array s) = 2000" and "location (blink_array s ! 0) = 0" and "location b < 2000"
  shows "\<exists>s'. mp1_ioctl_add b s = Some (0, s') \<and> length (blink_array s') = 2000 \<and> mp1_list_head s' = Some 0
    \<and> location (blink_array s' ! 0) = location b \<and> nxt (blink_array s' ! 0) = mp1_list_head s"
proof -
  let ?b = "b\<lparr>status := 1, countdown := on_length b\<rparr>"
  have "[0..<2000] = 0 # [1..<2000]" by (subst upt_conv_Cons) simp_all
  then have m: "mp1_malloc s = Some (Some 0)" using malloc_loop_spec [OF assms(1), of 2000] assms(2) by (simp add: mp1_malloc_def)
  have "location ?b < 2000" using assms(3) by simp
  from poke_ok [OF this] show ?thesis using m assms(1,3) by (simp add: mp1_ioctl_add_def Let_def upd_elem_def not_le)
qed

subsection \<open>Properties\<close>

text \<open>
  C5: The linked list of \<^verbatim>\<open>blink.S\<close> in its array implements a plain list of blinking characters: every sequence of clock
  ticks, additions, removals and synchronisations (added characters at a location other than 0) returns, with no
  access outside of the array or of the video page, gives the results of the specification, and leaves a
  well-formed list with the characters and the video page of the specification.\<close>

theorem blink_refines:
  assumes "wf_fish s ps" and "list_all on_screen ops"
  shows "\<exists>rs s' ps'. blink_run ops s = Some (rs, s') \<and> wf_fish s' ps' \<and> (rs, contents s' ps', vmem s') = spec_run ops (contents s ps, vmem s)"
  using assms by (rule blink_run_spec)

theorem blink_refines_witness:
  "\<exists>rs s' ps'. blink_run [Add (zero_blink\<lparr>location := 5, on_char := 65, on_length := 1, off_length := 1\<rparr>), Tick, Remove 5, Remove 5] (fish_start (\<lambda>_. 0)) = Some (rs, s')
    \<and> wf_fish s' ps' \<and> rs = [0, 0, 0, -1] \<and> contents s' ps' = []"
  using blink_refines [OF wf_fish_start, of "[Add (zero_blink\<lparr>location := 5, on_char := 65, on_length := 1, off_length := 1\<rparr>), Tick, Remove 5, Remove 5]" "\<lambda>_. 0"]
  by (simp add: contents_def blink_started_def plain_def tick_def expired_def zero_blink_def) blast

text \<open>
  C33: A character at location 0, which \<^verbatim>\<open>mp1_ioctl\<close> accepts, makes \<^verbatim>\<open>mp1_malloc\<close> hand out its structure again: the next
  addition overwrites it and links it to itself, and the tasklet then never returns.\<close>

theorem location_zero_loops:
  assumes "location b = 0" and "location c < 2000"
  shows "\<exists>s1 s2. mp1_ioctl_add b (fish_start v) = Some (0, s1) \<and> mp1_ioctl_add c s1 = Some (0, s2) \<and> mp1_rtc_tasklet s2 = None"
proof -
  have "length (blink_array (fish_start v)) = 2000" "location (blink_array (fish_start v) ! 0) = 0" by (simp_all add: fish_start_def zero_blink_def)
  from add_first_slot [OF this, of b] obtain s1 where s1: "mp1_ioctl_add b (fish_start v) = Some (0, s1)" "length (blink_array s1) = 2000"
    "mp1_list_head s1 = Some 0" "location (blink_array s1 ! 0) = 0" using assms(1) by auto
  from add_first_slot [OF s1(2,4) assms(2)] obtain s2 where s2: "mp1_ioctl_add c s1 = Some (0, s2)" "mp1_list_head s2 = Some 0" "nxt (blink_array s2 ! 0) = Some 0"
    using s1(3) by auto
  have "mp1_rtc_tasklet s2 = None" using self_loop [of "Some 0" s2] s2(2,3) by (cases "mp1_rtc_tasklet s2") (auto simp: mp1_rtc_tasklet_def)
  then show ?thesis using s1(1) s2(1) by blast
qed

theorem location_zero_loops_witness:
  "\<exists>s1 s2. mp1_ioctl_add zero_blink (fish_start (\<lambda>_. 0)) = Some (0, s1) \<and> mp1_ioctl_add zero_blink s1 = Some (0, s2) \<and> mp1_rtc_tasklet s2 = None"
  using location_zero_loops [of zero_blink zero_blink] by (simp add: zero_blink_def)

end
