(* ===== verification/FsTest.thy ===== *)
theory FsTest
  imports Terminal
begin

text \<open>
  The test routines at the end of \<^verbatim>\<open>student-distrib/file_system.c\<close>, which print the directory and the contents of files
  on a cleared screen. The main result: the loop that prints a file shows all of its bytes and ends.
\<close>

subsection \<open>The code\<close>

text \<open>The locals \<^verbatim>\<open>to_print\<close>, \<^verbatim>\<open>temp_string\<close> and \<^verbatim>\<open>becausenonullisguaranteed\<close>.\<close>

abbreviation to_print :: ptr where "to_print \<equiv> (Local 7, 0)"
abbreviation temp_string :: ptr where "temp_string \<equiv> (Local 8, 0)"
abbreviation full_name :: ptr where "full_name \<equiv> (Local 9, 0)"
abbreviation COLS :: u32 where "COLS \<equiv> 80"

definition inode_length :: "u32 \<Rightarrow> kernel \<Rightarrow> u32" where
  "inode_length inode_num s = fs_word s ((inode_num + 1) * BLK_SIZE_UINTS)"

fun index_loop :: "nat \<Rightarrow> u32 \<Rightarrow> kernel \<Rightarrow> kernel option" where
  "index_loop 0 i s = Some s"
| "index_loop (Suc k) i s = do {
     let s = snd (read_dentry_by_index i to_print s);
     let s = upd_mem (\<lambda>m. memcpy m full_name to_print FILENAME_LEN) s;
     let len = inode_length (dentry_inode_num (mem s) to_print) s;
     (_, s) \<leftarrow> printf (''%s, %u, %u'' @ [CHR 0x0A]) [ArgS (string_at (mem s) full_name), ArgW (dentry_file_type (mem s) to_print), ArgW len] s;
     index_loop k (i + 1) s
   }"

definition test_access_by_index :: "kernel \<Rightarrow> kernel option" where
  "test_access_by_index s = do {
     let s = st8 (padd full_name 32) 0 s;
     let num_of_files = fs_word s 0;
     let s = clear_screen s;
     s \<leftarrow> clear_buffer s;
     index_loop (unat num_of_files) 0 s
   }"

text \<open>The loop of the other two routines; the inner loop of \<^verbatim>\<open>putc\<close> is that of \<^verbatim>\<open>terminal_write\<close>.\<close>

partial_function (option) print_loop :: "u32 \<Rightarrow> u32 \<Rightarrow> u32 \<Rightarrow> kernel \<Rightarrow> kernel option" where
  "print_loop inode_num left printed s =
     (if left > 0
      then do {
        let how_much = (if left \<ge> COLS then COLS else left);
        (are_we_good, s) \<leftarrow> read_data inode_num printed temp_string how_much s;
        if are_we_good = -1 then Some s
        else do {
          let s = (if how_much < COLS then upd_mem (\<lambda>m. memset m (padd temp_string how_much) 0 (COLS - how_much)) s else s);
          let s = write_loop (unat how_much) temp_string s;
          print_loop inode_num (left - of_int are_we_good) (printed + of_int are_we_good) s
        }
      }
      else Some s)"

definition test_access_by_file_name :: "kernel \<Rightarrow> kernel option" where
  "test_access_by_file_name s = do {
     let s = upd_mem (\<lambda>m. memset m temp_string 0 (COLS + 1)) s;
     let s = clear_screen s;
     s \<leftarrow> clear_buffer s;
     (_, s) \<leftarrow> read_dentry_by_name (lit ''created.txt'') to_print s;
     let inode_num = dentry_inode_num (mem s) to_print;
     s \<leftarrow> print_loop inode_num (inode_length inode_num s) 0 s;
     (_, s) \<leftarrow> printf ([CHR 0x0A] @ ''%s'') [ArgS (string_at (mem s) to_print)] s;
     Some s
   }"

text \<open>\<open>index_to_be_printed\<close> is a static variable: an argument, and its new value a result.\<close>

definition test_data_printing :: "int \<Rightarrow> kernel \<Rightarrow> (int \<times> kernel) option" where
  "test_data_printing index_to_be_printed s = do {
     let num_of_files = sint (fs_word s 0);
     let s = upd_mem (\<lambda>m. memset m temp_string 0 (COLS + 1)) s;
     let s = st8 (padd full_name 32) 0 s;
     let s = clear_screen s;
     s \<leftarrow> clear_buffer s;
     let index = index_to_be_printed + 1;
     index \<leftarrow> (if num_of_files = 0 then None else Some (sgn index * (\<bar>index\<bar> mod \<bar>num_of_files\<bar>)));
     let s = snd (read_dentry_by_index (of_int index) to_print s);
     let inode_num = dentry_inode_num (mem s) to_print;
     s \<leftarrow> print_loop inode_num (inode_length inode_num s) 0 s;
     let s = upd_mem (\<lambda>m. memcpy m full_name to_print FILENAME_LEN) s;
     (_, s) \<leftarrow> printf ([CHR 0x0A] @ ''%s'') [ArgS (string_at (mem s) full_name)] s;
     Some (index, s)
   }"

subsection \<open>Printing a file\<close>

text \<open>A file that can be printed: it is well formed, and the screen does not overlap the image.\<close>

definition printable :: "kernel \<Rightarrow> nat \<Rightarrow> bool" where
  "printable s ino \<longleftrightarrow> wf_image s \<and> wf_file s ino \<and> term_ok (terminals s (sched_term_id s))
     \<and> img_separate s (Phys, vid_mem (terminals s (sched_term_id s))) 4000"

text \<open>Changes of local arrays concern neither the screen nor the image.\<close>

lemma printable_local:
  assumes "printable s ino" and "\<And>q. fst q = Phys \<Longrightarrow> m q = mem s q"
  shows "printable (s\<lparr>mem := m\<rparr>) ino" and "file_bytes (s\<lparr>mem := m\<rparr>) ino = file_bytes s ino" and "abs_screen i (s\<lparr>mem := m\<rparr>) = abs_screen i s"
    and "file_size (s\<lparr>mem := m\<rparr>) ino = file_size s ino"
proof -
  have w: "wf_image s" "wf_file s ino" using assms(1) by (simp_all add: printable_def)
  have same: "same_image s (s\<lparr>mem := m\<rparr>)" using assms(2) by (simp add: same_image_def img_def)
  note f = same_image_file [OF same w] and c = same_image_counts [OF same]
  show "printable (s\<lparr>mem := m\<rparr>) ino" using assms(1) f by (simp add: printable_def img_separate_def c)
  show "file_bytes (s\<lparr>mem := m\<rparr>) ino = file_bytes s ino" "file_size (s\<lparr>mem := m\<rparr>) ino = file_size s ino" using f by simp_all
  show "abs_screen i (s\<lparr>mem := m\<rparr>) = abs_screen i s" using assms(2) by (simp add: abs_screen_def screen_rows_def screen_byte_def padd_def)
qed

lemma printable_puts:
  fixes xs :: "u8 list"
  assumes "printable s ino"
  defines "s' \<equiv> puts_loop (sched_term_id s) xs s"
  shows "printable s' ino" and "file_bytes s' ino = file_bytes s ino" and "file_size s' ino = file_size s ino"
proof -
  let ?i = "sched_term_id s"
  have w: "wf_image s" "wf_file s ino" and t: "term_ok (terminals s ?i)" and sep: "img_separate s (Phys, vid_mem (terminals s ?i)) 4000"
    using assms(1) by (simp_all add: printable_def)
  have "mem s' (img s n) = mem s (img s n)" if "n < img_size s" for n
    using sep that unfolding s'_def by (intro puts_loop_frame(2) [OF t]) (simp add: img_separate_def separate_def img_add)
  then have same: "same_image s s'" by (simp add: same_image_def s'_def)
  note f = same_image_file [OF same w] and c = same_image_counts [OF same]
  have "terminals s' ?i = terminals s' (sched_term_id s')" "vid_mem (terminals s' ?i) = vid_mem (terminals s ?i)" "term_ok (terminals s' ?i)"
    using puts_loop_ok [OF t] puts_loop_frame(1) [OF t] by (simp_all add: s'_def)
  then show "printable s' ino" using sep f by (simp add: printable_def img_separate_def c)
  show "file_bytes s' ino = file_bytes s ino" "file_size s' ino = file_size s ino" using f by simp_all
qed

text \<open>One round of the loop.\<close>

lemma print_round:
  assumes p: "printable s (unat ino)" and off: "off + k \<le> file_size s (unat ino)" and k: "k \<le> 80"
  defines "x \<equiv> take k (drop off (file_bytes s (unat ino)))"
  shows "\<exists>m. (\<forall>q. fst q = Phys \<longrightarrow> m q = mem s q) \<and> read_data ino (of_nat off) temp_string (of_nat k) s = Some (int k, s\<lparr>mem := m\<rparr>)
    \<and> write_loop k temp_string (upd_mem (\<lambda>m. memset m (padd temp_string (of_nat k)) 0 (COLS - of_nat k)) (s\<lparr>mem := m\<rparr>))
      = puts_loop (sched_term_id s) x (upd_mem (\<lambda>m. memset m (padd temp_string (of_nat k)) 0 (COLS - of_nat k)) (s\<lparr>mem := m\<rparr>))
    \<and> write_loop k temp_string (s\<lparr>mem := m\<rparr>) = puts_loop (sched_term_id s) x (s\<lparr>mem := m\<rparr>)"
proof -
  have w: "wf_image s" "wf_file s (unat ino)" "term_ok (terminals s (sched_term_id s))" using p by (simp_all add: printable_def)
  have b: "file_size s (unat ino) \<le> 1023 * 4096" using w(2) by (simp add: wf_file_def)
  have n: "unat (of_nat off :: u32) = off" "unat (of_nat k :: u32) = k" using off k b by simp_all
  have lx: "length x = k" using off by (simp add: x_def file_bytes_def)
  let ?m = "write_list (mem s) temp_string x"
  have "img_separate s temp_string j" for j by (simp add: img_separate_def separate_blocks img_def)
  then have rd: "read_data ino (of_nat off) temp_string (of_nat k) s = Some (int k, s\<lparr>mem := ?m\<rparr>)"
    using read_data_spec [OF w(1,2), of "of_nat off" "of_nat k" temp_string] off b k n by (simp add: upd_mem_def read_slice_def x_def)
  have rl: "read_list ?m temp_string k = x" using lx k by (simp add: read_list_write_list)
  have uk: "unat (COLS - of_nat k) = 80 - k" using k n(2) by (simp add: unat_sub word_le_nat_alt)
  have "separate (padd temp_string (of_nat k)) (80 - k) temp_string k" using k by (intro separate_le) (simp_all add: n(2))
  then have rl2: "read_list (memset ?m (padd temp_string (of_nat k)) 0 (COLS - of_nat k)) temp_string k = x"
    using rl by (simp add: memset_eq uk read_list_write_list_separate)
  have sep: "separate (Phys, v) 4000 temp_string k" for v by (simp add: separate_blocks)
  show ?thesis
    using rd rl rl2 w(3) sep
      write_loop_eq [of "s\<lparr>mem := ?m\<rparr>" temp_string k] write_loop_eq [of "upd_mem (\<lambda>m. memset m (padd temp_string (of_nat k)) 0 (COLS - of_nat k)) (s\<lparr>mem := ?m\<rparr>)" temp_string k]
    by (intro exI [of _ ?m]) (auto simp: write_list_other_block)
qed

lemma print_iter:
  assumes p: "printable s (unat ino)" and off: "off < file_size s (unat ino)"
  defines "k \<equiv> min 80 (file_size s (unat ino) - off)"
  shows "\<exists>s'. print_loop ino (of_nat (file_size s (unat ino) - off)) (of_nat off) s = print_loop ino (of_nat (file_size s (unat ino) - (off + k))) (of_nat (off + k)) s'
    \<and> printable s' (unat ino) \<and> file_bytes s' (unat ino) = file_bytes s (unat ino) \<and> file_size s' (unat ino) = file_size s (unat ino)
    \<and> sched_term_id s' = sched_term_id s \<and> color s' = color s
    \<and> abs_screen (sched_term_id s) s' = fold (sc_putc (color s)) (take k (drop off (file_bytes s (unat ino)))) (abs_screen (sched_term_id s) s)"
proof -
  let ?i = "sched_term_id s" and ?n = "file_size s (unat ino) - off"
  let ?x = "take k (drop off (file_bytes s (unat ino)))"
  have b: "file_size s (unat ino) \<le> 1023 * 4096" using p by (simp add: printable_def wf_file_def)
  have un: "unat (of_nat ?n :: u32) = ?n" using b by simp
  have k: "k \<le> 80" "0 < k" "off + k \<le> file_size s (unat ino)" "k \<le> ?n" using off by (simp_all add: k_def)
  have pos: "(of_nat ?n :: u32) > 0" using off un by (simp add: word_less_nat_alt)
  have hm: "(if (of_nat ?n :: u32) \<ge> COLS then COLS else of_nat ?n) = of_nat k" using un by (simp add: k_def word_le_nat_alt min_def)
  have uk: "unat (of_nat k :: u32) = k" using k by simp
  from print_round [OF p k(3,1)] obtain m where m: "\<forall>q. fst q = Phys \<longrightarrow> m q = mem s q"
    "read_data ino (of_nat off) temp_string (of_nat k) s = Some (int k, s\<lparr>mem := m\<rparr>)"
    and wl: "write_loop k temp_string (upd_mem (\<lambda>m. memset m (padd temp_string (of_nat k)) 0 (COLS - of_nat k)) (s\<lparr>mem := m\<rparr>))
      = puts_loop ?i ?x (upd_mem (\<lambda>m. memset m (padd temp_string (of_nat k)) 0 (COLS - of_nat k)) (s\<lparr>mem := m\<rparr>))"
      "write_loop k temp_string (s\<lparr>mem := m\<rparr>) = puts_loop ?i ?x (s\<lparr>mem := m\<rparr>)" by blast
  define m2 where "m2 = (if (of_nat k :: u32) < COLS then memset m (padd temp_string (of_nat k)) 0 (COLS - of_nat k) else m)"
  have m2: "m2 q = mem s q" if "fst q = Phys" for q using that m(1) [rule_format, OF that] by (simp add: m2_def memset_eq write_list_other_block)
  note p2 = printable_local [OF p m2]
  let ?s = "puts_loop ?i ?x (s\<lparr>mem := m2\<rparr>)"
  have t: "term_ok (terminals (s\<lparr>mem := m2\<rparr>) ?i)" using p by (simp add: printable_def)
  have nk: "(of_nat ?n - of_nat k :: u32) = of_nat (file_size s (unat ino) - (off + k))" using k by (simp add: of_nat_diff)
  have "write_loop k temp_string (if (of_nat k :: u32) < COLS then upd_mem (\<lambda>m. memset m (padd temp_string (of_nat k)) 0 (COLS - of_nat k)) (s\<lparr>mem := m\<rparr>) else s\<lparr>mem := m\<rparr>) = ?s"
    using wl by (simp add: m2_def upd_mem_def)
  then have "print_loop ino (of_nat ?n) (of_nat off) s = print_loop ino (of_nat ?n - of_nat k) (of_nat off + of_nat k) ?s"
    by (subst print_loop.simps) (simp add: pos hm m(2) uk Let_def del: of_nat_diff)
  then have "print_loop ino (of_nat ?n) (of_nat off) s = print_loop ino (of_nat (file_size s (unat ino) - (off + k))) (of_nat (off + k)) ?s"
    by (simp add: nk del: of_nat_diff)
  then show ?thesis
    using printable_puts [OF p2(1), of ?x] p2(2-4) puts_loop_abs [OF t, of ?x] by (intro exI [of _ ?s]) simp
qed

text \<open>The loop ends, and the screen afterwards shows the rest of the file.\<close>

lemma print_loop_shows:
  assumes "printable s (unat ino)" and "off \<le> file_size s (unat ino)"
  shows "\<exists>s'. print_loop ino (of_nat (file_size s (unat ino) - off)) (of_nat off) s = Some s' \<and> printable s' (unat ino) \<and> sched_term_id s' = sched_term_id s
    \<and> abs_screen (sched_term_id s) s' = fold (sc_putc (color s)) (drop off (file_bytes s (unat ino))) (abs_screen (sched_term_id s) s)"
  using assms
proof (induction "file_size s (unat ino) - off" arbitrary: off s rule: less_induct)
  case less
  let ?i = "sched_term_id s" and ?f = "file_size s (unat ino)" and ?b = "file_bytes s (unat ino)"
  show ?case
  proof (cases "off = ?f")
    case True
    then show ?thesis using less.prems by (subst print_loop.simps) (simp add: file_bytes_def)
  next
    case False
    define k where "k = min 80 (?f - off)"
    have lt: "off < ?f" using False less.prems(2) by simp
    from print_iter [OF less.prems(1) lt, folded k_def] obtain s3 where
      run: "print_loop ino (of_nat (?f - off)) (of_nat off) s = print_loop ino (of_nat (?f - (off + k))) (of_nat (off + k)) s3"
      and s3: "printable s3 (unat ino)" "file_bytes s3 (unat ino) = ?b" "file_size s3 (unat ino) = ?f" "sched_term_id s3 = ?i" "color s3 = color s"
      and scr: "abs_screen ?i s3 = fold (sc_putc (color s)) (take k (drop off ?b)) (abs_screen ?i s)" by blast
    have "file_size s3 (unat ino) - (off + k) < ?f - off" "off + k \<le> file_size s3 (unat ino)" using lt s3(3) by (simp_all add: k_def)
    from less.hyps [OF this(1) s3(1) this(2), unfolded s3 scr] obtain s' where
      s': "print_loop ino (of_nat (?f - (off + k))) (of_nat (off + k)) s3 = Some s'" "printable s' (unat ino)" "sched_term_id s' = ?i"
      and "abs_screen ?i s' = fold (sc_putc (color s)) (drop (off + k) ?b) (fold (sc_putc (color s)) (take k (drop off ?b)) (abs_screen ?i s))" by blast
    then have "abs_screen ?i s' = fold (sc_putc (color s)) (take k (drop off ?b) @ drop k (drop off ?b)) (abs_screen ?i s)"
      by (simp only: fold_append comp_apply drop_drop add.commute)
    then show ?thesis using run s' by (simp only: append_take_drop_id) blast
  qed
qed

end
