(* ===== verification/Emulate.thy ===== *)
theory Emulate
  imports Userlib
begin

text \<open>
  \<^verbatim>\<open>syscalls/ece391emulate.c\<close>, which gives the user programs the system calls of the kernel on top of Linux. Linux
  and the C library are the record \<open>linux\<close> of the calls the file makes, an argument of every operation; the result
  is a record \<open>os\<close>, like the one of the kernel. The main results: a command runs the program it names with its
  words as arguments, parsed in place inside the buffer; a directory read gives a padded name; the arguments are
  joined with spaces, but one that fills the buffer is copied one byte too far.
\<close>

subsection \<open>Linux and the state of the file\<close>

text \<open>How a child ended, as \<^verbatim>\<open>WIFEXITED\<close>, \<^verbatim>\<open>WEXITSTATUS\<close> and \<^verbatim>\<open>WTERMSIG\<close> take a status apart.\<close>

datatype status = Exited u8 | Signaled nat

text \<open>
  The traps 3, 4, 5 and 6 give the register \<^verbatim>\<open>eax\<close>; the others are C functions. \<open>c_execv\<close> is the rest of the life of the
  child: how it ends when the program is started, and nothing when the call fails. \<open>c_poke\<close> stores a pointer in
  the memory of the program. A pointer that is null is 0.
\<close>

record 'w linux =
  trap_read :: "int \<Rightarrow> bytes \<Rightarrow> int \<Rightarrow> 'w \<Rightarrow> (u32 \<times> bytes \<times> 'w) option"
  trap_write :: "int \<Rightarrow> bytes \<Rightarrow> int \<Rightarrow> 'w \<Rightarrow> (u32 \<times> 'w) option"
  trap_open :: "bytes \<Rightarrow> 'w \<Rightarrow> (u32 \<times> 'w) option"
  trap_close :: "int \<Rightarrow> 'w \<Rightarrow> (u32 \<times> 'w) option"
  c_open :: "string \<Rightarrow> bool \<Rightarrow> 'w \<Rightarrow> (int \<times> 'w) option"
  c_close :: "int \<Rightarrow> 'w \<Rightarrow> 'w option"
  c_opendir :: "string \<Rightarrow> 'w \<Rightarrow> (u32 \<times> 'w) option"
  c_readdir :: "u32 \<Rightarrow> 'w \<Rightarrow> (bytes option \<times> 'w) option"
  c_closedir :: "u32 \<Rightarrow> 'w \<Rightarrow> 'w option"
  c_mmap :: "int \<Rightarrow> 'w \<Rightarrow> (u32 option \<times> 'w) option"
  c_perror :: "string \<Rightarrow> 'w \<Rightarrow> 'w option"
  c_poke :: "u32 \<Rightarrow> u32 \<Rightarrow> 'w \<Rightarrow> 'w option"
  c_fork :: "'w \<Rightarrow> (bool \<times> 'w) option"
  c_execv :: "bytes \<Rightarrow> bytes list \<Rightarrow> 'w \<Rightarrow> (status option \<times> 'w) option"

text \<open>The static variables; \<open>start_args\<close> are the strings \<^verbatim>\<open>start_esp\<close> leads to.\<close>

record 'w emu =
  start_args :: "bytes list"
  dir_fd :: int
  dir :: u32
  mem_fd :: int
  lx :: 'w

definition lift_lx :: "('w \<Rightarrow> ('a \<times> 'w) option) \<Rightarrow> 'w emu \<Rightarrow> ('a \<times> 'w emu) option" where
  "lift_lx f e = map_option (\<lambda>(r, w). (r, e\<lparr>lx := w\<rparr>)) (f (lx e))"

definition lift_unit :: "('w \<Rightarrow> 'w option) \<Rightarrow> 'w emu \<Rightarrow> 'w emu option" where
  "lift_unit f e = map_option (\<lambda>w. e\<lparr>lx := w\<rparr>) (f (lx e))"

text \<open>What \<^verbatim>\<open>DO_CALL\<close> makes of \<^verbatim>\<open>eax\<close>.\<close>

definition call_result :: "u32 \<Rightarrow> int" where
  "call_result eax = (if eax > 0xFFFFC000 then -1 else sint eax)"

subsection \<open>execute\<close>

fun copy_string :: "bytes \<Rightarrow> int \<Rightarrow> bytes \<Rightarrow> bytes option" where
  "copy_string buf d [] = None"
| "copy_string buf d (c # src) = do {
     buf \<leftarrow> put buf d c;
     if c \<noteq> 0 then copy_string buf (d + 1) src else Some buf
   }"

function scan_word :: "bytes \<Rightarrow> nat \<Rightarrow> nat option" where
  "scan_word buf scan =
     (if scan < length buf
      then if buf ! scan \<noteq> 0 \<and> buf ! scan \<noteq> 32 \<and> buf ! scan \<noteq> 10 then scan_word buf (Suc scan) else Some scan
      else None)"
  by pat_completeness auto
termination
  by (relation "measure (\<lambda>(buf, scan). length buf - scan)") auto

function scan_spaces :: "bytes \<Rightarrow> nat \<Rightarrow> nat option" where
  "scan_spaces buf scan =
     (if scan < length buf
      then if buf ! scan = 32 then scan_spaces buf (Suc scan) else Some scan
      else None)"
  by pat_completeness auto
termination
  by (relation "measure (\<lambda>(buf, scan). length buf - scan)") auto

text \<open>\<open>args\<close> are the places the elements of the array \<^verbatim>\<open>args\<close> point to; it has room for 1024.\<close>

partial_function (option) parse_args :: "bytes \<Rightarrow> nat \<Rightarrow> nat list \<Rightarrow> (bytes \<times> nat list) option" where
  "parse_args buf scan args = do {
     scan \<leftarrow> scan_spaces buf scan;
     if buf ! scan = 0 \<or> buf ! scan = 10 then Some (buf[scan := 0], args)
     else if length args \<ge> 1024 then None
     else do {
       let args = args @ [scan];
       scan \<leftarrow> scan_word buf scan;
       if buf ! scan \<noteq> 0 then parse_args (buf[scan := 0]) (Suc scan) args else parse_args buf scan args
     }
   }"

definition text_from :: "bytes \<Rightarrow> nat \<Rightarrow> bytes" where
  "text_from buf p = takeWhile (\<lambda>c. c \<noteq> 0) (drop p buf)"

text \<open>The part of \<^verbatim>\<open>ece391_execute\<close> after the parsing: without a child, \<^verbatim>\<open>wait\<close> leaves the status undefined.\<close>

definition run_child :: "'w linux \<Rightarrow> bytes \<Rightarrow> bytes list \<Rightarrow> 'w emu \<Rightarrow> (int \<times> 'w emu) option" where
  "run_child l path args e = do {
     (child, e) \<leftarrow> lift_lx (c_fork l) e;
     if \<not> child then None
     else do {
       (r, e) \<leftarrow> lift_lx (c_execv l path args) e;
       let status = (case r of Some st \<Rightarrow> st | None \<Rightarrow> Signaled 9);
       Some (case status of Exited v \<Rightarrow> uint v | Signaled sig \<Rightarrow> if sig = 9 then -1 else 256, e)
     }
   }"

definition emu_execute :: "'w linux \<Rightarrow> bytes \<Rightarrow> bytes \<Rightarrow> 'w emu \<Rightarrow> (int \<times> 'w emu) option" where
  "emu_execute l buf command e = do {
     n \<leftarrow> ece391_strlen command;
     if 1023 < n then Some (-1, e)
     else do {
       buf \<leftarrow> put buf 0 46;
       buf \<leftarrow> put buf 1 47;
       buf \<leftarrow> copy_string buf 2 command;
       scan \<leftarrow> scan_word buf 2;
       (buf, args) \<leftarrow> (if buf ! scan \<noteq> 0 then parse_args (buf[scan := 0]) (Suc scan) [0] else Some (buf, [0]));
       if length args \<ge> 1024 then None
       else run_child l (text_from buf 0) (map (text_from buf) args) e
     }
   }"

subsection \<open>The files and the directory\<close>

definition emu_open :: "'w linux \<Rightarrow> bytes \<Rightarrow> 'w emu \<Rightarrow> (int \<times> 'w emu) option" where
  "emu_open l filename e = do {
     r \<leftarrow> ece391_strcmp filename (text_of ''.'');
     if r = 0
     then do {
       (d, e) \<leftarrow> lift_lx (c_opendir l ''.'') e;
       (fd, e) \<leftarrow> lift_lx (c_open l ''/dev/null'' False) (e\<lparr>dir := d\<rparr>);
       Some (fd, e\<lparr>dir_fd := fd\<rparr>)
     }
     else do {
       (rval, e) \<leftarrow> lift_lx (trap_open l filename) e;
       Some (call_result rval, e)
     }
   }"

text \<open>The two loops of \<^verbatim>\<open>ece391_read\<close>: the first may return, the second pads.\<close>

function pad_loop :: "bytes \<Rightarrow> int \<Rightarrow> int \<Rightarrow> (int \<times> bytes) option" where
  "pad_loop buf copied nbytes =
     (if nbytes > copied \<and> 32 > copied
      then do {
        buf \<leftarrow> put buf copied 0;
        pad_loop buf (copied + 1) nbytes
      }
      else Some (copied, buf))"
  by pat_completeness auto
termination
  by (relation "measure (\<lambda>(buf, copied, nbytes). nat (32 - copied))") auto

fun name_loop :: "bytes \<Rightarrow> bytes \<Rightarrow> int \<Rightarrow> int \<Rightarrow> (int \<times> bytes) option" where
  "name_loop [] buf copied nbytes = None"
| "name_loop (c # from) buf copied nbytes =
     (if c \<noteq> 0
      then do {
        buf \<leftarrow> put buf copied c;
        if copied + 1 = nbytes then Some (nbytes, buf)
        else if copied + 1 = 32 then Some (32, buf)
        else name_loop from buf (copied + 1) nbytes
      }
      else pad_loop buf copied nbytes)"

definition emu_read :: "'w linux \<Rightarrow> int \<Rightarrow> bytes \<Rightarrow> int \<Rightarrow> 'w emu \<Rightarrow> (int \<times> bytes \<times> 'w emu) option" where
  "emu_read l fd buf nbytes e =
     (if dir e = 0 \<or> dir_fd e \<noteq> fd
      then do {
        ((eax, buf), e) \<leftarrow> lift_lx (\<lambda>w. map_option (\<lambda>(r, b, w). ((r, b), w)) (trap_read l fd buf nbytes w)) e;
        Some (call_result eax, buf, e)
      }
      else do {
        (de, e) \<leftarrow> lift_lx (c_readdir l (dir e)) e;
        case de of
          None \<Rightarrow> Some (0, buf, e)
        | Some d_name \<Rightarrow> do {
            (r, buf) \<leftarrow> name_loop d_name buf 0 nbytes;
            Some (r, buf, e)
          }
      })"

definition emu_write :: "'w linux \<Rightarrow> int \<Rightarrow> bytes \<Rightarrow> int \<Rightarrow> 'w emu \<Rightarrow> (int \<times> 'w emu) option" where
  "emu_write l fd buf nbytes e =
     (if dir e = 0 \<or> dir_fd e \<noteq> fd
      then do {
        (eax, e) \<leftarrow> lift_lx (trap_write l fd buf nbytes) e;
        Some (call_result eax, e)
      }
      else Some (-1, e))"

definition emu_close :: "'w linux \<Rightarrow> int \<Rightarrow> 'w emu \<Rightarrow> (int \<times> 'w emu) option" where
  "emu_close l fd e =
     (if dir e = 0 \<or> dir_fd e \<noteq> fd
      then do {
        (eax, e) \<leftarrow> lift_lx (trap_close l fd) e;
        Some (call_result eax, e)
      }
      else do {
        e \<leftarrow> lift_unit (c_closedir l (dir e)) e;
        e \<leftarrow> lift_unit (c_close l (dir_fd e)) (e\<lparr>dir := 0\<rparr>);
        Some (0, e\<lparr>dir_fd := -1\<rparr>)
      })"

subsection \<open>Arguments and video memory\<close>

text \<open>The loop of \<^verbatim>\<open>ece391_getargs\<close>: \<open>None\<close> inside the result when it reaches its end, the value when it returns.\<close>

fun getargs_loop :: "bytes list \<Rightarrow> bytes \<Rightarrow> int \<Rightarrow> int \<Rightarrow> (int option \<times> bytes \<times> int \<times> int) option" where
  "getargs_loop [] buf p nbytes = Some (None, buf, p, nbytes)"
| "getargs_loop (arg # args) buf p nbytes = do {
     len \<leftarrow> ece391_strlen arg;
     if int len > nbytes then Some (Some (-1), buf, p, nbytes)
     else do {
       buf \<leftarrow> copy_string buf p arg;
       let p = p + int len;
       let nbytes = nbytes - int len;
       if args = [] then Some (None, buf, p, nbytes)
       else if nbytes < 1 then Some (Some (-1), buf, p, nbytes)
       else do {
         buf \<leftarrow> put buf p 32;
         getargs_loop args buf (p + 1) (nbytes - 1)
       }
     }
   }"

definition emu_getargs :: "bytes \<Rightarrow> int \<Rightarrow> 'w emu \<Rightarrow> (int \<times> bytes \<times> 'w emu) option" where
  "emu_getargs buf nbytes e = do {
     (r, buf, p, nbytes) \<leftarrow> getargs_loop (tl (start_args e)) buf 0 nbytes;
     case r of
       Some v \<Rightarrow> Some (v, buf, e)
     | None \<Rightarrow>
         if nbytes < 1 then Some (-1, buf, e)
         else do {
           buf \<leftarrow> put buf p 0;
           Some (0, buf, e)
         }
   }"

definition emu_vidmap :: "'w linux \<Rightarrow> u32 \<Rightarrow> 'w emu \<Rightarrow> (int \<times> 'w emu) option" where
  "emu_vidmap l screen_start e = do {
     e \<leftarrow> (if mem_fd e = -1
           then do {
             (fd, e) \<leftarrow> lift_lx (c_open l ''/dev/mem'' True) e;
             Some (e\<lparr>mem_fd := fd\<rparr>)
           }
           else Some e);
     (mem_image, e) \<leftarrow> lift_lx (c_mmap l (mem_fd e)) e;
     case mem_image of
       None \<Rightarrow> do {
         e \<leftarrow> lift_unit (c_perror l ''mmap low memory'') e;
         Some (-1, e)
       }
     | Some a \<Rightarrow> do {
         e \<leftarrow> lift_unit (c_poke l screen_start (a + 0xb8000)) e;
         Some (0, e)
       }
   }"

text \<open>
  The system the programs get. \<open>buf\<close> is the uninitialised array of \<^verbatim>\<open>ece391_execute\<close>, \<open>trap\<close> the bare trap
  instruction, which the emulation leaves to Linux.
\<close>

definition emu_os :: "'w linux \<Rightarrow> bytes \<Rightarrow> (int \<Rightarrow> 'w emu \<Rightarrow> (int \<times> 'w emu) option) \<Rightarrow> 'w emu os" where
  "emu_os l buf trap = \<lparr>os_execute = emu_execute l buf, os_read = emu_read l, os_write = emu_write l, os_open = emu_open l,
     os_close = emu_close l, os_getargs = emu_getargs, os_vidmap = emu_vidmap l, os_trap = trap\<rparr>"

declare scan_word.simps [simp del] scan_spaces.simps [simp del] pad_loop.simps [simp del]

subsection \<open>Parsing a command\<close>

lemma put_nat [simp]: "n < length buf \<Longrightarrow> put buf (int n) v = Some (buf[n := v])"
  by (simp add: put_def)

lemma ece391_strlen_text [simp]: "0 \<notin> set s \<Longrightarrow> ece391_strlen (s @ 0 # junk) = Some (length s)"
  by (induction s) auto

lemma copy_string_text:
  "0 \<notin> set s \<Longrightarrow> d + length s < length buf \<Longrightarrow>
   copy_string buf (int d) (s @ 0 # junk) = Some (take d buf @ s @ 0 # drop (Suc (d + length s)) buf)"
proof (induction s arbitrary: buf d)
  case Nil
  then show ?case by (simp add: upd_conv_take_nth_drop)
next
  case (Cons c s)
  then show ?case using Cons.IH [of "Suc d" "buf[d := c]"]
    by (simp add: take_Suc_conv_app_nth take_update_cancel add.commute [of 1])
qed

definition in_word :: "u8 \<Rightarrow> bool" where
  "in_word c \<longleftrightarrow> c \<noteq> 32 \<and> c \<noteq> 10"

lemma scan_word_text:
  "0 \<notin> set s \<Longrightarrow> scan_word (P @ s @ 0 # junk) (length P) = Some (length P + length (takeWhile in_word s))"
proof (induction s arbitrary: P)
  case Nil
  then show ?case by (simp add: scan_word.simps)
next
  case (Cons c s)
  then show ?case using Cons.IH [of "P @ [c]"] by (cases "in_word c") (simp_all add: scan_word.simps [of _ "length P"] in_word_def [of c])
qed

text \<open>The words of the rest of a command, after the name: they end at a newline that follows a space.\<close>

function words_of :: "bytes \<Rightarrow> bytes list" where
  "words_of s =
     (case dropWhile (\<lambda>c. c = 32) s of
        [] \<Rightarrow> []
      | c # r \<Rightarrow> if c = 10 then [] else takeWhile in_word (c # r) # words_of (drop 1 (dropWhile in_word (c # r))))"
  by pat_completeness auto
termination
proof (relation "measure length")
  fix s c and r :: bytes
  assume d: "dropWhile (\<lambda>c. c = 32) s = c # r" and n: "c \<noteq> 10"
  then have "in_word c" using hd_dropWhile [of "\<lambda>c. c = 32" s] by (simp add: in_word_def)
  moreover have "length (c # r) \<le> length s" using length_dropWhile_le [of "\<lambda>c. c = 32" s] d by simp
  moreover have "length (dropWhile in_word r) \<le> length r" by (rule length_dropWhile_le)
  ultimately show "(drop 1 (dropWhile in_word (c # r)), s) \<in> measure length" by simp
qed simp

declare words_of.simps [simp del] dropWhile_eq_Nil_conv [simp del]

lemma words_of_end: "dropWhile (\<lambda>c. c = 32) s = [] \<or> hd (dropWhile (\<lambda>c. c = 32) s) = 10 \<Longrightarrow> words_of s = []"
  by (subst words_of.simps) (simp split: list.split, auto)

lemma words_of_word:
  assumes "\<not> (dropWhile (\<lambda>c. c = 32) s = [] \<or> hd (dropWhile (\<lambda>c. c = 32) s) = 10)"
  defines "r \<equiv> dropWhile (\<lambda>c. c = 32) s"
  shows "words_of s = takeWhile in_word r # words_of (drop 1 (dropWhile in_word r))" and "in_word (hd r)" and "r \<noteq> []"
proof -
  obtain c q where r: "r = c # q" "c \<noteq> 10" using assms(1) by (cases r) (simp_all add: r_def)
  then show "words_of s = takeWhile in_word r # words_of (drop 1 (dropWhile in_word r))"
    by (subst words_of.simps) (simp add: r_def)
  show "in_word (hd r)" "r \<noteq> []" using r hd_dropWhile [of "\<lambda>c. c = 32" s] by (simp_all add: r_def in_word_def)
qed

lemma words_of_count: "2 * length (words_of s) \<le> length s + 1"
proof (induction s rule: length_induct)
  case (1 s)
  let ?r = "dropWhile (\<lambda>c. c = 32) s"
  show ?case
  proof (cases "?r = [] \<or> hd ?r = 10")
    case False
    let ?d = "dropWhile in_word ?r"
    note w = words_of_word [OF False]
    have "length ?d < length ?r" using w(2,3) length_dropWhile_le [of in_word "tl ?r"] by (cases ?r) auto
    moreover have "length ?r \<le> length s" by (rule length_dropWhile_le)
    moreover have "words_of (drop 1 ?d) = []" if "?d = []" using that by (intro words_of_end) simp
    moreover have "2 * length (words_of (drop 1 ?d)) \<le> length (drop 1 ?d) + 1" if "?d \<noteq> []" using that calculation 1 [rule_format, of "drop 1 ?d"] by simp
    moreover have "?d = [] \<or> length (drop 1 ?d) + 1 = length ?d" by (cases ?d) simp_all
    ultimately show ?thesis unfolding w(1) by (cases "?d = []") (use w(3) in \<open>auto simp: Suc_le_eq\<close>)
  qed (simp add: words_of_end)
qed

lemma text_from_prefix:
  "p < length P \<Longrightarrow> 0 \<in> set (drop p P) \<Longrightarrow> text_from (P @ r) p = text_from P p"
  by (auto simp: text_from_def takeWhile_append)

lemma text_from_word:
  "0 \<notin> set x \<Longrightarrow> text_from (P @ x @ 0 # r) (length P) = x"
  by (simp add: text_from_def takeWhile_append)

lemma parse_args_end: "c = 0 \<or> c = 10 \<Longrightarrow> parse_args (P @ c # r) (length P) args = Some (P @ 0 # r, args)"
  by (subst parse_args.simps, subst scan_spaces.simps) auto

lemma parse_args_word:
  assumes "0 \<notin> set x" and "x \<noteq> []" and "\<forall>c \<in> set x. in_word c" and "d = 0 \<or> d = 32 \<or> d = 10" and "length args < 1024"
  shows "parse_args (P @ x @ d # r) (length P) args =
    (if d = 0 then Some (P @ x @ 0 # r, args @ [length P]) else parse_args ((P @ x @ [0]) @ r) (length (P @ x @ [0])) (args @ [length P]))"
proof -
  have c: "hd x \<noteq> 0 \<and> in_word (hd x)" using assms(1-3) by (cases x) auto
  have at: "(P @ x @ d # r) ! length P = hd x" using assms(2) by (simp add: nth_append hd_conv_nth)
  have sp: "scan_spaces (P @ x @ d # r) (length P) = Some (length P)" using c at assms(2) by (subst scan_spaces.simps) (simp add: in_word_def)
  have sw: "scan_word (P @ x @ d # r) (length P) = Some (length P + length x)" using assms(1,3,4)
  proof (induction x arbitrary: P)
    case Nil
    then show ?case by (subst scan_word.simps) auto
  next
    case (Cons c x)
    then show ?case using Cons.IH [of "P @ [c]"] by (subst scan_word.simps) (simp add: in_word_def)
  qed
  have d: "(P @ x @ d # r) ! (length P + length x) = d" "(P @ x @ d # r)[length P + length x := 0] = (P @ x @ [0]) @ r"
    by (simp_all add: nth_append list_update_append)
  show ?thesis
    using c at sp sw d assms(5) parse_args_end [of 0 "P @ x" r "args @ [length P]"]
    by (subst parse_args.simps) (auto simp: in_word_def Let_def)
qed

lemma parse_args_spaces: "parse_args (P @ s @ 0 # r) (length P) args
    = parse_args ((P @ takeWhile (\<lambda>c. c = 32) s) @ dropWhile (\<lambda>c. c = 32) s @ 0 # r) (length (P @ takeWhile (\<lambda>c. c = 32) s)) args"
proof (induction s arbitrary: P)
  case (Cons c s)
  have "parse_args (P @ 32 # s @ 0 # r) (length P) args = parse_args (P @ 32 # s @ 0 # r) (Suc (length P)) args"
    by (subst (1 2) parse_args.simps, subst scan_spaces.simps) simp
  then show ?case using Cons.IH [of "P @ [c]"] by (cases "c = 32") simp_all
qed simp

text \<open>
  The parsing in place: the buffer keeps its size, the arguments found before stay as they are, and the new ones
  are the words of the rest.
\<close>

lemma parse_args_text:
  assumes "0 \<notin> set s" and "\<forall>p \<in> set args. p < length P \<and> 0 \<in> set (drop p P)" and "length args + length (words_of s) \<le> 1024"
  shows "\<exists>buf' args'. parse_args (P @ s @ 0 # junk) (length P) args = Some (buf', args') \<and> take (length P) buf' = P
    \<and> map (text_from buf') args' = map (text_from P) args @ words_of s"
  using assms
proof (induction s arbitrary: P args rule: measure_induct_rule [where f = length])
  case (less s)
  let ?Q = "P @ takeWhile (\<lambda>c. c = 32) s" and ?r = "dropWhile (\<lambda>c. c = 32) s"
  have keep: "map (text_from (P @ x)) args = map (text_from P) args" for x using less.prems(2) by (auto intro: text_from_prefix)
  have r0: "0 \<notin> set ?r" using less.prems(1) by (meson set_dropWhileD)
  note sp = parse_args_spaces [of P s junk args]
  show ?case
  proof (cases "?r = [] \<or> hd ?r = 10")
    case True
    then have "\<exists>c r. (c = 0 \<or> c = 10) \<and> ?r @ 0 # junk = c # r" by (cases ?r) auto
    then obtain c r where "c = 0 \<or> c = 10" "?r @ 0 # junk = c # r" by blast
    then show ?thesis using keep by (simp only: sp parse_args_end words_of_end [OF True]) simp
  next
    case False
    let ?x = "takeWhile in_word ?r" and ?t = "dropWhile in_word ?r"
    note w = words_of_word [OF False]
    have x: "0 \<notin> set ?x" "?x \<noteq> []" "\<forall>c \<in> set ?x. in_word c" "length args < 1024"
      using r0 w less.prems(3) by (auto dest: set_takeWhileD simp: takeWhile_eq_Nil_iff)
    have r: "?r @ 0 # junk = ?x @ ?t @ 0 # junk" by simp
    show ?thesis
    proof (cases ?t)
      case Nil
      then have "?r @ 0 # junk = ?x @ 0 # junk" "words_of s = [?x]" using r w(1) by (simp_all add: words_of_end)
      then show ?thesis using parse_args_word [OF x(1-3) _ x(4), of 0 ?Q junk] keep text_from_word [OF x(1), of ?Q junk]
        by (simp only: sp) simp
    next
      case (Cons d t)
      let ?P = "?Q @ ?x @ [0]" and ?args = "args @ [length ?Q]"
      have d: "d \<noteq> 0" "d = 0 \<or> d = 32 \<or> d = 10" using Cons r0 hd_dropWhile [of in_word ?r] set_dropWhileD [of d in_word ?r] by (auto simp: in_word_def)
      have t: "0 \<notin> set t" "length t < length s"
        using Cons r0 set_dropWhileD [of 0 in_word ?r] length_dropWhile_le [of in_word ?r] length_dropWhile_le [of "\<lambda>c. c = 32" s] by auto
      have "\<forall>p \<in> set ?args. p < length ?P \<and> 0 \<in> set (drop p ?P)" "length ?args + length (words_of t) \<le> 1024"
        using less.prems(2,3) w(1) Cons by auto
      from less.IH [OF t(2,1) this] obtain buf' args' where
        b: "parse_args (?P @ t @ 0 # junk) (length ?P) ?args = Some (buf', args')" "take (length ?P) buf' = ?P"
        "map (text_from buf') args' = map (text_from ?P) ?args @ words_of t" by blast
      have "parse_args (P @ s @ 0 # junk) (length P) args = Some (buf', args')"
        using b(1) d parse_args_word [OF x(1-3) d(2) x(4), of ?Q "t @ 0 # junk"] by (simp only: sp r Cons append_Cons append_assoc if_False)
      moreover have "take (length P) (take (length ?P) buf') = P" unfolding b(2) by simp
      moreover have "map (text_from ?P) ?args = map (text_from P) args @ [?x]" using keep text_from_word [OF x(1), of ?Q "[]"] by simp
      ultimately show ?thesis using b(3) w(1) Cons by (simp add: min_def)
    qed
  qed
qed

text \<open>
  A command of at most 1023 bytes runs the program it names, from the current directory, with the name and the
  words after it as its arguments: the parsing stays in the buffer and in the array of arguments.
\<close>

lemma emu_execute_spec:
  assumes "0 \<notin> set s" and "length s \<le> 1023" and "length buf = 1026"
  defines "path \<equiv> [46, 47] @ takeWhile in_word s"
  shows "emu_execute l buf (s @ 0 # junk) e = run_child l path (path # words_of (drop 1 (dropWhile in_word s))) e"
proof -
  let ?x = "takeWhile in_word s" and ?t = "dropWhile in_word s"
  obtain b0 b1 b where b: "buf = b0 # b1 # b" using assms(3) by (cases buf; cases "tl buf") auto
  define j where "j = drop (Suc (length s)) b"
  have cp: "copy_string (46 # 47 # b) 2 (s @ 0 # junk) = Some (46 # 47 # s @ 0 # j)"
    using copy_string_text [of s 2 "46 # 47 # b" junk] assms b by (simp add: j_def)
  have x0: "0 \<notin> set ?x" "0 \<notin> set ?t" using assms(1) by (auto dest: set_takeWhileD set_dropWhileD)
  have path0: "0 \<notin> set path" using x0 by (simp add: path_def)
  have sw: "scan_word (46 # 47 # s @ 0 # j) 2 = Some (length path)" using scan_word_text [OF assms(1), of "[46, 47]" j] by (simp add: path_def numeral_2_eq_2)
  have s: "46 # 47 # s @ 0 # j = path @ ?t @ 0 # j" by (simp add: path_def)
  have run: "emu_execute l buf (s @ 0 # junk) e = do {
      (buf, args) \<leftarrow> (if (path @ ?t @ 0 # j) ! length path \<noteq> 0 then parse_args ((path @ ?t @ 0 # j)[length path := 0]) (Suc (length path)) [0] else Some (path @ ?t @ 0 # j, [0]));
      if length args \<ge> 1024 then None else run_child l (text_from buf 0) (map (text_from buf) args) e}"
    using assms(1,2) cp sw unfolding emu_execute_def s [symmetric] by (simp add: b put_def)
  show ?thesis
  proof (cases ?t)
    case Nil
    then show ?thesis using text_from_word [OF path0, of "[]" j] unfolding run by (simp add: words_of_end)
  next
    case (Cons d t)
    have d: "d \<noteq> 0" and t0: "0 \<notin> set t" using x0 Cons by auto
    have "length t \<le> 1022" using Cons assms(2) length_dropWhile_le [of in_word s] by simp
    then have n: "length (words_of t) \<le> 1000" using words_of_count [of t] by simp
    let ?P = "path @ [0]"
    have "\<forall>p \<in> set [0]. p < length ?P \<and> 0 \<in> set (drop p ?P)" by simp
    from parse_args_text [OF t0 this, of j] n obtain buf' args' where
      p: "parse_args (?P @ t @ 0 # j) (length ?P) [0] = Some (buf', args')" "take (length ?P) buf' = ?P"
      "map (text_from buf') args' = map (text_from ?P) [0] @ words_of t" by auto
    have a: "text_from ?P 0 = path" "map (text_from buf') args' = path # words_of t" using text_from_word [OF path0, of "[]" "[]"] p(3) by simp_all
    have "text_from buf' 0 = path" using text_from_prefix [of 0 ?P "drop (length ?P) buf'"] p(2) a(1) append_take_drop_id [of "length ?P" buf'] by simp
    moreover have "length args' < 1024" using arg_cong [OF a(2), of length] n by simp
    ultimately show ?thesis using p(1) a d Cons unfolding run by (simp add: list_update_append)
  qed
qed
subsection \<open>Reading the directory\<close>

lemma pad_loop_eq:
  "c \<le> min n 32 \<Longrightarrow> min n 32 \<le> length buf \<Longrightarrow>
   pad_loop buf (int c) (int n) = Some (int (min n 32), take c buf @ replicate (min n 32 - c) 0 @ drop (min n 32) buf)"
proof (induction "min n 32 - c" arbitrary: c buf)
  case 0
  then show ?case by (subst pad_loop.simps) auto
next
  case (Suc k)
  then have c: "c < n" "c < 32" "c < length buf" by auto
  have r: "replicate (min n 32 - c) (0 :: u8) = 0 # replicate (min n 32 - Suc c) 0" using c by (simp add: Suc_diff_Suc [symmetric])
  have "pad_loop (buf[c := 0]) (int (Suc c)) (int n) = Some (int (min n 32), take (Suc c) (buf[c := 0]) @ replicate (min n 32 - Suc c) 0 @ drop (min n 32) (buf[c := 0]))"
    using Suc c by (intro Suc.hyps(1)) auto
  then show ?case using c by (subst pad_loop.simps) (simp add: r take_Suc_conv_app_nth add.commute [of 1])
qed

lemma name_loop_eq:
  "0 \<notin> set s \<Longrightarrow> c < min n 32 \<Longrightarrow> min n 32 \<le> length buf \<Longrightarrow>
   name_loop (s @ 0 # junk) buf (int c) (int n) = Some (int (min n 32), take c buf @ take (min n 32 - c) (s @ replicate 32 0) @ drop (min n 32) buf)"
proof (induction s arbitrary: c buf)
  case Nil
  then show ?case by (simp add: pad_loop_eq)
next
  case (Cons x s)
  have c: "c < n" "c < 32" "c < length buf" using Cons.prems by auto
  have t: "take (min n 32 - c) (x # s @ replicate 32 0) = x # take (min n 32 - Suc c) (s @ replicate 32 0)" using c by (simp add: Suc_diff_Suc [symmetric])
  have step: "name_loop ((x # s) @ 0 # junk) buf (int c) (int n) =
      (if Suc c = n \<or> Suc c = 32 then Some (int (Suc c), buf[c := x]) else name_loop (s @ 0 # junk) (buf[c := x]) (int (Suc c)) (int n))"
    using Cons.prems(1) c(3) by (auto simp: add.commute [of 1])
  have upd: "buf[c := x] = take c buf @ x # drop (Suc c) buf" using c(3) by (rule upd_conv_take_nth_drop)
  show ?case
  proof (cases "Suc c = min n 32")
    case True
    then have "Suc c = n \<or> Suc c = 32" by linarith
    then show ?thesis unfolding step using t True [symmetric] upd by simp
  next
    case False
    then have n: "\<not> (Suc c = n \<or> Suc c = 32)" "Suc c < min n 32" using c by auto
    then have "name_loop (s @ 0 # junk) (buf[c := x]) (int (Suc c)) (int n) =
        Some (int (min n 32), take (Suc c) (buf[c := x]) @ take (min n 32 - Suc c) (s @ replicate 32 0) @ drop (min n 32) (buf[c := x]))"
      using Cons.prems by (intro Cons.IH) simp_all
    moreover have "take (Suc c) (buf[c := x]) = take c buf @ [x]" "drop (min n 32) (buf[c := x]) = drop (min n 32) buf"
      using c n(2) by (simp_all add: take_Suc_conv_app_nth)
    ultimately show ?thesis unfolding step using n(1) t by simp
  qed
qed

text \<open>
  A read of the open directory gives the name padded with zeros to the length asked for, at most 32; the kernel
  gives the length of the name instead.
\<close>

lemma emu_read_directory:
  assumes "dir e \<noteq> 0" and "c_readdir l (dir e) (lx e) = Some (Some (s @ 0 # junk), w)" and "0 \<notin> set s" and "0 < n" and "min n 32 \<le> length buf"
  shows "emu_read l (dir_fd e) buf (int n) e = Some (int (min n 32), take (min n 32) (s @ replicate 32 0) @ drop (min n 32) buf, e\<lparr>lx := w\<rparr>)"
  using assms name_loop_eq [OF assms(3), of 0 n buf junk] by (simp add: emu_read_def lift_lx_def)

subsection \<open>Arguments\<close>

fun join_words :: "bytes list \<Rightarrow> bytes" where
  "join_words [] = []"
| "join_words [a] = a"
| "join_words (a # as) = a @ 32 # join_words as"

lemma getargs_loop_word:
  assumes "0 \<notin> set a" and "args \<noteq> []" and "length a < n" and "p + n \<le> length buf"
  shows "getargs_loop ((a @ [0]) # args) buf (int p) (int n) =
    getargs_loop args (take p buf @ a @ 32 # drop (Suc (p + length a)) buf) (int (Suc (p + length a))) (int (n - Suc (length a)))"
proof -
  have "copy_string buf (int p) (a @ [0]) = Some (take p buf @ a @ 0 # drop (Suc (p + length a)) buf)" using assms by (intro copy_string_text) simp_all
  moreover have "put (take p buf @ a @ 0 # drop (Suc (p + length a)) buf) (int p + int (length a)) 32 = Some (take p buf @ a @ 32 # drop (Suc (p + length a)) buf)"
    using assms(3,4) put_nat [of "p + length a" "take p buf @ a @ 0 # drop (Suc (p + length a)) buf" 32] by (simp add: list_update_append del: put_nat)
  moreover have "int n - int (length a) - 1 = int (n - Suc (length a))" "int p + int (length a) + 1 = int (Suc (p + length a))" "\<not> int n - int (length a) < 1"
    using assms(3) by simp_all
  ultimately show ?thesis using assms(1-3) by (simp add: add.commute [of 1] del: of_nat_diff of_nat_diff_if)
qed

lemma getargs_loop_join:
  assumes "\<forall>a \<in> set ws. 0 \<notin> set a" and "ws \<noteq> []" and "length (join_words ws) < n" and "p + n \<le> length buf"
  shows "getargs_loop (map (\<lambda>a. a @ [0]) ws) buf (int p) (int n) =
    Some (None, take p buf @ join_words ws @ 0 # drop (Suc (p + length (join_words ws))) buf, int (p + length (join_words ws)), int (n - length (join_words ws)))"
  using assms
proof (induction ws arbitrary: buf p n rule: join_words.induct)
  case (2 a)
  then show ?case by (simp add: copy_string_text of_nat_diff)
next
  case (3 a b as)
  let ?q = "p + length a" and ?j = "join_words (b # as)"
  let ?buf = "take p buf @ a @ 32 # drop (Suc ?q) buf"
  have l: "length a + Suc (length ?j) < n" using "3.prems"(3) by simp
  have "getargs_loop (map (\<lambda>a. a @ [0]) (b # as)) ?buf (int (Suc ?q)) (int (n - Suc (length a))) =
    Some (None, take (Suc ?q) ?buf @ ?j @ 0 # drop (Suc (Suc ?q + length ?j)) ?buf, int (Suc ?q + length ?j), int (n - Suc (length a) - length ?j))"
    using "3.prems" l by (intro "3.IH") auto
  moreover have "take (Suc ?q) ?buf = take p buf @ a @ [32]" "drop (Suc (Suc ?q + length ?j)) ?buf = drop (Suc (Suc ?q + length ?j)) buf" "length (take p buf) = p"
    using "3.prems"(4) l by (simp_all add: min_def add.commute add.left_commute)
  moreover have "getargs_loop (map (\<lambda>a. a @ [0]) (a # b # as)) buf (int p) (int n) = getargs_loop (map (\<lambda>a. a @ [0]) (b # as)) ?buf (int (Suc ?q)) (int (n - Suc (length a)))"
    using "3.prems" l getargs_loop_word [of a "map (\<lambda>a. a @ [0]) (b # as)" n p buf] by simp
  ultimately show ?case using l by (simp add: add.assoc add.commute add.left_commute del: getargs_loop.simps)
qed simp

text \<open>The arguments come back joined with spaces, when they fit with their terminator.\<close>

lemma emu_getargs_join:
  assumes "start_args e = prog # map (\<lambda>a. a @ [0]) ws" and "\<forall>a \<in> set ws. 0 \<notin> set a" and "length (join_words ws) < n" and "n \<le> length buf"
  shows "emu_getargs buf (int n) e = Some (0, join_words ws @ 0 # drop (Suc (length (join_words ws))) buf, e)"
proof (cases "ws = []")
  case True
  then show ?thesis using assms by (cases buf) (simp_all add: emu_getargs_def put_def)
next
  case False
  let ?j = "length (join_words ws)"
  have "emu_getargs buf (int n) e = do {
      b \<leftarrow> put (join_words ws @ 0 # drop (Suc ?j) buf) (int ?j) 0;
      Some (0, b, e)}"
    using getargs_loop_join [OF assms(2) False assms(3), of 0 buf] assms(1,3,4) by (simp add: emu_getargs_def)
  then show ?thesis using assms(3,4) by simp
qed

text \<open>An argument as long as the buffer passes the test of its length, and its terminator is stored behind the buffer.\<close>

lemma copy_string_overflow: "0 \<notin> set s \<Longrightarrow> d + length s = length buf \<Longrightarrow> copy_string buf (int d) (s @ 0 # junk) = None"
proof (induction s arbitrary: buf d)
  case (Cons c s)
  then show ?case using Cons.IH [of "Suc d" "buf[d := c]"] by (simp add: add.commute [of 1])
qed (simp add: put_def)

subsection \<open>Properties\<close>

text \<open>A Linux on which every command succeeds, and which records the commands.\<close>

definition record_linux :: "(bytes \<times> bytes list) list linux" where
  "record_linux = \<lparr>trap_read = (\<lambda>fd buf n w. Some (0, buf, w)), trap_write = (\<lambda>fd buf n w. Some (of_int n, w)), trap_open = (\<lambda>f w. Some (3, w)),
     trap_close = (\<lambda>fd w. Some (0, w)), c_open = (\<lambda>f rw w. Some (3, w)), c_close = (\<lambda>fd w. Some w), c_opendir = (\<lambda>d w. Some (1, w)),
     c_readdir = (\<lambda>d w. Some (None, w)), c_closedir = (\<lambda>d w. Some w), c_mmap = (\<lambda>fd w. Some (None, w)), c_perror = (\<lambda>t w. Some w),
     c_poke = (\<lambda>a v w. Some w), c_fork = (\<lambda>w. Some (True, w)), c_execv = (\<lambda>path args w. Some (Some (Exited 7), w @ [(path, args)]))\<rparr>"

definition emu_start :: "bytes list \<Rightarrow> 'w \<Rightarrow> 'w emu" where
  "emu_start args w = \<lparr>start_args = args, dir_fd = -1, dir = 0, mem_fd = -1, lx = w\<rparr>"

text \<open>
  C26: A command of at most 1023 bytes makes the emulated \<^verbatim>\<open>ece391_execute\<close> run the program it names, from the
  current directory, with the name and the words after it as its arguments, and return the exit status of the program,
  -1 when it could not be started and 256 when it was ended by another signal. The parsing cuts the words out in
  place and stays inside its buffer and its array.
\<close>

theorem emulated_command:
  assumes "0 \<notin> set s" and "length s \<le> 1023" and "length buf = 1026"
    and "c_fork l (lx e) = Some (True, w)"
    and "c_execv l ([46, 47] @ takeWhile in_word s) (([46, 47] @ takeWhile in_word s) # words_of (drop 1 (dropWhile in_word s))) w = Some (r, w')"
  shows "emu_execute l buf (s @ 0 # junk) e =
    Some (case r of None \<Rightarrow> -1 | Some (Exited v) \<Rightarrow> uint v | Some (Signaled n) \<Rightarrow> if n = 9 then -1 else 256, e\<lparr>lx := w'\<rparr>)"
  unfolding emu_execute_spec [OF assms(1-3)] using assms(4,5)
  by (simp add: run_child_def lift_lx_def Let_def split: option.split status.split)

theorem emulated_command_witness:
  "emu_execute record_linux (replicate 1026 0) (bytes_of ''grep  a b'' @ [10, 0]) (emu_start [] []) =
    Some (7, emu_start [] [(bytes_of ''./grep'', [bytes_of ''./grep'', bytes_of ''a'', bytes_of ''b''])])"
  using emulated_command [of "bytes_of ''grep  a b'' @ [10]" "replicate 1026 0" record_linux "emu_start [] []" "[]" "Some (Exited 7)" "[(bytes_of ''./grep'', [bytes_of ''./grep'', bytes_of ''a'', bytes_of ''b''])]" "[]"]
  by (simp add: bytes_of_def in_word_def record_linux_def emu_start_def words_of.simps)

text \<open>
  C40: The emulated \<^verbatim>\<open>ece391_getargs\<close> copies an argument as long as the buffer although its terminator does not fit:
  the byte behind the buffer is overwritten.
\<close>

theorem emulated_getargs_overflow:
  assumes "start_args e = [prog, a @ 0 # junk]" and "0 \<notin> set a" and "length a = length buf"
  shows "emu_getargs buf (int (length buf)) e = None"
  using assms copy_string_overflow [of a 0 buf junk] by (simp add: emu_getargs_def)

theorem emulated_getargs_overflow_witness:
  "emu_getargs [0, 0] 2 (emu_start [text_of ''cat'', text_of ''ab''] ()) = None"
  using emulated_getargs_overflow [of "emu_start [text_of ''cat'', text_of ''ab''] ()" "text_of ''cat''" "bytes_of ''ab''" "[]" "[0, 0]"]
  by (simp add: emu_start_def text_of_def bytes_of_def)

end
