(* ===== verification/Spec2Isabelle.thy ===== *)
theory Spec2Isabelle
  imports Gdt Sigtest Fish FsTest Emulate
begin

text \<open>
  Verification of LacOSIntolerant, a small operating system for the 80386 written in C and assembly: the kernel in
  \<^verbatim>\<open>student-distrib\<close>, the user programs and their library in \<^verbatim>\<open>syscalls\<close>, and the program in \<^verbatim>\<open>fish\<close>.

  \<^bold>\<open>The system.\<close> GRUB loads the kernel with a read-only file system image; \<^verbatim>\<open>boot.S\<close> sets up segments and stack and
  calls \<^verbatim>\<open>entry\<close>, which fills in the descriptors, the interrupt table and the page tables, initialises the devices
  and executes the shell. Three terminals share one screen; each runs a shell, and the programs it starts,
  in turns given by the interval timer. A key goes through the keyboard driver into the line buffer of the visible
  terminal; a program that reads its terminal waits for the line. Programs enter the kernel by a trap, whose
  dispatcher calls one of ten system calls; these work on process control blocks with eight descriptors each, and the
  descriptors lead through jump tables to the terminal, the clock, the directory or a file.

  \<^bold>\<open>The state.\<close> Memory is one function from addresses to bytes; an address is a block and an offset of 32 bits. Physical
  memory is one block, which holds the image, the page tables, the screens and the program pages; the line and history
  buffers, the strings of a process control block and the local arrays of C functions are blocks of their own.
  Around it grows an extensible record, one layer per component: \<open>machine\<close> (ports, interrupt flag), \<open>console\<close>
  (terminals), the masks of the interrupt controllers, the clock, the page directory register, processes, the keyboard,
  and last \<open>kernel\<close>. What a device answers is a function of the number of the read, an arbitrary
  environment. C integers are words of their width. An operation returns the new state; \<open>None\<close> stands for what C
  leaves undefined (an access outside an array, a missing terminator) and for not returning. A wait with
  interrupts on is given the list of interrupts that are served meanwhile.

  \<^bold>\<open>The theories\<close>, with the source they model and what they show.

  \<^item> \<open>Prelude\<close>: the C types and the interfaces \<open>stepper\<close> (an invariant of a machine that reads events), \<open>simulation\<close> (such a
    machine implements a specification), \<open>cursor\<close> (reading an object to its end) and \<open>slots\<close> (allocating the lowest free
    number).
  \<^item> \<open>Clib\<close> (\<^verbatim>\<open>lib.c\<close>, memory and strings): the routines as the string instructions execute them, alignment
    prologues and epilogues included. Each has the effect of its specification on byte lists; \<open>itoa\<close> can be read back.
  \<^item> \<open>Machine\<close> (\<^verbatim>\<open>lib.h\<close>): ports and interrupt flag; saved flags are restored, also when nested.
  \<^item> \<open>Console\<close> (\<^verbatim>\<open>lib.c\<close>, output): \<open>putc\<close> implements a screen of rows that scrolls, and \<open>printf\<close> prints its expansion.
  \<^item> \<open>State\<close>: the global variables, the descriptors and the jump tables.
  \<^item> \<open>Pic\<close> (\<^verbatim>\<open>i8259.c\<close>): the mask registers implement a set of enabled lines.
  \<^item> \<open>Rtc\<close> (\<^verbatim>\<open>rtc.c\<close>): the frequencies that \<open>rtc_write\<close> accepts and programs; \<open>rtc_read\<close> returns at the next interrupt.
  \<^item> \<open>Paging\<close> (\<^verbatim>\<open>paging.c\<close>): \<open>map_page\<close> and the page walk implement an abstract address space; the layout after
    \<open>paging_init\<close>.
  \<^item> \<open>FileSystem\<close> (\<^verbatim>\<open>file_system.c\<close>): on a well-formed image, reads give the slices of the file's bytes, repeated reads
    the whole file or the whole directory, and a lookup the first entry of the name; errors change nothing.
    \<open>FsTest\<close>: the test routines of the same file; their loop prints a file to its end.
  \<^item> \<open>Pcb\<close> (\<^verbatim>\<open>pcb.c\<close>): slots and descriptors; a new block takes the lowest free slot, and closing a block frees all of
    its descriptors.
  \<^item> \<open>MultiTerm\<close> (\<^verbatim>\<open>multi_term.c\<close>): switching shows the chosen terminal and keeps what every terminal displays.
  \<^item> \<open>Keyboard\<close> (\<^verbatim>\<open>keyboard.c\<close>, \<^verbatim>\<open>key_maps.c\<close>): scan codes implement a line editor; the line and history buffers are used within
    their bounds as long as an arrow key is pressed only where the history has the elements it reads, which the driver does
    not test.
  \<^item> \<open>Terminal\<close> (\<^verbatim>\<open>terminal.c\<close>): a read returns the line that is typed, a write shows the bytes.
  \<^item> \<open>Syscalls\<close> (\<^verbatim>\<open>syscalls.c\<close>, the dispatcher in \<^verbatim>\<open>idt_handle_wrap.S\<close>): the ten calls, their refusals, the start of a program
    and its end. A transfer of control (entering a program, returning on the stack of a parent) is a value of
    \<open>outcome\<close>.
  \<^item> \<open>Timer\<close> (\<^verbatim>\<open>timer.c\<close>): a switch resumes the next task on its own stack and page, and three switches come back.
  \<^item> \<open>Mouse\<close> (\<^verbatim>\<open>mouse.c\<close>): the waits end, and the pointer stays on the screen.
  \<^item> \<open>Idt\<close> (\<^verbatim>\<open>idt_handle.c\<close>): the gates; an exception ends the program and nothing else.
  \<^item> \<open>Boot\<close> (\<^verbatim>\<open>kernel.c\<close>) and \<open>Gdt\<close> (\<^verbatim>\<open>boot.S\<close>, \<^verbatim>\<open>x86_desc.S\<close>): the start of the kernel; every selector names the right
    descriptor.
  \<^item> \<open>Userlib\<close> (\<^verbatim>\<open>ece391support.c\<close>, \<^verbatim>\<open>ece391syscall.h\<close>) and \<open>Programs\<close> (\<^verbatim>\<open>cat\<close>, \<^verbatim>\<open>ls\<close>, \<^verbatim>\<open>shell\<close>, \<^verbatim>\<open>hello\<close>, \<^verbatim>\<open>testprint\<close>, \<^verbatim>\<open>counter\<close>, \<^verbatim>\<open>grep\<close>,
    \<^verbatim>\<open>pingpong\<close>), \<open>Syserr\<close>, \<open>Fish\<close>, \<open>Sigtest\<close>: the programs as functions of a record \<open>os\<close> of system calls. The interfaces
    \<open>console_os\<close>, \<open>reader_os\<close> and \<open>error_os\<close> are what they rely on. \<open>Fish\<close> shows that the linked list of \<^verbatim>\<open>blink.S\<close> in its
    array implements a plain list of blinking characters.
  \<^item> \<open>UserKernel\<close> (\<^verbatim>\<open>ece391syscall.S\<close>): the same record filled with the modelled kernel, through its dispatcher and the
    page walk of the running process. There \<^verbatim>\<open>cat\<close> prints the file, \<^verbatim>\<open>ls\<close> the directory, and all tests of \<^verbatim>\<open>syserr\<close> pass.
  \<^item> \<open>Emulate\<close> (\<^verbatim>\<open>ece391emulate.c\<close>): the record over Linux, whose calls are an argument.
  \<^item> This theory: execution and halt together leave the process table as it was.

  \<^bold>\<open>Bounds.\<close> No fuel limits a result. Loops that need not end are partial functions to an option, and the theorems
  show that they return; waits are driven by the list of interrupts. The counts that occur are those of the code:
  100000 polls of the mouse, 100 waits of \<^verbatim>\<open>fish\<close>, 1024 slots of a page table. The endless loop of \<^verbatim>\<open>pingpong\<close> takes the number of
  its rounds as an argument, so that every prefix of its run is covered.

  \<^bold>\<open>Not modelled.\<close> Interrupts between two instructions of a user program or of kernel code that runs with interrupts
  enabled, other than in the waits: the code is executed as a sequence, and the interrupt handlers are separate
  operations. The register saves of the wrappers in \<^verbatim>\<open>idt_handle_wrap.S\<close>, and faults on addresses that are not mapped
  inside kernel code. User programs other than those of the repository are an arbitrary change of memory. The fields of
  the Multiboot structures that the kernel never reads. \<^verbatim>\<open>debug.h\<close>, whose macros nothing uses, and \<^verbatim>\<open>types.h\<close> and
  \<^verbatim>\<open>driver.h\<close>, which are declarations only. The caller's alarm signal of \<^verbatim>\<open>sigtest\<close>: the kernel has no signals, so its handler
  is defined and never called.
\<close>

text \<open>
  C1: A program that is executed and then halts leaves the process table as it was. From a shell that runs on the visible
  terminal, \<^verbatim>\<open>execute\<close> starts the program in a free slot; whatever the program then does to memory, when it halts
  the shell's call of \<^verbatim>\<open>execute\<close> returns on the shell's own stack with the program's exit status, the slots in
  use are those before the call, and the shell is the current process again with its own
  page and kernel stack.\<close>

theorem execute_halt_returns:
  assumes cl: "command_line r a name b arg" and wf: "wf_dir s" and used: "card (used_slots s) < 6" and j: "dir_lookup s name = Some j"
    and ino: "ino = unat (entry_ino s j)" and ok: "load_ok s (fst (take_pcb s)) ino"
    and elf: "28 \<le> file_size s ino" "take 4 (file_bytes s ino) = elf_magic"
    and shell: "\<not> starting_new_shell s" "cur_task (terminals s (vis_term_id s)) = pcb_addr q" "q \<in> used_slots s"
      "page_addr (pcbs s (pcb_addr q)) = prog_page k" "k < 6" "vis_term_id s = sched_term_id s" "\<not> except_raised s"
  shows "\<exists>s1. sys_execute e1 e2 r s = Some (Enters (elf_entry (file_bytes s ino)) 0x83FFFFC, s1)
    \<and> (\<forall>m. \<exists>s2. sys_halt code f1 f2 (s1\<lparr>mem := m\<rparr>) = Some (ExecuteReturns e1 e2 (uint code), s2)
        \<and> used_slots s2 = used_slots s \<and> cur_pcb s2 = pcb_addr q \<and> cur_task (terminals s2 (vis_term_id s)) = pcb_addr q
        \<and> tss_esp0 s2 = esp0 (pcbs s (pcb_addr q)) \<and> ld32 (mem s2) (prog_dir s2) = prog_page k + 0x87 \<and> iflag s2)"
proof -
  define n where "n = fst (take_pcb s)"
  have free: "n \<notin> used_slots s" unfolding n_def using used by (intro proc.take_free proc.not_full) simp
  have n: "n < 32" unfolding n_def using used proc.take_bound [of s] by simp
  have q: "q < 32" using shell(3) by (simp add: used_slots_def)
  have nq: "pcb_addr q \<noteq> pcb_addr n" using pcb_addr_inj [OF q n] free shell(3) by auto
  have nz: "pcb_addr q \<noteq> 0" by (rule pcb_addr_nonzero [OF q])
  then have link: "starting_new_shell s \<or> cur_task (terminals s (vis_term_id s)) \<noteq> 0" by (simp add: shell(2))
  obtain s1 where s1: "sys_execute e1 e2 r s = Some (Enters (elf_entry (file_bytes s ino)) 0x83FFFFC, s1)"
    "started s n (file_bytes s ino) e1 e2 s1" "used_slots s1 = insert n (used_slots s)"
    using sys_execute_spec [OF cl wf used j ino ok elf link, of e1 e2] unfolding n_def by blast
  have st: "cur_pcb s1 = pcb_addr n" "parent_task (pcbs s1 (pcb_addr n)) = pcb_addr q" "esp (pcbs s1 (pcb_addr q)) = e1" "ebp (pcbs s1 (pcb_addr q)) = e2"
    "page_addr (pcbs s1 (pcb_addr q)) = prog_page k" "esp0 (pcbs s1 (pcb_addr q)) = esp0 (pcbs s (pcb_addr q))"
    "sched_term_id s1 = vis_term_id s" "\<not> except_raised s1"
    using s1(2) shell nq by (simp_all add: started_def others_kept_def Let_def)
  have "\<exists>s2. sys_halt code f1 f2 (s1\<lparr>mem := m\<rparr>) = Some (ExecuteReturns e1 e2 (uint code), s2)
        \<and> used_slots s2 = used_slots s \<and> cur_pcb s2 = pcb_addr q \<and> cur_task (terminals s2 (vis_term_id s)) = pcb_addr q
        \<and> tss_esp0 s2 = esp0 (pcbs s (pcb_addr q)) \<and> ld32 (mem s2) (prog_dir s2) = prog_page k + 0x87 \<and> iflag s2" for m
    using sys_halt_spec [OF n _ _ nz _ shell(5), of "s1\<lparr>mem := m\<rparr>" code f1 f2] st s1(3) free
    by (auto simp: exit_value_def used_slots_def)
  then show ?thesis using s1(1) by blast
qed

text \<open>A shell in slot 0 of the first terminal, on the image with an executable.\<close>

definition prog_shell :: kernel where
  "prog_shell = (blank_kernel prog_image)\<lparr>pcb_status := 1, pcbs := \<lambda>_. blank_pcb\<lparr>page_addr := 0x800000, esp0 := 0x7FFFFC\<rparr>,
     terminals := \<lambda>i. (terminals (blank_kernel prog_image) i)\<lparr>cur_task := 0x7FE000\<rparr>\<rparr>"

lemma prog_shell_image: "same_image prog_fs prog_shell" "cr3 prog_shell = 0x401000"
  by (simp_all add: same_image_def prog_shell_def blank_kernel_def)

lemma prog_shell_ok: "wf_dir prog_shell" "load_ok prog_shell 1 0" "dir_lookup prog_shell [0x61] = Some 0"
proof -
  note c = same_image_counts [OF prog_shell_image(1), unfolded prog_counts]
  have wf: "wf_image prog_fs" "wf_file prog_fs 0" using prog_ok(2) by (simp_all add: load_ok_def)
  note f = same_image_file [OF prog_shell_image(1) wf, unfolded prog_file]
  then show "wf_dir prog_shell" by (simp add: wf_dir_def c)
  show "dir_lookup prog_shell [0x61] = Some 0"
    using same_image_entry(1) [OF prog_shell_image(1) prog_ok(1), of 0] by (simp add: dir_lookup_def c prog_counts prog_file)
  have "separate (Phys, 0x401080) 4 (Phys, 0x410000) 12288" "separate (Phys, 0xC48000) 28 (Phys, 0x410000) 12288"
    "separate (Phys, 0xC48000) 28 (Phys, 0x401080) 4" by (rule separate_le; simp)+
  then show "load_ok prog_shell 1 0"
    using f c by (simp add: load_ok_def img_separate_def img_def prog_counts prog_shell_image(2) prog_page_def)
qed

theorem execute_halt_returns_witness:
  "\<exists>s1. sys_execute 11 12 (lit ''a b'') prog_shell = Some (Enters 0x8048000 0x83FFFFC, s1)
    \<and> (\<exists>s2. sys_halt 5 0 0 (s1\<lparr>mem := \<lambda>_. 0xCC\<rparr>) = Some (ExecuteReturns 11 12 5, s2) \<and> cur_pcb s2 = 0x7FE000 \<and> used_slots s2 = {0})"
proof -
  have bit1: "bit (1 :: u32) i = (i = 0)" for i by (simp add: bit_1_iff)
  have u: "used_slots prog_shell = {0}" by (auto simp: used_slots_def prog_shell_def bit1)
  have t: "fst (take_pcb prog_shell) = 1" by (simp add: take_pcb_def find_empty_pcb_def find_slot.simps prog_shell_def Let_def bit1)
  have sh: "\<not> starting_new_shell prog_shell" "cur_task (terminals prog_shell (vis_term_id prog_shell)) = pcb_addr 0" "0 \<in> used_slots prog_shell"
    "page_addr (pcbs prog_shell (pcb_addr 0)) = prog_page 0" "(0 :: nat) < 6" "vis_term_id prog_shell = sched_term_id prog_shell" "\<not> except_raised prog_shell"
    by (simp_all add: u) (simp_all add: prog_shell_def blank_kernel_def pcb_addr_def prog_page_def)
  have wf: "wf_image prog_fs" "wf_file prog_fs 0" using prog_ok(2) by (simp_all add: load_ok_def)
  note f = same_image_file(1,2) [OF prog_shell_image(1) wf]
  have "entry_ino prog_shell 0 = 0" using prog_file(4) by (simp add: entry_ino_def img_def prog_shell_def)
  then have e: "0 = unat (entry_ino prog_shell 0)" by simp
  show ?thesis
    using execute_halt_returns [OF prog_command prog_shell_ok(1) _ prog_shell_ok(3) e _ _ _ sh, of 11 12 5 0 0]
      prog_shell_ok(2) by (auto simp: u t f prog_file pcb_addr_def) blast
qed

end
